(* ===== verification/HS_Prelude.thy ===== *)
theory HS_Prelude
  imports Main "HOL-Library.Word" "HOL-Library.AList"
begin

text \<open>
  Shared vocabulary of the development: the machine integers of the C++ sources, hash maps as
  association lists with distinct keys, the ways a C++ operation can fail, monadic folds over
  operations that can fail, and the simp collections the component theories feed.
\<close>

section \<open>Collections\<close>

named_theorems counter_simps \<open>laws of the statistics counters\<close>
named_theorems stats_simps \<open>effect of the statistics operations on what a reader observes\<close>
named_theorems stats_wf \<open>preservation of the well-formedness of statistics objects\<close>

section \<open>Machine integers\<close>

text \<open>
  \<open>int64_t\<close>, \<open>uint64_t\<close> and \<open>size_t\<close> are 64-bit words, \<open>int32_t\<close> and \<open>uint32_t\<close> 32-bit words,
  \<open>uint8_t\<close> 8-bit words; a signed reading is \<open>sint\<close>, an unsigned one \<open>unat\<close>.
\<close>

type_synonym i64 = "64 word"
type_synonym u64 = "64 word"
type_synonym i32 = "32 word"
type_synonym u32 = "32 word"
type_synonym u8 = "8 word"

section \<open>Failures\<close>

text \<open>
  A failed \<open>ld_check\<close> stops the process, a failed \<open>hs_check\<close> throws \<open>ToHsException\<close>, other
  exceptions carry the name of what threw them. An operation that can fail returns a sum.
\<close>

datatype cpp_error =
    LdCheck                       \<comment> \<open>\<open>ld_check\<close> failed, the process aborts\<close>
  | ToHsException string          \<comment> \<open>\<open>hs_check\<close> failed, caught at the FFI boundary\<close>
  | StdException string           \<comment> \<open>any other exception\<close>

type_synonym 'a result = "cpp_error + 'a"

text \<open>
  \<open>hs_check(expr)\<close> throws the default message; \<open>hs_check(expr, "msg")\<close> throws \<open>#msg\<close>, the source
  text of the argument, quotation marks included.
\<close>

definition hs_check_failed :: cpp_error where
  "hs_check_failed = ToHsException ''Some errors happend in cpp runtime''"

definition hs_check_failed_msg :: "string \<Rightarrow> cpp_error" where
  "hs_check_failed_msg msg = ToHsException ([CHR 0x22] @ msg @ [CHR 0x22])"

text \<open>\<open>std::to_string\<close> of an integer.\<close>

fun decimal :: "nat \<Rightarrow> string" where
  "decimal n =
     (if n < 10 then [char_of (48 + n)] else decimal (n div 10) @ [char_of (48 + n mod 10)])"

declare decimal.simps [simp del]

lemma decimal_not_Nil: "decimal n \<noteq> []"
  by (simp add: decimal.simps [of n])

definition to_string :: "int \<Rightarrow> string" where
  "to_string i = (if i < 0 then ''-'' @ decimal (nat (- i)) else decimal (nat i))"

fun fold_result :: "('x \<Rightarrow> 'a \<Rightarrow> 'a result) \<Rightarrow> 'x list \<Rightarrow> 'a \<Rightarrow> 'a result" where
  "fold_result f [] a = Inr a"
| "fold_result f (x # xs) a =
     (case f x a of Inl e \<Rightarrow> Inl e | Inr b \<Rightarrow> fold_result f xs b)"

text \<open>A fallible loop whose body never fails while an invariant holds is the plain loop.\<close>

lemma fold_result_total:
  assumes step: "\<And>x a. x \<in> set xs \<Longrightarrow> P a \<Longrightarrow> f x a = Inr (g x a) \<and> P (g x a)"
    and start: "P a"
  shows "fold_result f xs a = Inr (fold g xs a) \<and> P (fold g xs a)"
  using assms
proof (induction xs arbitrary: a)
  case Nil
  then show ?case by simp
next
  case (Cons x xs)
  have "f x a = Inr (g x a) \<and> P (g x a)"
    using Cons.prems by simp
  moreover from this have "fold_result f xs (g x a) = Inr (fold g xs (g x a)) \<and>
      P (fold g xs (g x a))"
    using Cons.IH [of "g x a"] Cons.prems(1) by simp
  ultimately show ?case by simp
qed

lemma fold_result_Cons_Inr:
  "fold_result f (x # xs) a = Inr r \<longleftrightarrow> (\<exists>b. f x a = Inr b \<and> fold_result f xs b = Inr r)"
  by (cases "f x a") auto

text \<open>An invariant of the loop that may depend on the elements it visits.\<close>

lemma fold_result_inv_set:
  assumes "fold_result f xs a = Inr b" "P a"
    and "\<And>x a b. x \<in> set xs \<Longrightarrow> P a \<Longrightarrow> f x a = Inr b \<Longrightarrow> P b"
  shows "P b"
  using assms
proof (induction xs arbitrary: a)
  case (Cons x xs)
  from Cons.prems(1) obtain c where c: "f x a = Inr c" "fold_result f xs c = Inr b"
    unfolding fold_result_Cons_Inr by blast
  have "P c" by (rule Cons.prems(3) [OF _ Cons.prems(2) c(1)]) simp
  then show ?case by (rule Cons.IH [OF c(2)]) (rule Cons.prems(3), simp_all)
qed simp

lemma fold_result_append:
  "fold_result f (xs @ ys) a =
     (case fold_result f xs a of Inl e \<Rightarrow> Inl e | Inr b \<Rightarrow> fold_result f ys b)"
  by (induction xs arbitrary: a) (auto split: sum.splits)

section \<open>Hash maps\<close>

text \<open>
  A \<open>std::unordered_map\<close> is an association list with distinct keys. Its order stands for the
  iteration order, which the C++ standard leaves open: lookups and every property below are
  stated through \<open>map_of\<close> or sets of entries and so do not depend on it.
\<close>

type_synonym ('k, 'v) umap = "('k \<times> 'v) list"

abbreviation umap_wf :: "('k, 'v) umap \<Rightarrow> bool" where
  "umap_wf m \<equiv> distinct (map fst m)"

abbreviation umap_put :: "'k \<Rightarrow> 'v \<Rightarrow> ('k, 'v) umap \<Rightarrow> ('k, 'v) umap" where
  "umap_put \<equiv> AList.update"

abbreviation umap_erase :: "'k \<Rightarrow> ('k, 'v) umap \<Rightarrow> ('k, 'v) umap" where
  "umap_erase \<equiv> AList.delete"

lemma umap_put_lookup [simp]: "map_of (umap_put k v m) = (map_of m)(k \<mapsto> v)"
  by (rule update_conv')

lemma umap_put_wf [simp, intro]: "umap_wf m \<Longrightarrow> umap_wf (umap_put k v m)"
  by (rule distinct_update)

lemma umap_put_subset: "set (umap_put k v m) \<subseteq> insert (k, v) (set m)"
  by (induction m) auto

lemma umap_erase_lookup [simp]: "map_of (umap_erase k m) = (map_of m)(k := None)"
  by (rule delete_conv')

lemma umap_erase_wf [simp, intro]: "umap_wf m \<Longrightarrow> umap_wf (umap_erase k m)"
  by (rule distinct_delete)

lemma umap_lookup_in: "umap_wf m \<Longrightarrow> (k, v) \<in> set m \<longleftrightarrow> map_of m k = Some v"
  by (auto dest: map_of_SomeD)

lemma umap_keys: "fst ` set m = dom (map_of m)"
  by (rule dom_map_of_conv_image_fst [symmetric])

lemma umap_set_split:
  assumes "umap_wf m" "map_of m k = Some v"
  shows "set m = insert (k, v) (set (umap_erase k m))"
proof (rule set_eqI)
  fix e
  have "map_of m (fst e) = Some (snd e) \<longleftrightarrow> e = (k, v) \<or> e \<in> set m \<and> k \<noteq> fst e"
    using assms umap_lookup_in [OF assms(1), of "fst e" "snd e"] by (cases "fst e = k") (auto simp: prod_eq_iff)
  then show "e \<in> set m \<longleftrightarrow> e \<in> insert (k, v) (set (umap_erase k m))"
    using umap_lookup_in [OF assms(1), of "fst e" "snd e"]
    by (simp add: AList.delete_eq case_prod_unfold)
qed

text \<open>What \<open>erase(key)\<close> returns: the number of elements removed, 0 or 1.\<close>

definition umap_count :: "'k \<Rightarrow> ('k, 'v) umap \<Rightarrow> nat" where
  "umap_count k m = (case map_of m k of None \<Rightarrow> 0 | Some _ \<Rightarrow> 1)"

lemma umap_count_le: "umap_count k m \<le> 1"
  by (simp add: umap_count_def split: option.splits)

section \<open>Sums over lists of words\<close>

lemma sum_list_map_update_one:
  fixes f g :: "'a \<Rightarrow> 'b::ab_group_add"
  assumes "distinct xs" "x \<in> set xs" "\<And>y. y \<in> set xs \<Longrightarrow> y \<noteq> x \<Longrightarrow> g y = f y"
  shows "sum_list (map g xs) = sum_list (map f xs) - f x + g x"
  using assms
proof (induction xs)
  case Nil
  then show ?case by simp
next
  case (Cons a xs)
  show ?case
  proof (cases "a = x")
    case True
    with Cons.prems(1,3) have "sum_list (map g xs) = sum_list (map f xs)"
      by (intro arg_cong [where f = sum_list] map_cong) auto
    with True show ?thesis by (simp add: algebra_simps)
  next
    case False
    with Cons have "sum_list (map g xs) = sum_list (map f xs) - f x + g x" by simp
    moreover have "g a = f a" using Cons.prems(3) False by simp
    ultimately show ?thesis by (simp add: algebra_simps)
  qed
qed

lemma sum_list_all_zero: "(\<And>x. x \<in> set xs \<Longrightarrow> f x = 0) \<Longrightarrow> sum_list (map f xs) = (0::'a::comm_monoid_add)"
  by (induction xs) auto

end
