(* ===== verification/Stats_Counter.thy ===== *)
theory Stats_Counter
  imports HS_Prelude
begin

text \<open>
  The counters of one monitored object: \<open>StatsAgg\<close>, \<open>aggregateStat\<close>, \<open>aggregateHistogram\<close> and
  the structs \<open>PerStreamStats\<close> \<dots> \<open>PerHandleStats\<close> of \<open>common/stats/cbits/stats/Stats.{h,cpp}\<close>.

  The sources generate the members of each struct by including a table (\<open>per_stream_stats.inc\<close>
  and so on) under different definitions of \<open>STAT_DEFINE\<close>. The model keeps that structure: a
  table is a list of (name, aggregation) pairs, a struct holds one counter per name, and every
  function generated from a table is a fold over it.

  \<open>StatsCounter\<close>, the histograms and the time series come from LogDevice and folly. They are
  parameters: records of operations, with the behaviour the code relies on stated as a locale.
\<close>

section \<open>Counters\<close>

text \<open>\<open>facebook::logdevice::StatsCounter\<close>: an atomic \<open>int64_t\<close>.\<close>

record 'c counter_api =
  ctr_new :: 'c                          \<comment> \<open>\<open>StatsCounter c{}\<close>\<close>
  ctr_load :: "'c \<Rightarrow> i64"                \<comment> \<open>\<open>c.load()\<close>\<close>
  ctr_add :: "'c \<Rightarrow> i64 \<Rightarrow> 'c"           \<comment> \<open>\<open>c += v\<close>\<close>
  ctr_sub :: "'c \<Rightarrow> i64 \<Rightarrow> 'c"           \<comment> \<open>\<open>c -= v\<close>\<close>
  ctr_set :: "'c \<Rightarrow> i64 \<Rightarrow> 'c"           \<comment> \<open>\<open>c = v\<close>\<close>

locale stats_counter =
  fixes SC :: "'c counter_api"
  assumes load_new: "ctr_load SC (ctr_new SC) = 0"
    and load_add: "ctr_load SC (ctr_add SC c v) = ctr_load SC c + v"
    and load_sub: "ctr_load SC (ctr_sub SC c v) = ctr_load SC c - v"
    and load_set: "ctr_load SC (ctr_set SC c v) = v"

text \<open>The counter the documentation describes: the 64-bit value itself, wrapping around.\<close>

definition int64_counter :: "i64 counter_api" where
  "int64_counter = \<lparr>ctr_new = 0, ctr_load = (\<lambda>c. c), ctr_add = (+), ctr_sub = (-),
     ctr_set = (\<lambda>_ v. v)\<rparr>"

interpretation int64: stats_counter int64_counter
  by unfold_locales (simp_all add: int64_counter_def)

section \<open>Aggregation of one counter\<close>

datatype StatsAgg = AGG_SUM | AGG_MAX | AGG_SUBTRACT | AGG_ASSIGN

definition aggregateStat :: "'c counter_api \<Rightarrow> StatsAgg \<Rightarrow> 'c \<Rightarrow> i64 \<Rightarrow> 'c" where
  "aggregateStat SC agg out inn =
     (case agg of
        AGG_SUM \<Rightarrow> ctr_add SC out inn
      | AGG_MAX \<Rightarrow> (if sint inn > sint (ctr_load SC out) then ctr_set SC out inn else out)
      | AGG_SUBTRACT \<Rightarrow> ctr_sub SC out inn
      | AGG_ASSIGN \<Rightarrow> ctr_set SC out inn)"

definition aggregateStat_override ::
    "'c counter_api \<Rightarrow> StatsAgg \<Rightarrow> StatsAgg option \<Rightarrow> 'c \<Rightarrow> i64 \<Rightarrow> 'c" where
  "aggregateStat_override SC agg override out inn =
     aggregateStat SC (case override of Some a \<Rightarrow> a | None \<Rightarrow> agg) out inn"

section \<open>Histograms\<close>

text \<open>
  \<open>ServerHistograms\<close> derives from LogDevice's \<open>HistogramBundle\<close>, which works on the histograms
  its \<open>getMap\<close> names.
\<close>

record ('h, 'd) histogram_api =
  hb_new :: "string list \<Rightarrow> 'h"                   \<comment> \<open>a bundle of empty histograms\<close>
  hb_find :: "'h \<Rightarrow> string \<Rightarrow> bool"               \<comment> \<open>\<open>find(name) != nullptr\<close>\<close>
  hb_add :: "'h \<Rightarrow> string \<Rightarrow> i64 \<Rightarrow> 'h"            \<comment> \<open>\<open>find(name)->add(usecs)\<close>\<close>
  hb_merge :: "'h \<Rightarrow> 'h \<Rightarrow> 'h"
  hb_subtract :: "'h \<Rightarrow> 'h \<Rightarrow> 'h"
  hb_clear :: "'h \<Rightarrow> 'h"
  hb_percentile :: "'h \<Rightarrow> string \<Rightarrow> 'd \<Rightarrow> i64"       \<comment> \<open>\<open>find(name)->estimatePercentile(p)\<close>\<close>
  hb_percentiles :: "'h \<Rightarrow> string \<Rightarrow> 'd list \<Rightarrow> i64 list \<times> u64 \<times> i64"
    \<comment> \<open>\<open>find(name)->estimatePercentiles\<close>: samples, count and sum; doubles are \<open>'d\<close>\<close>

locale histogram_bundle =
  fixes HB :: "('h, 'd) histogram_api"
  assumes find_new: "hb_find HB (hb_new HB ns) n \<longleftrightarrow> n \<in> set ns"
    and find_add: "hb_find HB (hb_add HB h m v) n = hb_find HB h n"
    and find_merge: "hb_find HB (hb_merge HB h h') n = hb_find HB h n"
    and find_clear: "hb_find HB (hb_clear HB h) n = hb_find HB h n"

text \<open>
  A bundle that keeps its samples: an association list from names to the samples recorded, most
  recent first, with percentiles given in percent.
\<close>

definition nth_percentile :: "i64 list \<Rightarrow> nat \<Rightarrow> i64" where
  "nth_percentile samples pct =
     (let xs = sort_key sint samples; i = (pct * length xs) div 100
      in if i < length xs then xs ! i else 0)"

definition samples_of :: "(string \<times> i64 list) list \<Rightarrow> string \<Rightarrow> i64 list" where
  "samples_of h n = (case map_of h n of None \<Rightarrow> [] | Some xs \<Rightarrow> xs)"

definition sample_bundle :: "((string \<times> i64 list) list, nat) histogram_api" where
  "sample_bundle =
     \<lparr>hb_new = map (\<lambda>n. (n, [])),
      hb_find = (\<lambda>h n. map_of h n \<noteq> None),
      hb_add = (\<lambda>h n v. map (\<lambda>(m, xs). (m, if m = n then v # xs else xs)) h),
      hb_merge = (\<lambda>h h'. map (\<lambda>(m, xs). (m, samples_of h' m @ xs)) h),
      hb_subtract = (\<lambda>h h'. map (\<lambda>(m, xs). (m, fold remove1 (samples_of h' m) xs)) h),
      hb_clear = map (\<lambda>(m, xs). (m, [])),
      hb_percentile = (\<lambda>h n pct. nth_percentile (samples_of h n) pct),
      hb_percentiles = (\<lambda>h n pcts. (map (nth_percentile (samples_of h n)) pcts,
         of_nat (length (samples_of h n)), sum_list (samples_of h n)))\<rparr>"

lemma map_of_map_snd:
  "map_of (map (\<lambda>(m, xs). (m, f m xs)) h) n = map_option (f n) (map_of h n)"
  by (induction h) auto

interpretation samples: histogram_bundle sample_bundle
proof
  fix ns :: "string list" and n :: string
  have "map_of (map (\<lambda>n. (n, [] :: i64 list)) ns) n \<noteq> None \<longleftrightarrow> n \<in> set ns"
    by (induction ns) auto
  then show "hb_find sample_bundle (hb_new sample_bundle ns) n \<longleftrightarrow> n \<in> set ns"
    by (simp add: sample_bundle_def)
qed (simp_all add: sample_bundle_def map_of_map_snd)

text \<open>The names \<open>ServerHistograms::getMap\<close> lists.\<close>

definition ServerHistograms_getMap :: "string list" where
  "ServerHistograms_getMap =
     [''append_request_latency'', ''append_latency'', ''read_latency'',
      ''append_cache_store_latency'', ''read_cache_store_latency'',
      ''check_store_cluster_healthy_latency'', ''check_meta_cluster_healthy_latency'']"

definition aggregateHistogram ::
    "('h, 'd) histogram_api \<Rightarrow> StatsAgg option \<Rightarrow> 'h \<Rightarrow> 'h \<Rightarrow> 'h" where
  "aggregateHistogram HB agg out inn =
     (case agg of
        None \<Rightarrow> hb_merge HB out inn
      | Some AGG_SUM \<Rightarrow> hb_merge HB out inn
      | Some AGG_MAX \<Rightarrow> hb_merge HB out inn
      | Some AGG_SUBTRACT \<Rightarrow> hb_subtract HB out inn
      | Some AGG_ASSIGN \<Rightarrow> inn)"

section \<open>The statistics of one object\<close>

text \<open>
  The tables of \<open>common/stats/include\<close>. Each entry is one \<open>STAT_DEFINE(name, agg)\<close>.
\<close>

type_synonym stat_table = "(string \<times> StatsAgg) list"

definition per_stream_stats_inc :: stat_table where
  "per_stream_stats_inc =
     [(''append_total'', AGG_SUM), (''append_failed'', AGG_SUM), (''append_in_bytes'', AGG_SUM),
      (''append_in_records'', AGG_SUM), (''read_in_bytes'', AGG_SUM), (''read_in_batches'', AGG_SUM)]"

definition per_connector_stats_inc :: stat_table where
  "per_connector_stats_inc =
     [(''delivered_in_records'', AGG_SUM), (''delivered_in_bytes'', AGG_SUM)]"

definition per_cache_store_stats_inc :: stat_table where
  "per_cache_store_stats_inc =
     [(''cs_append_total'', AGG_SUM), (''cs_append_failed'', AGG_SUM), (''cs_append_in_bytes'', AGG_SUM),
      (''cs_append_in_records'', AGG_SUM), (''cs_read_in_bytes'', AGG_SUM),
      (''cs_read_in_records'', AGG_SUM), (''cs_delivered_in_records'', AGG_SUM),
      (''cs_delivered_total'', AGG_SUM), (''cs_delivered_failed'', AGG_SUM)]"

definition per_query_stats_inc :: stat_table where
  "per_query_stats_inc =
     [(''total_input_records'', AGG_SUM), (''total_output_records'', AGG_SUM),
      (''total_execute_errors'', AGG_SUM)]"

definition per_view_stats_inc :: stat_table where
  "per_view_stats_inc = [(''total_execute_queries'', AGG_SUM)]"

definition per_subscription_stats_inc :: stat_table where
  "per_subscription_stats_inc =
     [(''send_out_bytes'', AGG_SUM), (''send_out_records'', AGG_SUM),
      (''send_out_records_failed'', AGG_SUM), (''resend_records'', AGG_SUM),
      (''resend_records_failed'', AGG_SUM), (''received_acks'', AGG_SUM),
      (''request_messages'', AGG_SUM), (''response_messages'', AGG_SUM), (''checklist_size'', AGG_SUM)]"

text \<open>
  A struct \<open>PerXStats\<close>: its counters (\<open>name##_counter\<close>), all constructed by \<open>{}\<close>, and its
  time series, all null pointers at construction. The mutex only serialises access.
\<close>

record ('c, 'ts) PerXStats =
  counters :: "string \<Rightarrow> 'c"
  time_series :: "string \<Rightarrow> 'ts option"

definition new_PerXStats :: "'c counter_api \<Rightarrow> ('c, 'ts) PerXStats" where
  "new_PerXStats SC = \<lparr>counters = (\<lambda>_. ctr_new SC), time_series = (\<lambda>_. None)\<rparr>"

text \<open>
  \<open>PerXStats::aggregate\<close>: one \<open>aggregateStat\<close> per table entry, in table order. Time series are
  not touched.
\<close>

definition perx_aggregate ::
    "'c counter_api \<Rightarrow> stat_table \<Rightarrow> ('c, 'ts) PerXStats \<Rightarrow> ('c, 'ts) PerXStats \<Rightarrow>
     StatsAgg option \<Rightarrow> ('c, 'ts) PerXStats" where
  "perx_aggregate SC inc this other agg_override =
     fold (\<lambda>(name, agg) s. s\<lparr>counters := (counters s)(name :=
         aggregateStat_override SC agg agg_override (counters s name)
           (ctr_load SC (counters other name)))\<rparr>) inc this"

definition PerStreamStats_aggregate where
  "PerStreamStats_aggregate SC = perx_aggregate SC per_stream_stats_inc"

definition PerConnectorStats_aggregate where
  "PerConnectorStats_aggregate SC = perx_aggregate SC per_connector_stats_inc"

definition PerCacheStoreStats_aggregate where
  "PerCacheStoreStats_aggregate SC = perx_aggregate SC per_cache_store_stats_inc"

definition PerQueryStats_aggregate where
  "PerQueryStats_aggregate SC = perx_aggregate SC per_query_stats_inc"

definition PerViewStats_aggregate where
  "PerViewStats_aggregate SC = perx_aggregate SC per_view_stats_inc"

definition PerSubscriptionStats_aggregate where
  "PerSubscriptionStats_aggregate SC = perx_aggregate SC per_subscription_stats_inc"

text \<open>
  \<open>folly::dynamic\<close>, as far as the code builds it: integers and objects.
\<close>

datatype dyn = DynInt i64 | DynObject "(string, dyn) umap"

definition perx_toJsonObj :: "'c counter_api \<Rightarrow> stat_table \<Rightarrow> ('c, 'ts) PerXStats \<Rightarrow> dyn" where
  "perx_toJsonObj SC inc s =
     DynObject (fold (\<lambda>(name, _) m. umap_put name (DynInt (ctr_load SC (counters s name))) m)
       inc [])"

definition PerStreamStats_toJsonObj where
  "PerStreamStats_toJsonObj SC = perx_toJsonObj SC per_stream_stats_inc"

definition PerConnectorStats_toJsonObj where
  "PerConnectorStats_toJsonObj SC = perx_toJsonObj SC per_connector_stats_inc"

definition PerCacheStoreStats_toJsonObj where
  "PerCacheStoreStats_toJsonObj SC = perx_toJsonObj SC per_cache_store_stats_inc"

definition PerQueryStats_toJsonObj where
  "PerQueryStats_toJsonObj SC = perx_toJsonObj SC per_query_stats_inc"

definition PerViewStats_toJsonObj where
  "PerViewStats_toJsonObj SC = perx_toJsonObj SC per_view_stats_inc"

definition PerSubscriptionStats_toJsonObj where
  "PerSubscriptionStats_toJsonObj SC = perx_toJsonObj SC per_subscription_stats_inc"

text \<open>\<open>toJson\<close> prints the object with folly's printer, a parameter.\<close>

definition perx_toJson ::
    "(dyn \<Rightarrow> string) \<Rightarrow> 'c counter_api \<Rightarrow> stat_table \<Rightarrow> ('c, 'ts) PerXStats \<Rightarrow> string" where
  "perx_toJson folly_toJson SC inc s = folly_toJson (perx_toJsonObj SC inc s)"

definition PerStreamStats_toJson where
  "PerStreamStats_toJson folly_toJson SC = perx_toJson folly_toJson SC per_stream_stats_inc"

definition PerConnectorStats_toJson where
  "PerConnectorStats_toJson folly_toJson SC = perx_toJson folly_toJson SC per_connector_stats_inc"

definition PerCacheStoreStats_toJson where
  "PerCacheStoreStats_toJson folly_toJson SC = perx_toJson folly_toJson SC per_cache_store_stats_inc"

definition PerQueryStats_toJson where
  "PerQueryStats_toJson folly_toJson SC = perx_toJson folly_toJson SC per_query_stats_inc"

definition PerViewStats_toJson where
  "PerViewStats_toJson folly_toJson SC = perx_toJson folly_toJson SC per_view_stats_inc"

definition PerSubscriptionStats_toJson where
  "PerSubscriptionStats_toJson folly_toJson SC = perx_toJson folly_toJson SC per_subscription_stats_inc"

section \<open>Laws of aggregation\<close>

text \<open>
  What a table promises its users: its names are distinct (the sources rely on it: "we know that
  all names are unique") and every entry is summed.
\<close>

locale counter_table =
  fixes inc :: stat_table
  assumes names_distinct: "distinct (map fst inc)"
    and all_sum: "\<forall>e \<in> set inc. snd e = AGG_SUM"

interpretation stream_tab: counter_table per_stream_stats_inc
  by unfold_locales (simp_all add: per_stream_stats_inc_def)

interpretation connector_tab: counter_table per_connector_stats_inc
  by unfold_locales (simp_all add: per_connector_stats_inc_def)

interpretation cache_store_tab: counter_table per_cache_store_stats_inc
  by unfold_locales (simp_all add: per_cache_store_stats_inc_def)

interpretation query_tab: counter_table per_query_stats_inc
  by unfold_locales (simp_all add: per_query_stats_inc_def)

interpretation view_tab: counter_table per_view_stats_inc
  by unfold_locales (simp_all add: per_view_stats_inc_def)

interpretation subscription_tab: counter_table per_subscription_stats_inc
  by unfold_locales (simp_all add: per_subscription_stats_inc_def)

lemma perx_aggregate_time_series [simp]:
  "time_series (perx_aggregate SC inc this other ov) = time_series this"
  unfolding perx_aggregate_def
  by (induction inc arbitrary: this) auto

lemma perx_aggregate_counter:
  assumes "distinct (map fst inc)"
  shows "counters (perx_aggregate SC inc this other ov) n =
    (case map_of inc n of
       None \<Rightarrow> counters this n
     | Some agg \<Rightarrow> aggregateStat_override SC agg ov (counters this n)
                     (ctr_load SC (counters other n)))"
  using assms
proof (induction inc arbitrary: this)
  case Nil
  then show ?case by (simp add: perx_aggregate_def)
next
  case (Cons e inc)
  obtain name agg where e: "e = (name, agg)" by (cases e)
  let ?this = "this\<lparr>counters := (counters this)(name :=
    aggregateStat_override SC agg ov (counters this name) (ctr_load SC (counters other name)))\<rparr>"
  have "perx_aggregate SC (e # inc) this other ov = perx_aggregate SC inc ?this other ov"
    by (simp add: perx_aggregate_def e)
  moreover have "map_of inc name = None"
    using Cons.prems by (auto simp: e map_of_eq_None_iff)
  ultimately show ?case
    using Cons by (auto simp: e split: option.splits)
qed

context stats_counter
begin

lemmas counter_laws = load_new load_add load_sub load_set

text \<open>Aggregating a summed table adds the other struct's value to every counter of the table.\<close>

lemma aggregate_sum_load:
  assumes "counter_table inc"
  shows "ctr_load SC (counters (perx_aggregate SC inc this other None) n) =
    ctr_load SC (counters this n) +
      (if n \<in> fst ` set inc then ctr_load SC (counters other n) else 0)"
proof (cases "map_of inc n")
  case None
  then have "n \<notin> fst ` set inc" by (simp add: map_of_eq_None_iff)
  with None show ?thesis
    using assms by (simp add: perx_aggregate_counter counter_table_def)
next
  case (Some agg)
  then have "agg = AGG_SUM"
    using assms by (auto simp: counter_table_def dest: map_of_SomeD)
  moreover have "n \<in> fst ` set inc"
    using Some by (force dest: map_of_SomeD)
  ultimately show ?thesis
    using Some assms
    by (simp add: perx_aggregate_counter counter_table_def aggregateStat_override_def
          aggregateStat_def load_add)
qed

text \<open>With the override \<open>AGG_ASSIGN\<close>, as in the copy constructor, the value is copied.\<close>

lemma aggregate_assign_load:
  assumes "counter_table inc"
  shows "ctr_load SC (counters (perx_aggregate SC inc this other (Some AGG_ASSIGN)) n) =
    (if n \<in> fst ` set inc then ctr_load SC (counters other n)
     else ctr_load SC (counters this n))"
proof (cases "map_of inc n")
  case None
  then have "n \<notin> fst ` set inc" by (simp add: map_of_eq_None_iff)
  with None show ?thesis
    using assms by (simp add: perx_aggregate_counter counter_table_def)
next
  case (Some agg)
  moreover have "n \<in> fst ` set inc"
    using Some by (force dest: map_of_SomeD)
  ultimately show ?thesis
    using assms
    by (simp add: perx_aggregate_counter counter_table_def aggregateStat_override_def
          aggregateStat_def load_set)
qed

end

end
