(* ===== verification/Stats_Params.thy ===== *)
theory Stats_Params
  imports Stats_Counter
begin

text \<open>
  \<open>StatsParams\<close> of \<open>common/stats/cbits/stats/Stats.{h,cpp}\<close>: the time series tables, the
  resolution of a time series by one of its query names, and the check of the intervals a client
  asks for (\<open>VerifyIntervals\<close> of \<open>hs_stats.cpp\<close>). All durations are in milliseconds.
\<close>

section \<open>Time series tables\<close>

text \<open>
  One entry per \<open>TIME_SERIES_DEFINE(name, strings, time_intervals, buckets)\<close> of
  \<open>common/stats/include/per_*_time_series.inc\<close>.
\<close>

record ts_entry =
  ts_name :: string
  ts_strings :: "string list"
  ts_intervals :: "int list"
  ts_buckets :: nat

definition seconds :: "int \<Rightarrow> int" where
  "seconds n = 1000 * n"

definition default_intervals :: "int list" where
  "default_intervals = [seconds 4, seconds 60, seconds 300, seconds 600]"

definition per_stream_time_series_inc :: "ts_entry list" where
  "per_stream_time_series_inc =
     [\<lparr>ts_name = ''append_in_bytes'', ts_strings = [''append_in_bytes'', ''appends''],
       ts_intervals = default_intervals, ts_buckets = 2\<rparr>,
      \<lparr>ts_name = ''append_in_records'', ts_strings = [''append_in_records''],
       ts_intervals = default_intervals, ts_buckets = 2\<rparr>,
      \<lparr>ts_name = ''append_in_requests'', ts_strings = [''append_in_requests''],
       ts_intervals = default_intervals, ts_buckets = 2\<rparr>,
      \<lparr>ts_name = ''append_failed_requests'', ts_strings = [''append_failed_requests''],
       ts_intervals = default_intervals, ts_buckets = 2\<rparr>]"

definition per_subscription_time_series_inc :: "ts_entry list" where
  "per_subscription_time_series_inc =
     [\<lparr>ts_name = ''send_out_bytes'', ts_strings = [''send_out_bytes'', ''sends''],
       ts_intervals = default_intervals, ts_buckets = 2\<rparr>,
      \<lparr>ts_name = ''send_out_records'', ts_strings = [''send_out_records''],
       ts_intervals = default_intervals, ts_buckets = 2\<rparr>,
      \<lparr>ts_name = ''acks'', ts_strings = [''acks'', ''acknowledgements''],
       ts_intervals = default_intervals, ts_buckets = 2\<rparr>,
      \<lparr>ts_name = ''request_messages'', ts_strings = [''request_messages''],
       ts_intervals = default_intervals, ts_buckets = 2\<rparr>,
      \<lparr>ts_name = ''response_messages'', ts_strings = [''response_messages''],
       ts_intervals = default_intervals, ts_buckets = 2\<rparr>]"

definition per_handle_time_series_inc :: "ts_entry list" where
  "per_handle_time_series_inc =
     [\<lparr>ts_name = ''queries_in'', ts_strings = [''queries'', ''queries_in''],
       ts_intervals = default_intervals, ts_buckets = 2\<rparr>]"

section \<open>Parameters\<close>

text \<open>
  The members \<open>time_intervals_##name\<close> and \<open>num_buckets_##name\<close>, indexed by name, with their
  default member initialisers. Names of the three tables are distinct, so the members are.
\<close>

record StatsParams =
  is_server :: bool
  time_intervals :: "string \<Rightarrow> int list"
  num_buckets :: "string \<Rightarrow> nat"

definition all_time_series :: "ts_entry list" where
  "all_time_series = per_stream_time_series_inc @ per_subscription_time_series_inc @
     per_handle_time_series_inc"

definition new_StatsParams :: StatsParams where
  "new_StatsParams =
     \<lparr>is_server = False,
      time_intervals = (\<lambda>n. case find (\<lambda>e. ts_name e = n) all_time_series of
                            Some e \<Rightarrow> ts_intervals e | None \<Rightarrow> []),
      num_buckets = (\<lambda>n. case find (\<lambda>e. ts_name e = n) all_time_series of
                         Some e \<Rightarrow> ts_buckets e | None \<Rightarrow> 0)\<rparr>"

definition setIsServer :: "bool \<Rightarrow> StatsParams \<Rightarrow> StatsParams" where
  "setIsServer b p = p\<lparr>is_server := b\<rparr>"

text \<open>
  \<open>maxStreamStatsInterval\<close> and its two siblings return from the first entry one of whose
  strings is the requested name. For an unknown name \<open>ld_check(false)\<close> stops a debug build; a
  release build, where \<open>ld_check\<close> is compiled out, returns the zero duration.
\<close>

fun max_interval :: "bool \<Rightarrow> ts_entry list \<Rightarrow> StatsParams \<Rightarrow> string \<Rightarrow> int result" where
  "max_interval debug [] p s = (if debug then Inl LdCheck else Inr 0)"
| "max_interval debug (e # es) p s =
     (if s \<in> set (ts_strings e) then Inr (last (time_intervals p (ts_name e)))
      else max_interval debug es p s)"

definition maxStreamStatsInterval where
  "maxStreamStatsInterval debug = max_interval debug per_stream_time_series_inc"

definition maxSubscribptionStatsInterval where
  "maxSubscribptionStatsInterval debug = max_interval debug per_subscription_time_series_inc"

definition maxHandleStatsInterval where
  "maxHandleStatsInterval debug = max_interval debug per_handle_time_series_inc"

text \<open>
  \<open>setPerStreamTimeSeriesMember\<close> and its siblings assign the member pointer in every entry that
  matches (the \<open>break\<close> only leaves the loop over one entry's strings): the last match wins and
  \<open>None\<close> is the null pointer the caller passed in.
\<close>

fun set_ts_member :: "ts_entry list \<Rightarrow> string \<Rightarrow> string option \<Rightarrow> string option" where
  "set_ts_member [] s member_ptr = member_ptr"
| "set_ts_member (e # es) s member_ptr =
     set_ts_member es s (if s \<in> set (ts_strings e) then Some (ts_name e) else member_ptr)"

definition setPerStreamTimeSeriesMember where
  "setPerStreamTimeSeriesMember = set_ts_member per_stream_time_series_inc"

definition setPerSubscriptionTimeSeriesMember where
  "setPerSubscriptionTimeSeriesMember = set_ts_member per_subscription_time_series_inc"

definition setPerHandleTimeSeriesMember where
  "setPerHandleTimeSeriesMember = set_ts_member per_handle_time_series_inc"

text \<open>\<open>setPerStreamStatsMember\<close> and its siblings, on the counter tables.\<close>

fun set_stat_member :: "stat_table \<Rightarrow> string \<Rightarrow> string option \<Rightarrow> string option" where
  "set_stat_member [] s member_ptr = member_ptr"
| "set_stat_member ((name, _) # inc) s member_ptr =
     set_stat_member inc s (if name = s then Some name else member_ptr)"

definition setPerStreamStatsMember where
  "setPerStreamStatsMember = set_stat_member per_stream_stats_inc"

definition setPerConnectorStatsMember where
  "setPerConnectorStatsMember = set_stat_member per_connector_stats_inc"

definition setPerCacheStoreStatsMember where
  "setPerCacheStoreStatsMember = set_stat_member per_cache_store_stats_inc"

definition setPerQueryStatsMember where
  "setPerQueryStatsMember = set_stat_member per_query_stats_inc"

definition setPerViewStatsMember where
  "setPerViewStatsMember = set_stat_member per_view_stats_inc"

definition setPerSubscriptionStatsMember where
  "setPerSubscriptionStatsMember = set_stat_member per_subscription_stats_inc"

section \<open>Checking the requested intervals\<close>

text \<open>
  \<open>VerifyIntervals\<close>: the first interval above the maximum is reported with a message that
  \<open>boost::format\<close> builds from the two durations in seconds, printed by LogDevice's
  \<open>chrono_string\<close> (a parameter). \<open>duration_cast<seconds>\<close> truncates toward zero.
\<close>

definition to_seconds :: "int \<Rightarrow> int" where
  "to_seconds ms = sgn ms * (\<bar>ms\<bar> div 1000)"

fun check_intervals :: "(int \<Rightarrow> string) \<Rightarrow> int \<Rightarrow> int list \<Rightarrow> bool \<times> string option" where
  "check_intervals chrono_string mx [] = (True, None)"
| "check_intervals chrono_string mx (i # is) =
     (if i > mx
      then (False, Some (''requested interval '' @ chrono_string (to_seconds i) @
              '' is larger than the max '' @ chrono_string (to_seconds mx)))
      else check_intervals chrono_string mx is)"

definition verify_intervals ::
    "(StatsParams \<Rightarrow> string \<Rightarrow> int result) \<Rightarrow> (int \<Rightarrow> string) \<Rightarrow> StatsParams \<Rightarrow> string \<Rightarrow> int list \<Rightarrow>
     (bool \<times> string option) result" where
  "verify_intervals getMaxInterval chrono_string p name ms_intervals =
     (case getMaxInterval p name of
        Inl e \<Rightarrow> Inl e
      | Inr mx \<Rightarrow> Inr (check_intervals chrono_string mx ms_intervals))"

definition per_stream_verify_intervals where
  "per_stream_verify_intervals debug = verify_intervals (maxStreamStatsInterval debug)"

definition per_subscription_verify_intervals where
  "per_subscription_verify_intervals debug =
     verify_intervals (maxSubscribptionStatsInterval debug)"

definition per_handle_verify_intervals where
  "per_handle_verify_intervals debug = verify_intervals (maxHandleStatsInterval debug)"

section \<open>Properties\<close>

text \<open>
  What a time series table promises: query names identify a series, and every series can be
  queried by its own name (the comment on the tables asks for that).
\<close>

locale ts_table =
  fixes tab :: "ts_entry list"
  assumes strings_disjoint:
      "\<And>i j. i < length tab \<Longrightarrow> j < length tab \<Longrightarrow> i \<noteq> j \<Longrightarrow>
        set (ts_strings (tab ! i)) \<inter> set (ts_strings (tab ! j)) = {}"
    and own_name: "\<And>e. e \<in> set tab \<Longrightarrow> ts_name e \<in> set (ts_strings e)"

lemma set_ts_member_append:
  "set_ts_member (xs @ ys) s m = set_ts_member ys s (set_ts_member xs s m)"
  by (induction xs arbitrary: m) auto

lemma set_ts_member_none:
  "\<forall>e \<in> set es. s \<notin> set (ts_strings e) \<Longrightarrow> set_ts_member es s m = m"
  by (induction es arbitrary: m) auto

lemma max_interval_append:
  "\<forall>e \<in> set xs. s \<notin> set (ts_strings e) \<Longrightarrow>
     max_interval debug (xs @ ys) p s = max_interval debug ys p s"
  by (induction xs) auto

context ts_table
begin

text \<open>An entry that knows a query name splits the table into entries that do not.\<close>

lemma split_at:
  assumes "e \<in> set tab" "s \<in> set (ts_strings e)"
  obtains xs ys where "tab = xs @ e # ys" "\<forall>x \<in> set xs \<union> set ys. s \<notin> set (ts_strings x)"
proof -
  from assms(1) obtain i where i: "i < length tab" "tab ! i = e"
    by (auto simp: in_set_conv_nth)
  have out: "s \<notin> set (ts_strings (tab ! j))" if "j < length tab" "j \<noteq> i" for j
    using strings_disjoint [of i j] i that assms(2) by auto
  have "s \<notin> set (ts_strings x)" if x: "x \<in> set (take i tab)" for x
  proof -
    obtain j where "j < length (take i tab)" "take i tab ! j = x"
      using x by (auto simp: in_set_conv_nth)
    then show ?thesis using out [of j] by auto
  qed
  moreover have "s \<notin> set (ts_strings x)" if x: "x \<in> set (drop (Suc i) tab)" for x
  proof -
    obtain j where "j < length (drop (Suc i) tab)" "drop (Suc i) tab ! j = x"
      using x by (auto simp: in_set_conv_nth)
    then show ?thesis using out [of "Suc i + j"] by auto
  qed
  moreover have "tab = take i tab @ e # drop (Suc i) tab"
    using i id_take_nth_drop by blast
  ultimately show ?thesis using that by blast
qed

text \<open>
  The two independent scans of the table, the last match for the member pointer and the first
  match for the largest interval, resolve a query name to the same series.
\<close>

lemma resolve_known:
  assumes "e \<in> set tab" "s \<in> set (ts_strings e)"
  shows "set_ts_member tab s None = Some (ts_name e) \<and>
    max_interval debug tab p s = Inr (last (time_intervals p (ts_name e)))"
proof -
  obtain xs ys where "tab = xs @ e # ys" "\<forall>x \<in> set xs \<union> set ys. s \<notin> set (ts_strings x)"
    using assms by (rule split_at)
  then show ?thesis
    using assms(2)
    by (simp add: set_ts_member_append set_ts_member_none max_interval_append)
qed

lemma resolve_unknown:
  assumes "\<forall>e \<in> set tab. s \<notin> set (ts_strings e)"
  shows "set_ts_member tab s None = None \<and>
    max_interval debug tab p s = (if debug then Inl LdCheck else Inr 0)"
  using max_interval_append [OF assms, of debug "[]" p] set_ts_member_none [OF assms]
  by simp

end

lemma less_numeral_cases:
  "i < Suc (Suc (Suc (Suc (Suc 0)))) \<longleftrightarrow> i = 0 \<or> i = 1 \<or> i = 2 \<or> i = 3 \<or> i = (4::nat)"
  "i < Suc (Suc (Suc (Suc 0))) \<longleftrightarrow> i = 0 \<or> i = 1 \<or> i = 2 \<or> i = (3::nat)"
  by auto

interpretation stream_ts: ts_table per_stream_time_series_inc
  by unfold_locales
    (auto simp: per_stream_time_series_inc_def less_numeral_cases)

interpretation subscription_ts: ts_table per_subscription_time_series_inc
  by unfold_locales
    (auto simp: per_subscription_time_series_inc_def less_numeral_cases)

interpretation handle_ts: ts_table per_handle_time_series_inc
  by unfold_locales (auto simp: per_handle_time_series_inc_def)

lemma set_stat_member_eq:
  "set_stat_member inc s m = (if s \<in> fst ` set inc then Some s else m)"
  by (induction inc s m rule: set_stat_member.induct) auto

lemma check_intervals_ok: "fst (check_intervals cs mx is) \<longleftrightarrow> (\<forall>i \<in> set is. i \<le> mx)"
  by (induction cs mx "is" rule: check_intervals.induct) auto

lemma check_intervals_err:
  "snd (check_intervals cs mx is) = None \<longleftrightarrow> fst (check_intervals cs mx is)"
  by (induction cs mx "is" rule: check_intervals.induct) auto

end
