(* ===== verification/Stats_Core.thy ===== *)
theory Stats_Core
  imports Stats_Params
begin

text \<open>
  \<open>struct Stats\<close> of \<open>common/stats/cbits/stats/Stats.{h,cpp}\<close>: seven maps from object names to
  their statistics and the optional server histograms, with construction, copying, aggregation,
  reset and the JSON view. The main lemmas say what a reader of the counters observes after an
  aggregation.
\<close>

section \<open>The struct\<close>

type_synonym ('c, 'ts) perx_map = "(string, ('c, 'ts) PerXStats) umap"

text \<open>
  The maps are \<open>folly::Synchronized<std::unordered_map<std::string, std::shared_ptr<PerXStats>>>\<close>.
  \<open>params\<close> points to the parameters of the owning holder, which never change after construction.
\<close>

record ('c, 'ts, 'h) Stats =
  per_stream_stats :: "('c, 'ts) perx_map"
  per_connector_stats :: "('c, 'ts) perx_map"
  per_cache_store_stats :: "('c, 'ts) perx_map"
  per_query_stats :: "('c, 'ts) perx_map"
  per_view_stats :: "('c, 'ts) perx_map"
  per_subscription_stats :: "('c, 'ts) perx_map"
  per_handle_stats :: "('c, 'ts) perx_map"
  server_histograms :: "'h option"
  params :: StatsParams

text \<open>
  The code passes pointers to members of \<open>Stats\<close> around (\<open>&Stats::per_stream_stats\<close>). A member
  pointer is a value of \<open>stats_member\<close>; \<open>get_member\<close> and \<open>upd_member\<close> are \<open>s.*ptr\<close> as a value
  and as an assignable place.
\<close>

datatype stats_member =
    M_stream | M_connector | M_cache_store | M_query | M_view | M_subscription | M_handle

fun get_member :: "stats_member \<Rightarrow> ('c, 'ts, 'h) Stats \<Rightarrow> ('c, 'ts) perx_map" where
  "get_member M_stream s = per_stream_stats s"
| "get_member M_connector s = per_connector_stats s"
| "get_member M_cache_store s = per_cache_store_stats s"
| "get_member M_query s = per_query_stats s"
| "get_member M_view s = per_view_stats s"
| "get_member M_subscription s = per_subscription_stats s"
| "get_member M_handle s = per_handle_stats s"

fun upd_member :: "stats_member \<Rightarrow> (('c, 'ts) perx_map \<Rightarrow> ('c, 'ts) perx_map) \<Rightarrow>
    ('c, 'ts, 'h) Stats \<Rightarrow> ('c, 'ts, 'h) Stats" where
  "upd_member M_stream f s = s\<lparr>per_stream_stats := f (per_stream_stats s)\<rparr>"
| "upd_member M_connector f s = s\<lparr>per_connector_stats := f (per_connector_stats s)\<rparr>"
| "upd_member M_cache_store f s = s\<lparr>per_cache_store_stats := f (per_cache_store_stats s)\<rparr>"
| "upd_member M_query f s = s\<lparr>per_query_stats := f (per_query_stats s)\<rparr>"
| "upd_member M_view f s = s\<lparr>per_view_stats := f (per_view_stats s)\<rparr>"
| "upd_member M_subscription f s = s\<lparr>per_subscription_stats := f (per_subscription_stats s)\<rparr>"
| "upd_member M_handle f s = s\<lparr>per_handle_stats := f (per_handle_stats s)\<rparr>"

text \<open>The counter table of the struct a member maps to; \<open>PerHandleStats\<close> has no counters.\<close>

fun member_table :: "stats_member \<Rightarrow> stat_table" where
  "member_table M_stream = per_stream_stats_inc"
| "member_table M_connector = per_connector_stats_inc"
| "member_table M_cache_store = per_cache_store_stats_inc"
| "member_table M_query = per_query_stats_inc"
| "member_table M_view = per_view_stats_inc"
| "member_table M_subscription = per_subscription_stats_inc"
| "member_table M_handle = []"

section \<open>Operations\<close>

definition new_Stats :: "('h, 'd) histogram_api \<Rightarrow> StatsParams \<Rightarrow> ('c, 'ts, 'h) Stats" where
  "new_Stats HB p =
     \<lparr>per_stream_stats = [], per_connector_stats = [], per_cache_store_stats = [],
      per_query_stats = [], per_view_stats = [], per_subscription_stats = [],
      per_handle_stats = [],
      server_histograms = (if is_server p then Some (hb_new HB ServerHistograms_getMap) else None),
      params = p\<rparr>"

text \<open>\<open>synchronizedCopy\<close>: the entries of a map as a vector.\<close>

definition synchronizedCopy ::
    "stats_member \<Rightarrow> ('c, 'ts, 'h) Stats \<Rightarrow> (string \<times> ('c, 'ts) PerXStats) list" where
  "synchronizedCopy m s = get_member m s"

text \<open>
  The macro \<open>_PER_STATS\<close> of \<open>aggregateCompoundStats\<close>: for every entry of the other map, find or
  create the entry of this map and aggregate into it.
\<close>

definition per_stats_aggregate ::
    "'c counter_api \<Rightarrow>
     (('c, 'ts) PerXStats \<Rightarrow> ('c, 'ts) PerXStats \<Rightarrow> StatsAgg option \<Rightarrow> ('c, 'ts) PerXStats) \<Rightarrow>
     StatsAgg option \<Rightarrow> (string \<times> ('c, 'ts) PerXStats) list \<Rightarrow> ('c, 'ts) perx_map \<Rightarrow>
     ('c, 'ts) perx_map" where
  "per_stats_aggregate SC aggregate agg_override other_stats this_stats =
     fold (\<lambda>(key, s) m.
         umap_put key
           (aggregate (case map_of m key of None \<Rightarrow> new_PerXStats SC | Some p \<Rightarrow> p) s agg_override)
           m)
       other_stats this_stats"

definition aggregateCompoundStats ::
    "'c counter_api \<Rightarrow> ('h, 'd) histogram_api \<Rightarrow> ('c, 'ts, 'h) Stats \<Rightarrow> ('c, 'ts, 'h) Stats \<Rightarrow>
     StatsAgg option \<Rightarrow> bool \<Rightarrow> ('c, 'ts, 'h) Stats result" where
  "aggregateCompoundStats SC HB this other agg_override destroyed_threads =
     (let this = upd_member M_stream (per_stats_aggregate SC (PerStreamStats_aggregate SC)
            agg_override (synchronizedCopy M_stream other)) this;
          this = upd_member M_connector (per_stats_aggregate SC (PerConnectorStats_aggregate SC)
            agg_override (synchronizedCopy M_connector other)) this;
          this = upd_member M_cache_store (per_stats_aggregate SC (PerCacheStoreStats_aggregate SC)
            agg_override (synchronizedCopy M_cache_store other)) this;
          this = upd_member M_query (per_stats_aggregate SC (PerQueryStats_aggregate SC)
            agg_override (synchronizedCopy M_query other)) this;
          this = upd_member M_view (per_stats_aggregate SC (PerViewStats_aggregate SC)
            agg_override (synchronizedCopy M_view other)) this;
          this = upd_member M_subscription (per_stats_aggregate SC
            (PerSubscriptionStats_aggregate SC)
            agg_override (synchronizedCopy M_subscription other)) this
      in case server_histograms other of
           None \<Rightarrow> Inr this
         | Some inn \<Rightarrow>
             (case server_histograms this of
                None \<Rightarrow> Inl LdCheck
              | Some out \<Rightarrow>
                  Inr (this\<lparr>server_histograms := Some (aggregateHistogram HB agg_override out inn)\<rparr>)))"

definition Stats_aggregate where
  "Stats_aggregate SC HB this other agg_override =
     aggregateCompoundStats SC HB this other agg_override False"

definition aggregateForDestroyedThread where
  "aggregateForDestroyedThread SC HB this other =
     aggregateCompoundStats SC HB this other None True"

text \<open>Copy constructor and copy assignment.\<close>

definition copy_Stats ::
    "'c counter_api \<Rightarrow> ('h, 'd) histogram_api \<Rightarrow> ('c, 'ts, 'h) Stats \<Rightarrow> ('c, 'ts, 'h) Stats result"
    where
  "copy_Stats SC HB other =
     Stats_aggregate SC HB (new_Stats HB (params other)) other (Some AGG_ASSIGN)"

definition assign_Stats ::
    "'c counter_api \<Rightarrow> ('h, 'd) histogram_api \<Rightarrow> ('c, 'ts, 'h) Stats \<Rightarrow> ('c, 'ts, 'h) Stats \<Rightarrow>
     ('c, 'ts, 'h) Stats result" where
  "assign_Stats SC HB this other = Stats_aggregate SC HB this other (Some AGG_ASSIGN)"

definition deriveStats :: "('c, 'ts, 'h) Stats \<Rightarrow> ('c, 'ts, 'h) Stats" where
  "deriveStats s = s"

definition reset_Stats ::
    "('h, 'd) histogram_api \<Rightarrow> ('c, 'ts, 'h) Stats \<Rightarrow> ('c, 'ts, 'h) Stats" where
  "reset_Stats HB s =
     (let s = s\<lparr>per_stream_stats := [], per_connector_stats := [], per_cache_store_stats := [],
                per_query_stats := [], per_view_stats := [], per_subscription_stats := [],
                per_handle_stats := []\<rparr>
      in if is_server (params s)
         then (case server_histograms s of
                 None \<Rightarrow> s
               | Some h \<Rightarrow> s\<lparr>server_histograms := Some (hb_clear HB h)\<rparr>)
         else s)"

text \<open>The macro \<open>_PER_TO_JSON\<close> and \<open>Stats::toJsonObj\<close>; handle statistics are left out.\<close>

definition per_to_json ::
    "(('c, 'ts) PerXStats \<Rightarrow> dyn) \<Rightarrow> (string \<times> ('c, 'ts) PerXStats) list \<Rightarrow> dyn" where
  "per_to_json toJsonObj entries =
     DynObject (fold (\<lambda>(key, s) m. umap_put key (toJsonObj s) m) entries [])"

definition Stats_toJsonObj :: "'c counter_api \<Rightarrow> ('c, 'ts, 'h) Stats \<Rightarrow> dyn" where
  "Stats_toJsonObj SC s = DynObject
     (fold (\<lambda>(name, obj) m. umap_put name obj m)
       [(''per_stream_stats'',
           per_to_json (PerStreamStats_toJsonObj SC) (synchronizedCopy M_stream s)),
        (''per_connector_stats'',
           per_to_json (PerConnectorStats_toJsonObj SC) (synchronizedCopy M_connector s)),
        (''per_cache_store_stats'',
           per_to_json (PerCacheStoreStats_toJsonObj SC) (synchronizedCopy M_cache_store s)),
        (''per_query_stats'',
           per_to_json (PerQueryStats_toJsonObj SC) (synchronizedCopy M_query s)),
        (''per_view_stats'',
           per_to_json (PerViewStats_toJsonObj SC) (synchronizedCopy M_view s)),
        (''per_subscription_stats'',
           per_to_json (PerSubscriptionStats_toJsonObj SC) (synchronizedCopy M_subscription s))]
       [])"

definition Stats_toJson where
  "Stats_toJson folly_toJson SC s = folly_toJson (Stats_toJsonObj SC s)"

section \<open>What a reader observes\<close>

text \<open>The value of counter \<open>n\<close> of object \<open>k\<close>, zero when the object is not in the map.\<close>

definition map_value :: "'c counter_api \<Rightarrow> ('c, 'ts) perx_map \<Rightarrow> string \<Rightarrow> string \<Rightarrow> i64" where
  "map_value SC m k n =
     (case map_of m k of None \<Rightarrow> 0 | Some p \<Rightarrow> ctr_load SC (counters p n))"

definition stat_value ::
    "'c counter_api \<Rightarrow> stats_member \<Rightarrow> ('c, 'ts, 'h) Stats \<Rightarrow> string \<Rightarrow> string \<Rightarrow> i64" where
  "stat_value SC m s k n = map_value SC (get_member m s) k n"

text \<open>Well-formedness: the maps have distinct keys and histograms exist exactly on a server.\<close>

definition stats_ok :: "('c, 'ts, 'h) Stats \<Rightarrow> bool" where
  "stats_ok s \<longleftrightarrow> (\<forall>m. umap_wf (get_member m s)) \<and>
     (server_histograms s \<noteq> None \<longleftrightarrow> is_server (params s))"

lemma stats_okD: "stats_ok s \<Longrightarrow> umap_wf (get_member m s)"
  by (simp add: stats_ok_def)

lemma get_upd_member [simp]:
  "get_member m (upd_member m' f s) = (if m = m' then f (get_member m s) else get_member m s)"
  by (cases m; cases m') simp_all

lemma upd_member_other_fields [simp]:
  "server_histograms (upd_member m f s) = server_histograms s"
  "params (upd_member m f s) = params s"
  by (cases m; simp)+

lemma get_member_hist [simp]: "get_member m (s\<lparr>server_histograms := h\<rparr>) = get_member m s"
  by (cases m) simp_all

lemma get_member_new [simp]: "get_member m (new_Stats HB p) = []"
  by (cases m) (simp_all add: new_Stats_def)

lemma new_Stats_fields [simp]:
  "params (new_Stats HB p) = p"
  "server_histograms (new_Stats HB p) =
     (if is_server p then Some (hb_new HB ServerHistograms_getMap) else None)"
  by (simp_all add: new_Stats_def)

lemma new_Stats_ok [simp, intro]: "stats_ok (new_Stats HB p)"
  by (simp add: stats_ok_def)

lemma upd_member_ok:
  assumes "stats_ok s" "umap_wf (f (get_member m s))"
  shows "stats_ok (upd_member m f s)"
  using assms by (simp add: stats_ok_def)

lemma reset_Stats_member [simp]: "get_member m (reset_Stats HB s) = []"
  by (cases m) (simp_all add: reset_Stats_def Let_def split: option.splits)

lemma reset_Stats_fields [simp]:
  "params (reset_Stats HB s) = params s"
  "server_histograms (reset_Stats HB s) =
     (if is_server (params s) then map_option (hb_clear HB) (server_histograms s)
      else server_histograms s)"
  by (auto simp: reset_Stats_def Let_def split: option.splits)

lemma reset_Stats_ok: "stats_ok s \<Longrightarrow> stats_ok (reset_Stats HB s)"
  by (auto simp: stats_ok_def)

section \<open>Aggregating one map\<close>

lemma per_stats_aggregate_lookup:
  assumes "umap_wf other"
  shows "map_of (per_stats_aggregate SC agg ov other this) k =
    (case map_of other k of
       None \<Rightarrow> map_of this k
     | Some s \<Rightarrow> Some (agg (case map_of this k of None \<Rightarrow> new_PerXStats SC | Some p \<Rightarrow> p) s ov))"
  using assms
proof (induction other arbitrary: this)
  case Nil
  then show ?case by (simp add: per_stats_aggregate_def)
next
  case (Cons e other)
  obtain k' s where e: "e = (k', s)" by (cases e)
  have "map_of other k' = None"
    using Cons.prems by (auto simp: e map_of_eq_None_iff)
  moreover have "per_stats_aggregate SC agg ov (e # other) this =
      per_stats_aggregate SC agg ov other (umap_put k'
        (agg (case map_of this k' of None \<Rightarrow> new_PerXStats SC | Some p \<Rightarrow> p) s ov) this)"
    by (simp add: per_stats_aggregate_def e)
  ultimately show ?case
    using Cons by (auto simp: e split: option.splits)
qed

lemma per_stats_aggregate_wf [simp]:
  "umap_wf this \<Longrightarrow> umap_wf (per_stats_aggregate SC agg ov other this)"
  unfolding per_stats_aggregate_def
  by (induction other arbitrary: this) (auto split: prod.splits)

text \<open>No object is lost or invented.\<close>

lemma per_stats_aggregate_keys:
  "umap_wf other \<Longrightarrow>
     dom (map_of (per_stats_aggregate SC agg ov other this)) = dom (map_of this) \<union> dom (map_of other)"
  by (auto simp: per_stats_aggregate_lookup dom_def split: option.splits)

lemma new_PerXStats_fields [simp]:
  "counters (new_PerXStats SC) n = ctr_new SC"
  "time_series (new_PerXStats SC) n = None"
  by (simp_all add: new_PerXStats_def)

context stats_counter
begin

lemma map_value_aggregate_sum:
  assumes "umap_wf other" "counter_table inc" "n \<in> fst ` set inc"
  shows "map_value SC (per_stats_aggregate SC (perx_aggregate SC inc) None other this) k n =
    map_value SC this k n + map_value SC other k n"
  using assms(3)
  by (auto simp: map_value_def per_stats_aggregate_lookup [OF assms(1)]
        aggregate_sum_load [OF assms(2)] load_new split: option.splits)

lemma map_value_aggregate_assign:
  assumes "umap_wf other" "counter_table inc" "n \<in> fst ` set inc"
  shows "map_value SC (per_stats_aggregate SC (perx_aggregate SC inc) (Some AGG_ASSIGN) other this) k n =
    (if k \<in> dom (map_of other) then map_value SC other k n else map_value SC this k n)"
  using assms(3)
  by (auto simp: map_value_def per_stats_aggregate_lookup [OF assms(1)]
        aggregate_assign_load [OF assms(2)] load_new split: option.splits)

end

section \<open>Aggregating whole objects\<close>

text \<open>Handle statistics take no part in aggregation; every other member does, by its table.\<close>

definition aggregated :: "'c counter_api \<Rightarrow> ('h, 'd) histogram_api \<Rightarrow> StatsAgg option \<Rightarrow>
    ('c, 'ts, 'h) Stats \<Rightarrow> ('c, 'ts, 'h) Stats \<Rightarrow> ('c, 'ts, 'h) Stats" where
  "aggregated SC HB ov other this =
     (case aggregateCompoundStats SC HB this other ov False of Inr s \<Rightarrow> s | Inl _ \<Rightarrow> this)"

lemma member_table_ok [simp, intro]: "counter_table (member_table m)"
proof (cases m)
  case M_handle
  then show ?thesis by (simp add: counter_table_def)
qed (simp_all add: stream_tab.counter_table_axioms connector_tab.counter_table_axioms
      cache_store_tab.counter_table_axioms query_tab.counter_table_axioms
      view_tab.counter_table_axioms subscription_tab.counter_table_axioms)

lemma aggregateCompoundStats_success:
  assumes "stats_ok this" "stats_ok other" "params this = params other"
  shows "aggregateCompoundStats SC HB this other ov d = Inr (aggregated SC HB ov other this)"
  using assms
  by (auto simp: aggregated_def aggregateCompoundStats_def Let_def stats_ok_def
      split: option.splits)

lemma aggregated_member:
  assumes "stats_ok this" "stats_ok other" "params this = params other"
  shows "get_member m (aggregated SC HB ov other this) =
    (if m = M_handle then get_member m this
     else per_stats_aggregate SC (perx_aggregate SC (member_table m)) ov
            (get_member m other) (get_member m this))"
  using assms
  by (cases m)
    (auto simp: aggregated_def aggregateCompoundStats_def Let_def stats_ok_def
      synchronizedCopy_def PerStreamStats_aggregate_def PerConnectorStats_aggregate_def
      PerCacheStoreStats_aggregate_def PerQueryStats_aggregate_def PerViewStats_aggregate_def
      PerSubscriptionStats_aggregate_def
      split: option.splits)

lemma aggregated_params [simp]: "params (aggregated SC HB ov other this) = params this"
  by (auto simp: aggregated_def aggregateCompoundStats_def Let_def
      split: option.splits sum.splits)

lemma aggregated_ok:
  assumes "stats_ok this" "stats_ok other" "params this = params other"
  shows "stats_ok (aggregated SC HB ov other this)"
proof -
  have "umap_wf (get_member m (aggregated SC HB ov other this))" for m
    using stats_okD [OF assms(1), of m]
    by (cases "m = M_handle") (simp_all add: aggregated_member [OF assms])
  moreover have "server_histograms (aggregated SC HB ov other this) \<noteq> None \<longleftrightarrow>
      server_histograms this \<noteq> None"
    by (auto simp: aggregated_def aggregateCompoundStats_def Let_def
        split: option.splits sum.splits)
  ultimately show ?thesis
    using assms(1) by (simp add: stats_ok_def)
qed

end
