(* ===== verification/Stats_Holder.thy ===== *)
theory Stats_Holder
  imports Stats_Core
begin

text \<open>
  \<open>StatsHolder\<close> of \<open>common/stats/cbits/stats/Stats.{h,cpp}\<close>: one \<open>Stats\<close> object per running thread
  and one for all threads that have exited. The holder is explicit state. \<open>folly::ThreadLocalPtr\<close>
  in strict mode runs thread exit, iteration over all threads and the destructor under one mutex,
  so each of them is one atomic step here; an update of a counter by its own thread is one step
  because the map it goes through is locked for its duration.
\<close>

section \<open>The holder\<close>

type_synonym tid = nat

text \<open>\<open>StatsWrapper\<close>; \<open>wr_owner\<close> says whether the pointer \<open>owner\<close> is non-null.\<close>

record ('c, 'ts, 'h) StatsWrapper =
  wr_stats :: "('c, 'ts, 'h) Stats"
  wr_owner :: bool

record ('c, 'ts, 'h) StatsHolder =
  params_' :: StatsParams
  dead_stats_' :: "('c, 'ts, 'h) Stats"
  thread_stats_' :: "(tid, ('c, 'ts, 'h) StatsWrapper) umap"

definition new_StatsHolder ::
    "('h, 'd) histogram_api \<Rightarrow> StatsParams \<Rightarrow> ('c, 'ts, 'h) StatsHolder" where
  "new_StatsHolder HB p =
     \<lparr>params_' = p, dead_stats_' = new_Stats HB p, thread_stats_' = []\<rparr>"

definition new_StatsWrapper ::
    "('h, 'd) histogram_api \<Rightarrow> ('c, 'ts, 'h) StatsHolder \<Rightarrow> ('c, 'ts, 'h) StatsWrapper" where
  "new_StatsWrapper HB h = \<lparr>wr_stats = new_Stats HB (params_' h), wr_owner = True\<rparr>"

text \<open>
  \<open>~StatsWrapper\<close>, run when a thread exits: \<open>owner\<close> is the holder if the pointer is set. The
  thread leaves the list and its destructor runs under the same lock.
\<close>

definition delete_StatsWrapper ::
    "'c counter_api \<Rightarrow> ('h, 'd) histogram_api \<Rightarrow> ('c, 'ts, 'h) StatsWrapper \<Rightarrow>
     ('c, 'ts, 'h) StatsHolder \<Rightarrow> ('c, 'ts, 'h) StatsHolder result" where
  "delete_StatsWrapper SC HB w h =
     (if wr_owner w
      then (case aggregateForDestroyedThread SC HB (dead_stats_' h) (wr_stats w) of
              Inl e \<Rightarrow> Inl e
            | Inr d \<Rightarrow> Inr (h\<lparr>dead_stats_' := d\<rparr>))
      else Inr h)"

definition thread_exit ::
    "'c counter_api \<Rightarrow> ('h, 'd) histogram_api \<Rightarrow> tid \<Rightarrow> ('c, 'ts, 'h) StatsHolder \<Rightarrow>
     ('c, 'ts, 'h) StatsHolder result" where
  "thread_exit SC HB t h =
     (case map_of (thread_stats_' h) t of
        None \<Rightarrow> Inr h
      | Some w \<Rightarrow>
          delete_StatsWrapper SC HB w (h\<lparr>thread_stats_' := umap_erase t (thread_stats_' h)\<rparr>))"

text \<open>
  \<open>get()\<close> returns a reference to the calling thread's \<open>Stats\<close>, creating it first if need be:
  the holder afterwards and the object the reference denotes. \<open>put_local\<close> writes through the
  reference.
\<close>

definition holder_get ::
    "('h, 'd) histogram_api \<Rightarrow> tid \<Rightarrow> ('c, 'ts, 'h) StatsHolder \<Rightarrow>
     ('c, 'ts, 'h) StatsHolder \<times> ('c, 'ts, 'h) Stats" where
  "holder_get HB t h =
     (case map_of (thread_stats_' h) t of
        Some w \<Rightarrow> (h, wr_stats w)
      | None \<Rightarrow>
          (let w = new_StatsWrapper HB h
           in (h\<lparr>thread_stats_' := umap_put t w (thread_stats_' h)\<rparr>, wr_stats w)))"

definition put_local ::
    "tid \<Rightarrow> ('c, 'ts, 'h) Stats \<Rightarrow> ('c, 'ts, 'h) StatsHolder \<Rightarrow> ('c, 'ts, 'h) StatsHolder" where
  "put_local t s h =
     (case map_of (thread_stats_' h) t of
        None \<Rightarrow> h
      | Some w \<Rightarrow> h\<lparr>thread_stats_' := umap_put t (w\<lparr>wr_stats := s\<rparr>) (thread_stats_' h)\<rparr>)"

text \<open>
  \<open>runForEach\<close>: the function runs on \<open>dead_stats_\<close>, then on every thread's object. It may change
  the object and the variables it captures, here the accumulator.
\<close>

fun run_threads ::
    "(('c, 'ts, 'h) Stats \<Rightarrow> 'a \<Rightarrow> ('c, 'ts, 'h) Stats \<times> 'a) \<Rightarrow>
     (tid, ('c, 'ts, 'h) StatsWrapper) umap \<Rightarrow> 'a \<Rightarrow>
     (tid, ('c, 'ts, 'h) StatsWrapper) umap \<times> 'a" where
  "run_threads func [] a = ([], a)"
| "run_threads func ((t, w) # ws) a =
     (let (s', a') = func (wr_stats w) a;
          (ws', a'') = run_threads func ws a'
      in ((t, w\<lparr>wr_stats := s'\<rparr>) # ws', a''))"

definition runForEach ::
    "(('c, 'ts, 'h) Stats \<Rightarrow> 'a \<Rightarrow> ('c, 'ts, 'h) Stats \<times> 'a) \<Rightarrow>
     ('c, 'ts, 'h) StatsHolder \<Rightarrow> 'a \<Rightarrow> ('c, 'ts, 'h) StatsHolder \<times> 'a" where
  "runForEach func h a =
     (let (d', a') = func (dead_stats_' h) a;
          (ws', a'') = run_threads func (thread_stats_' h) a'
      in (h\<lparr>dead_stats_' := d', thread_stats_' := ws'\<rparr>, a''))"

definition holder_aggregate ::
    "'c counter_api \<Rightarrow> ('h, 'd) histogram_api \<Rightarrow> ('c, 'ts, 'h) StatsHolder \<Rightarrow>
     ('c, 'ts, 'h) Stats result" where
  "holder_aggregate SC HB h =
     (case Stats_aggregate SC HB (new_Stats HB (params_' h)) (dead_stats_' h) None of
        Inl e \<Rightarrow> Inl e
      | Inr result \<Rightarrow>
          (case fold_result (\<lambda>x result. Stats_aggregate SC HB result (wr_stats (snd x)) None)
                  (thread_stats_' h) result of
             Inl e \<Rightarrow> Inl e
           | Inr result \<Rightarrow> Inr (deriveStats result)))"

text \<open>\<open>aggregate_nonew\<close> has the same body and returns the object instead of a pointer.\<close>

definition holder_aggregate_nonew ::
    "'c counter_api \<Rightarrow> ('h, 'd) histogram_api \<Rightarrow> ('c, 'ts, 'h) StatsHolder \<Rightarrow>
     ('c, 'ts, 'h) Stats result" where
  "holder_aggregate_nonew SC HB h =
     (case Stats_aggregate SC HB (new_Stats HB (params_' h)) (dead_stats_' h) None of
        Inl e \<Rightarrow> Inl e
      | Inr result \<Rightarrow>
          (case fold_result (\<lambda>x result. Stats_aggregate SC HB result (wr_stats (snd x)) None)
                  (thread_stats_' h) result of
             Inl e \<Rightarrow> Inl e
           | Inr result \<Rightarrow> Inr (deriveStats result)))"

definition holder_reset ::
    "('h, 'd) histogram_api \<Rightarrow> ('c, 'ts, 'h) StatsHolder \<Rightarrow> ('c, 'ts, 'h) StatsHolder" where
  "holder_reset HB h =
     h\<lparr>dead_stats_' := reset_Stats HB (dead_stats_' h),
       thread_stats_' :=
         map (\<lambda>(t, w). (t, w\<lparr>wr_stats := reset_Stats HB (wr_stats w)\<rparr>)) (thread_stats_' h)\<rparr>"

text \<open>\<open>print\<close>, as the list of lines it writes; the printers are parameters.\<close>

definition holder_print ::
    "(dyn \<Rightarrow> string) \<Rightarrow> (tid \<Rightarrow> string) \<Rightarrow> 'c counter_api \<Rightarrow> ('c, 'ts, 'h) StatsHolder \<Rightarrow>
     string list" where
  "holder_print folly_toJson show_tid SC h =
     (''* DeadThreads: '' @ Stats_toJson folly_toJson SC (dead_stats_' h)) #
     map (\<lambda>(t, w). ''* Thread '' @ show_tid t @ '': '' @ Stats_toJson folly_toJson SC (wr_stats w))
       (thread_stats_' h)"

text \<open>The destructor unsets \<open>owner\<close> on every thread.\<close>

definition delete_StatsHolder :: "('c, 'ts, 'h) StatsHolder \<Rightarrow> ('c, 'ts, 'h) StatsHolder" where
  "delete_StatsHolder h =
     h\<lparr>thread_stats_' := map (\<lambda>(t, w). (t, w\<lparr>wr_owner := False\<rparr>)) (thread_stats_' h)\<rparr>"

section \<open>Invariant\<close>

definition wrapper_ok :: "StatsParams \<Rightarrow> ('c, 'ts, 'h) StatsWrapper \<Rightarrow> bool" where
  "wrapper_ok p w \<longleftrightarrow> stats_ok (wr_stats w) \<and> params (wr_stats w) = p \<and> wr_owner w"

definition holder_ok :: "('c, 'ts, 'h) StatsHolder \<Rightarrow> bool" where
  "holder_ok h \<longleftrightarrow>
     stats_ok (dead_stats_' h) \<and> params (dead_stats_' h) = params_' h \<and>
     umap_wf (thread_stats_' h) \<and>
     (\<forall>e \<in> set (thread_stats_' h). wrapper_ok (params_' h) (snd e))"

lemma holder_ok_thread:
  "holder_ok h \<Longrightarrow> map_of (thread_stats_' h) t = Some w \<Longrightarrow>
     stats_ok (wr_stats w) \<and> params (wr_stats w) = params_' h \<and> wr_owner w"
  by (force simp: holder_ok_def wrapper_ok_def dest: map_of_SomeD)

lemma holder_ok_dead:
  "holder_ok h \<Longrightarrow> stats_ok (dead_stats_' h) \<and> params (dead_stats_' h) = params_' h \<and>
     umap_wf (thread_stats_' h)"
  by (simp add: holder_ok_def)

lemma new_StatsHolder_ok [stats_wf]: "holder_ok (new_StatsHolder HB p)"
  by (simp add: holder_ok_def new_StatsHolder_def)

lemma set_umap_put: "umap_wf m \<Longrightarrow> set (umap_put k v m) \<subseteq> insert (k, v) (set m)"
  by (induction m) auto

lemma set_umap_erase: "set (umap_erase k m) \<subseteq> set m"
  by (induction m) auto

lemma holder_ok_put_wrapper:
  assumes "holder_ok h" "stats_ok (wr_stats w)" "params (wr_stats w) = params_' h" "wr_owner w"
  shows "holder_ok (h\<lparr>thread_stats_' := umap_put t w (thread_stats_' h)\<rparr>)"
proof -
  have "umap_wf (thread_stats_' h)"
    using assms(1) by (simp add: holder_ok_def)
  from set_umap_put [OF this, of t w] show ?thesis
    using assms by (auto simp: holder_ok_def wrapper_ok_def)
qed

lemma holder_get_ok [stats_wf]:
  assumes "holder_ok h" "holder_get HB t h = (h', s)"
  shows "holder_ok h' \<and> stats_ok s \<and> params s = params_' h \<and> params_' h' = params_' h"
proof (cases "map_of (thread_stats_' h) t")
  case None
  with assms show ?thesis
    by (auto simp: holder_get_def Let_def new_StatsWrapper_def intro!: holder_ok_put_wrapper)
next
  case (Some w)
  with assms holder_ok_thread [OF assms(1) Some] show ?thesis
    by (auto simp: holder_get_def)
qed

lemma put_local_ok [stats_wf]:
  assumes "holder_ok h" "stats_ok s" "params s = params_' h"
  shows "holder_ok (put_local t s h)"
proof (cases "map_of (thread_stats_' h) t")
  case None
  with assms show ?thesis by (simp add: put_local_def)
next
  case (Some w)
  with assms holder_ok_thread [OF assms(1) Some] show ?thesis
    by (auto simp: put_local_def intro!: holder_ok_put_wrapper)
qed

lemma holder_reset_ok [stats_wf]: "holder_ok h \<Longrightarrow> holder_ok (holder_reset HB h)"
  by (auto simp: holder_ok_def wrapper_ok_def holder_reset_def reset_Stats_ok comp_def
      case_prod_unfold)

text \<open>With the invariant no \<open>ld_check\<close> of the aggregation fails when a thread exits.\<close>

lemma thread_exit_some:
  assumes "holder_ok h" "map_of (thread_stats_' h) t = Some w"
  shows "thread_exit SC HB t h =
    Inr (h\<lparr>thread_stats_' := umap_erase t (thread_stats_' h),
           dead_stats_' := aggregated SC HB None (wr_stats w) (dead_stats_' h)\<rparr>)"
  using assms holder_ok_thread [OF assms] holder_ok_dead [OF assms(1)]
  by (simp add: thread_exit_def delete_StatsWrapper_def aggregateForDestroyedThread_def
      aggregateCompoundStats_success)

lemma thread_exit_ok [stats_wf]:
  assumes "holder_ok h" "thread_exit SC HB t h = Inr h'"
  shows "holder_ok h'"
proof (cases "map_of (thread_stats_' h) t")
  case None
  with assms show ?thesis by (simp add: thread_exit_def)
next
  case (Some w)
  with assms holder_ok_thread [OF assms(1) Some] holder_ok_dead [OF assms(1)]
  have "stats_ok (aggregated SC HB None (wr_stats w) (dead_stats_' h))"
    by (simp add: aggregated_ok)
  with assms thread_exit_some [OF assms(1) Some, of SC HB] show ?thesis
    using set_umap_erase [of t "thread_stats_' h"]
    by (force simp: holder_ok_def)
qed

lemma thread_exit_total:
  "holder_ok h \<Longrightarrow> \<exists>h'. thread_exit SC HB t h = Inr h'"
  by (cases "map_of (thread_stats_' h) t") (auto simp: thread_exit_some, simp add: thread_exit_def)

end
