(* ===== verification/Stats_Counters_Api.thy ===== *)
theory Stats_Counters_Api
  imports Stats_Holder
begin

text \<open>
  The counter operations of \<open>Stats.h\<close> that the foreign interface \<open>hs_stats.cpp\<close> exports for each
  counter of each table: add, set, get, get-all and erase. The macros are parametric in the
  struct member and in the counter's name, and so are the definitions.
\<close>

section \<open>Updating the calling thread's counters\<close>

text \<open>
  The common part of \<open>PER_X_STAT_ADD\<close> and \<open>PER_X_STAT_SET\<close> differs only in the update of the
  counter; both macros are written out.
\<close>

definition PER_X_STAT_ADD ::
    "'c counter_api \<Rightarrow> ('h, 'd) histogram_api \<Rightarrow> tid \<Rightarrow> ('c, 'ts, 'h) StatsHolder option \<Rightarrow>
     stats_member \<Rightarrow> string \<Rightarrow> string \<Rightarrow> i64 \<Rightarrow> ('c, 'ts, 'h) StatsHolder option" where
  "PER_X_STAT_ADD SC HB t stats_struct x stat_name key val =
     (case stats_struct of
        None \<Rightarrow> None
      | Some h \<Rightarrow>
          (let (h', s) = holder_get HB t h
           in case map_of (get_member x s) key of
                Some p \<Rightarrow>
                  Some (put_local t (upd_member x (umap_put key
                    (p\<lparr>counters := (counters p)(stat_name :=
                        ctr_add SC (counters p stat_name) val)\<rparr>)) s) h')
              | None \<Rightarrow>
                  (let p = new_PerXStats SC;
                       p = p\<lparr>counters := (counters p)(stat_name :=
                              ctr_add SC (counters p stat_name) val)\<rparr>
                   in Some (put_local t (upd_member x (umap_put key p) s) h'))))"

definition PER_X_STAT_SET ::
    "'c counter_api \<Rightarrow> ('h, 'd) histogram_api \<Rightarrow> tid \<Rightarrow> ('c, 'ts, 'h) StatsHolder option \<Rightarrow>
     stats_member \<Rightarrow> string \<Rightarrow> string \<Rightarrow> i64 \<Rightarrow> ('c, 'ts, 'h) StatsHolder option" where
  "PER_X_STAT_SET SC HB t stats_struct x stat_name key val =
     (case stats_struct of
        None \<Rightarrow> None
      | Some h \<Rightarrow>
          (let (h', s) = holder_get HB t h
           in case map_of (get_member x s) key of
                Some p \<Rightarrow>
                  Some (put_local t (upd_member x (umap_put key
                    (p\<lparr>counters := (counters p)(stat_name :=
                        ctr_set SC (counters p stat_name) val)\<rparr>)) s) h')
              | None \<Rightarrow>
                  (let p = new_PerXStats SC;
                       p = p\<lparr>counters := (counters p)(stat_name :=
                              ctr_set SC (counters p stat_name) val)\<rparr>
                   in Some (put_local t (upd_member x (umap_put key p) s) h'))))"

section \<open>Reading an aggregated object\<close>

text \<open>\<open>PER_X_STAT_GET\<close>: null pointers, unknown keys and negative (overflowed) values give -1.\<close>

definition PER_X_STAT_GET ::
    "'c counter_api \<Rightarrow> ('c, 'ts, 'h) Stats option \<Rightarrow> stats_member \<Rightarrow> string \<Rightarrow> string \<Rightarrow> i64" where
  "PER_X_STAT_GET SC stats_agg x stat_name key =
     (case stats_agg of
        None \<Rightarrow> -1
      | Some s \<Rightarrow>
          (case map_of (get_member x s) key of
             None \<Rightarrow> -1
           | Some p \<Rightarrow>
               (let r = ctr_load SC (counters p stat_name)
                in if r <s 0 then -1 else r)))"

text \<open>
  \<open>cppMapToHs\<close> of \<open>common/base\<close>: the size of the map, its keys and its values, each through an
  extraction function (the identity for \<open>nullptr\<close>), in iteration order.
\<close>

definition cppMapToHs ::
    "('k, 'v) umap \<Rightarrow> ('k \<Rightarrow> 'a) \<Rightarrow> ('v \<Rightarrow> 'b) \<Rightarrow> i64 \<times> 'a list \<times> 'b list" where
  "cppMapToHs m extract_key extract_value =
     (word_of_nat (length m), map (\<lambda>(k, v). extract_key k) m, map (\<lambda>(k, v). extract_value v) m)"

text \<open>\<open>PER_X_STAT_DEFINE\<close>'s \<open>getall\<close>: nothing is written for a null pointer.\<close>

definition PER_X_STAT_getall ::
    "'c counter_api \<Rightarrow> ('c, 'ts, 'h) Stats option \<Rightarrow> stats_member \<Rightarrow> string \<Rightarrow>
     (i64 \<times> string list \<times> i64 list) option" where
  "PER_X_STAT_getall SC stats_agg x stat_name =
     (case stats_agg of
        None \<Rightarrow> None
      | Some s \<Rightarrow>
          Some (cppMapToHs (get_member x s) (\<lambda>k. k) (\<lambda>p. ctr_load SC (counters p stat_name))))"

text \<open>
  \<open>perXStatsGetall\<close>: the status and, when it is 0, what the out-parameters receive.
\<close>

definition perXStatsGetall ::
    "'c counter_api \<Rightarrow> ('h, 'd) histogram_api \<Rightarrow> ('c, 'ts, 'h) StatsHolder option \<Rightarrow>
     stats_member \<Rightarrow> string \<Rightarrow> (string \<Rightarrow> string option \<Rightarrow> string option) \<Rightarrow>
     (i32 \<times> (i64 \<times> string list \<times> i64 list) option) result" where
  "perXStatsGetall SC HB stats_holder x stat_name find_member =
     (case stats_holder of
        None \<Rightarrow> Inr (-1, None)
      | Some h \<Rightarrow>
          (case holder_aggregate_nonew SC HB h of
             Inl e \<Rightarrow> Inl e
           | Inr s \<Rightarrow>
               (case find_member stat_name None of
                  None \<Rightarrow> Inr (-1, None)
                | Some member_ptr \<Rightarrow>
                    Inr (0, Some (cppMapToHs (get_member x s) (\<lambda>k. k)
                                    (\<lambda>p. ctr_load SC (counters p member_ptr)))))))"

text \<open>\<open>perXStatsErase\<close>: the holder afterwards and the number of entries removed.\<close>

definition perXStatsErase ::
    "('c, 'ts, 'h) StatsHolder option \<Rightarrow> stats_member \<Rightarrow> string \<Rightarrow>
     ('c, 'ts, 'h) StatsHolder option \<times> i64" where
  "perXStatsErase stats_holder x key =
     (case stats_holder of
        None \<Rightarrow> (None, -1)
      | Some h \<Rightarrow>
          (let (h', r) = runForEach (\<lambda>s r.
                 (upd_member x (umap_erase key) s, r + of_nat (umap_count key (get_member x s)))) h 0
           in (Some h', r)))"

section \<open>Contributions\<close>

text \<open>
  What one thread, or the exited threads together, contribute to counter \<open>n\<close> of object \<open>k\<close>,
  and the total over the holder.
\<close>

definition dead_value where
  "dead_value SC h x k n = stat_value SC x (dead_stats_' h) k n"

definition thread_value where
  "thread_value SC h t x k n =
     (case map_of (thread_stats_' h) t of
        None \<Rightarrow> 0
      | Some w \<Rightarrow> stat_value SC x (wr_stats w) k n)"

definition total_value ::
    "'c counter_api \<Rightarrow> ('c, 'ts, 'h) StatsHolder \<Rightarrow> stats_member \<Rightarrow> string \<Rightarrow> string \<Rightarrow> i64" where
  "total_value SC h x k n =
     stat_value SC x (dead_stats_' h) k n +
     (\<Sum>e \<leftarrow> thread_stats_' h. stat_value SC x (wr_stats (snd e)) k n)"

text \<open>A counter of the tables: a member of \<open>Stats\<close> and a name its table lists.\<close>

definition is_counter :: "stats_member \<Rightarrow> string \<Rightarrow> bool" where
  "is_counter x n \<longleftrightarrow> n \<in> fst ` set (member_table x)"

lemma is_counter_not_handle: "is_counter x n \<Longrightarrow> x \<noteq> M_handle"
  by (auto simp: is_counter_def)

text \<open>The sum over threads, by thread.\<close>

lemma umap_put_sum:
  fixes f :: "'v \<Rightarrow> 'b::ab_group_add"
  assumes "umap_wf m"
  shows "(\<Sum>e \<leftarrow> umap_put t w m. f (snd e)) =
    (\<Sum>e \<leftarrow> m. f (snd e)) - (case map_of m t of None \<Rightarrow> 0 | Some w \<Rightarrow> f w) + f w"
  using assms
  by (induction m) (auto simp: algebra_simps map_of_eq_None_iff split: option.splits)

lemma umap_erase_sum:
  fixes f :: "'v \<Rightarrow> 'b::ab_group_add"
  assumes "umap_wf m"
  shows "(\<Sum>e \<leftarrow> umap_erase t m. f (snd e)) =
    (\<Sum>e \<leftarrow> m. f (snd e)) - (case map_of m t of None \<Rightarrow> 0 | Some w \<Rightarrow> f w)"
  using assms
proof (induction m)
  case Nil
  then show ?case by simp
next
  case (Cons e m)
  obtain t' w where e: "e = (t', w)" by (cases e)
  show ?case
  proof (cases "t' = t")
    case True
    with Cons.prems have "umap_erase t m = m"
      by (auto simp: e intro: delete_idem)
    with True show ?thesis by (simp add: e)
  next
    case False
    with Cons show ?thesis by (simp add: e algebra_simps)
  qed
qed

lemma stat_value_upd_put:
  "stat_value SC x (upd_member x' (umap_put key p) s) k n =
     (if x = x' \<and> k = key then ctr_load SC (counters p n) else stat_value SC x s k n)"
  by (simp add: stat_value_def map_value_def)

lemma stat_value_new [simp]: "stat_value SC x (new_Stats HB p) k n = 0"
  by (simp add: stat_value_def map_value_def)

lemma stat_value_reset [simp]: "stat_value SC x (reset_Stats HB s) k n = 0"
  by (simp add: stat_value_def map_value_def)

lemma stat_value_erase [simp]:
  "stat_value SC x (upd_member x' (umap_erase key) s) k n =
     (if x = x' \<and> k = key then 0 else stat_value SC x s k n)"
  by (simp add: stat_value_def map_value_def)

text \<open>Writing the calling thread's object through the reference \<open>get()\<close> returned.\<close>

definition with_local where
  "with_local HB t f h =
     (let (h', s) = holder_get HB t h in put_local t (f s) h')"

definition local_stats where
  "local_stats HB t h = snd (holder_get HB t h)"

lemma with_local_ok:
  assumes "holder_ok h" "\<And>s. stats_ok s \<Longrightarrow> stats_ok (f s) \<and> params (f s) = params s"
  shows "holder_ok (with_local HB t f h)"
  using holder_get_ok [OF assms(1)] assms(2)
  by (auto simp: with_local_def split: prod.splits intro!: put_local_ok)

lemma with_local_threads:
  "thread_stats_' (with_local HB t f h) =
     umap_put t \<lparr>wr_stats = f (local_stats HB t h),
        wr_owner = (case map_of (thread_stats_' h) t of None \<Rightarrow> True | Some w \<Rightarrow> wr_owner w)\<rparr>
       (thread_stats_' h)"
  by (auto simp: with_local_def local_stats_def holder_get_def put_local_def Let_def
      new_StatsWrapper_def split: option.splits
      intro!: arg_cong [where f = "\<lambda>w. umap_put t w (thread_stats_' h)"] StatsWrapper.equality)

lemma with_local_dead [simp]: "dead_stats_' (with_local HB t f h) = dead_stats_' h"
  by (auto simp: with_local_def holder_get_def put_local_def Let_def split: option.splits prod.splits)

lemma with_local_params: "params_' (with_local HB t f h) = params_' h"
  by (auto simp: with_local_def holder_get_def put_local_def Let_def split: option.splits prod.splits)

lemma local_stats_value: "stat_value SC x (local_stats HB t h) k n = thread_value SC h t x k n"
  by (simp add: local_stats_def holder_get_def thread_value_def Let_def new_StatsWrapper_def
      split: option.splits)

lemma with_local_thread_value:
  "thread_value SC (with_local HB t f h) t' x k n =
     (if t' = t then stat_value SC x (f (local_stats HB t h)) k n else thread_value SC h t' x k n)"
  by (simp add: thread_value_def with_local_threads)

lemma with_local_total:
  assumes "holder_ok h"
  shows "total_value SC (with_local HB t f h) x k n =
    total_value SC h x k n - thread_value SC h t x k n +
    stat_value SC x (f (local_stats HB t h)) k n"
  using umap_put_sum [where f = "\<lambda>w. stat_value SC x (wr_stats w) k n" and t = t
      and m = "thread_stats_' h"] holder_ok_dead [OF assms]
  by (simp add: total_value_def with_local_threads thread_value_def)

section \<open>Effect of the operations on the contributions\<close>

text \<open>What add and set do to the thread's own object.\<close>

definition upd_counter where
  "upd_counter SC x n k g s =
     upd_member x (umap_put k
       (let p = case map_of (get_member x s) k of None \<Rightarrow> new_PerXStats SC | Some p \<Rightarrow> p
        in p\<lparr>counters := (counters p)(n := g (counters p n))\<rparr>)) s"

lemma add_with_local:
  "PER_X_STAT_ADD SC HB t (Some h) x n k v =
     Some (with_local HB t (upd_counter SC x n k (\<lambda>c. ctr_add SC c v)) h)"
  by (simp add: PER_X_STAT_ADD_def with_local_def upd_counter_def Let_def
      split: option.splits prod.splits)

lemma set_with_local:
  "PER_X_STAT_SET SC HB t (Some h) x n k v =
     Some (with_local HB t (upd_counter SC x n k (\<lambda>c. ctr_set SC c v)) h)"
  by (simp add: PER_X_STAT_SET_def with_local_def upd_counter_def Let_def
      split: option.splits prod.splits)

lemma upd_counter_ok: "stats_ok s \<Longrightarrow>
    stats_ok (upd_counter SC x n k g s) \<and> params (upd_counter SC x n k g s) = params s"
  by (simp add: upd_counter_def upd_member_ok stats_okD)

lemma add_ok [stats_wf]:
  "holder_ok h \<Longrightarrow> PER_X_STAT_ADD SC HB t (Some h) x n k v = Some h' \<Longrightarrow> holder_ok h'"
  by (auto simp: add_with_local intro!: with_local_ok upd_counter_ok)

lemma set_ok [stats_wf]:
  "holder_ok h \<Longrightarrow> PER_X_STAT_SET SC HB t (Some h) x n k v = Some h' \<Longrightarrow> holder_ok h'"
  by (auto simp: set_with_local intro!: with_local_ok upd_counter_ok)

context stats_counter
begin

lemma upd_counter_add:
  "stat_value SC x' (upd_counter SC x n k (\<lambda>c. ctr_add SC c v) s) k' n' =
     stat_value SC x' s k' n' + (if (x', k', n') = (x, k, n) then v else 0)"
  by (auto simp: upd_counter_def stat_value_def map_value_def Let_def counter_laws
      split: option.splits)

lemma upd_counter_set:
  "stat_value SC x' (upd_counter SC x n k (\<lambda>c. ctr_set SC c v) s) k' n' =
     (if (x', k', n') = (x, k, n) then v else stat_value SC x' s k' n')"
  by (auto simp: upd_counter_def stat_value_def map_value_def Let_def counter_laws
      split: option.splits)

lemma add_thread_value:
  "PER_X_STAT_ADD SC HB t (Some h) x n k v = Some h' \<Longrightarrow>
     thread_value SC h' t' x' k' n' =
     thread_value SC h t' x' k' n' + (if (t', x', k', n') = (t, x, k, n) then v else 0)"
  by (auto simp: add_with_local with_local_thread_value upd_counter_add local_stats_value)

lemma set_thread_value:
  "PER_X_STAT_SET SC HB t (Some h) x n k v = Some h' \<Longrightarrow>
     thread_value SC h' t' x' k' n' =
     (if (t', x', k', n') = (t, x, k, n) then v else thread_value SC h t' x' k' n')"
  by (auto simp: set_with_local with_local_thread_value upd_counter_set local_stats_value)

lemma add_total:
  "holder_ok h \<Longrightarrow> PER_X_STAT_ADD SC HB t (Some h) x n k v = Some h' \<Longrightarrow>
     total_value SC h' x' k' n' =
     total_value SC h x' k' n' + (if (x', k', n') = (x, k, n) then v else 0)"
  by (auto simp: add_with_local with_local_total upd_counter_add local_stats_value)

lemma set_total:
  "holder_ok h \<Longrightarrow> PER_X_STAT_SET SC HB t (Some h) x n k v = Some h' \<Longrightarrow>
     total_value SC h' x' k' n' =
     (if (x', k', n') = (x, k, n) then total_value SC h x k n - thread_value SC h t x k n + v
      else total_value SC h x' k' n')"
  by (auto simp: set_with_local with_local_total upd_counter_set local_stats_value)

lemma stat_value_aggregated:
  assumes "stats_ok this" "stats_ok other" "params this = params other" "is_counter x n"
  shows "stat_value SC x (aggregated SC HB None other this) k n =
    stat_value SC x this k n + stat_value SC x other k n"
  using assms(4) map_value_aggregate_sum [OF stats_okD [OF assms(2)] member_table_ok]
  by (simp add: stat_value_def aggregated_member [OF assms(1-3)] is_counter_not_handle
      is_counter_def [symmetric])

text \<open>A thread's exit moves its contribution to the exited threads; the total stays.\<close>

lemma exit_values:
  assumes "holder_ok h" "thread_exit SC HB t h = Inr h'" "is_counter x n"
  shows "thread_value SC h' t' x k n = (if t' = t then 0 else thread_value SC h t' x k n)"
    and "dead_value SC h' x k n = dead_value SC h x k n + thread_value SC h t x k n"
    and "total_value SC h' x k n = total_value SC h x k n"
proof (atomize (full), cases "map_of (thread_stats_' h) t")
  case None
  with assms(2) show "(thread_value SC h' t' x k n =
        (if t' = t then 0 else thread_value SC h t' x k n)) \<and>
      dead_value SC h' x k n = dead_value SC h x k n + thread_value SC h t x k n \<and>
      total_value SC h' x k n = total_value SC h x k n"
    by (auto simp: thread_exit_def thread_value_def)
next
  case (Some w)
  note h' = thread_exit_some [OF assms(1) Some, of SC HB]
  have w: "stat_value SC x (aggregated SC HB None (wr_stats w) (dead_stats_' h)) k n =
      stat_value SC x (dead_stats_' h) k n + stat_value SC x (wr_stats w) k n"
    using holder_ok_thread [OF assms(1) Some] holder_ok_dead [OF assms(1)] assms(3)
    by (simp add: stat_value_aggregated)
  with h' assms(1,2) Some show "(thread_value SC h' t' x k n =
        (if t' = t then 0 else thread_value SC h t' x k n)) \<and>
      dead_value SC h' x k n = dead_value SC h x k n + thread_value SC h t x k n \<and>
      total_value SC h' x k n = total_value SC h x k n"
    by (auto simp: thread_value_def dead_value_def total_value_def holder_ok_def
        umap_erase_sum [where f = "\<lambda>w. stat_value SC x (wr_stats w) k n"])
qed

end

end
