(* ===== verification/Stats_Series.thy ===== *)
theory Stats_Series
  imports Stats_Counters_Api
begin

text \<open>
  The time series operations of \<open>Stats.h\<close>: adding a value to a series of the calling thread
  (\<open>PER_X_TIME_SERIES_ADD\<close>) and reading rates over all threads (\<open>perXTimeSeriesGet\<close>,
  \<open>perXTimeSeriesGetall\<close>), with the foreign interface of \<open>hs_stats.cpp\<close> built on them.

  \<open>folly::MultiLevelTimeSeries\<close> and the arithmetic of \<open>double\<close> are parameters. The steady clock
  is a function from the number of readings taken so far to the time read, in milliseconds.
\<close>

section \<open>Parameters\<close>

record ('ts, 'd) series_api =
  ts_new :: "nat \<Rightarrow> int list \<Rightarrow> 'ts"           \<comment> \<open>number of buckets, intervals\<close>
  ts_addValue :: "'ts \<Rightarrow> int \<Rightarrow> i64 \<Rightarrow> 'ts"     \<comment> \<open>\<open>addValue(now, val)\<close>\<close>
  ts_update :: "'ts \<Rightarrow> int \<Rightarrow> 'ts"             \<comment> \<open>\<open>update(now)\<close>\<close>
  ts_rate :: "'ts \<Rightarrow> int \<Rightarrow> int \<Rightarrow> 'd"          \<comment> \<open>\<open>rate<double>(start, end)\<close>\<close>

record 'd double_api =
  d_zero :: 'd
  d_add :: "'d \<Rightarrow> 'd \<Rightarrow> 'd"
  d_mul :: "'d \<Rightarrow> 'd \<Rightarrow> 'd"
  d_div :: "'d \<Rightarrow> 'd \<Rightarrow> 'd"
  d_of_int :: "int \<Rightarrow> 'd"

type_synonym clock = "nat \<Rightarrow> int"

section \<open>Adding a value\<close>

text \<open>\<open>MultiLevelTimeSeriesWrapper::addValue\<close> adds at the current time.\<close>

definition wrapper_addValue where
  "wrapper_addValue TS now ts n = ts_addValue TS ts now n"

definition PER_X_TIME_SERIES_ADD ::
    "'c counter_api \<Rightarrow> ('h, 'e) histogram_api \<Rightarrow> ('ts, 'd) series_api \<Rightarrow> int \<Rightarrow> tid \<Rightarrow>
     ('c, 'ts, 'h) StatsHolder option \<Rightarrow> stats_member \<Rightarrow> string \<Rightarrow> string \<Rightarrow> i64 \<Rightarrow>
     ('c, 'ts, 'h) StatsHolder option" where
  "PER_X_TIME_SERIES_ADD SC HB TS now t stats_struct x stat_name key val =
     (case stats_struct of
        None \<Rightarrow> None
      | Some h \<Rightarrow>
          (let (h', s) = holder_get HB t h;
               s = (case map_of (get_member x s) key of
                      None \<Rightarrow> upd_member x (umap_put key (new_PerXStats SC)) s
                    | Some _ \<Rightarrow> s);
               p = the (map_of (get_member x s) key);
               ts = (case time_series p stat_name of
                       None \<Rightarrow> ts_new TS (num_buckets (params_' h') stat_name)
                                 (time_intervals (params_' h') stat_name)
                     | Some ts \<Rightarrow> ts);
               p = p\<lparr>time_series := (time_series p)(stat_name :=
                      Some (wrapper_addValue TS now ts val))\<rparr>
           in Some (put_local t (upd_member x (umap_put key p) s) h')))"

section \<open>Reading rates\<close>

text \<open>
  The rates of one series over the requested intervals, in units per second: the clock counts
  milliseconds, so \<open>Duration::period\<close> is 1/1000.
\<close>

definition series_rates ::
    "('ts, 'd) series_api \<Rightarrow> 'd double_api \<Rightarrow> int \<Rightarrow> 'ts \<Rightarrow> int list \<Rightarrow> 'd list" where
  "series_rates TS D now ts ms_intervals =
     map (\<lambda>interval. d_div D (d_mul D (ts_rate TS ts (now - interval) now) (d_of_int D 1000))
                      (d_of_int D 1)) ms_intervals"

text \<open>\<open>aggregate_vals[i] += \<dots>\<close> for every interval; entries beyond the intervals stay.\<close>

definition add_rates :: "'d double_api \<Rightarrow> 'd list \<Rightarrow> 'd list \<Rightarrow> 'd list" where
  "add_rates D vals rates = map2 (d_add D) vals rates @ drop (length rates) vals"

text \<open>
  The loop of \<open>perXTimeSeriesGet\<close> over the entries of one map: it stops at the first entry that
  has the series and the key. The accumulator is (\<open>aggregate_vals\<close>, \<open>has_found\<close>, clock readings).
\<close>

fun series_get_entries ::
    "('ts, 'd) series_api \<Rightarrow> 'd double_api \<Rightarrow> clock \<Rightarrow> string \<Rightarrow> string \<Rightarrow> int list \<Rightarrow>
     ('c, 'ts) perx_map \<Rightarrow> 'd list \<times> bool \<times> nat \<Rightarrow>
     ('c, 'ts) perx_map \<times> ('d list \<times> bool \<times> nat)" where
  "series_get_entries TS D clk member_ptr key ms_intervals [] acc = ([], acc)"
| "series_get_entries TS D clk member_ptr key ms_intervals ((k, p) # es) acc =
     (case time_series p member_ptr of
        None \<Rightarrow>
          (let (es', acc') = series_get_entries TS D clk member_ptr key ms_intervals es acc
           in ((k, p) # es', acc'))
      | Some ts \<Rightarrow>
          (if k = key then
             (let (vals, found, ticks) = acc;
                  now = clk ticks;
                  ts' = ts_update TS ts now;
                  p' = p\<lparr>time_series := (time_series p)(member_ptr := Some ts')\<rparr>
              in ((k, p') # es,
                  (add_rates D vals (series_rates TS D now ts' ms_intervals), True, Suc ticks)))
           else
             (let (es', acc') = series_get_entries TS D clk member_ptr key ms_intervals es acc
              in ((k, p) # es', acc'))))"

text \<open>
  \<open>perXTimeSeriesGet\<close>: the status, the holder afterwards (updating a series flushes and drops
  stale data) and the values added to \<open>aggregate_vals\<close>.
\<close>

definition perXTimeSeriesGet ::
    "('ts, 'd) series_api \<Rightarrow> 'd double_api \<Rightarrow> clock \<Rightarrow> ('c, 'ts, 'h) StatsHolder \<Rightarrow> string \<Rightarrow>
     string \<Rightarrow> (string \<Rightarrow> string option \<Rightarrow> string option) \<Rightarrow> stats_member \<Rightarrow> int list \<Rightarrow> 'd list \<Rightarrow>
     i32 \<times> ('c, 'ts, 'h) StatsHolder \<times> 'd list" where
  "perXTimeSeriesGet TS D clk h stat_name key find_member x ms_intervals aggregate_vals =
     (case find_member stat_name None of
        None \<Rightarrow> (-1, h, aggregate_vals)
      | Some member_ptr \<Rightarrow>
          (let (h', vals, found, _) = runForEach (\<lambda>s acc.
                 let (m', acc') = series_get_entries TS D clk member_ptr key ms_intervals
                                    (synchronizedCopy x s) acc
                 in (upd_member x (\<lambda>_. m') s, acc')) h (aggregate_vals, False, 0)
           in (if found then 0 else -1, h', vals)))"

text \<open>
  The loop of \<open>perXTimeSeriesGetall\<close>: every entry with the series adds to the vector of its key,
  which \<open>output[key]\<close> creates empty and \<open>resize\<close> extends with zeros.
\<close>

definition resize :: "'d double_api \<Rightarrow> nat \<Rightarrow> 'd list \<Rightarrow> 'd list" where
  "resize D n xs = take n xs @ replicate (n - length xs) (d_zero D)"

fun series_getall_entries ::
    "('ts, 'd) series_api \<Rightarrow> 'd double_api \<Rightarrow> clock \<Rightarrow> string \<Rightarrow> int list \<Rightarrow>
     ('c, 'ts) perx_map \<Rightarrow> (string, 'd list) umap \<times> nat \<Rightarrow>
     ('c, 'ts) perx_map \<times> ((string, 'd list) umap \<times> nat)" where
  "series_getall_entries TS D clk member_ptr ms_intervals [] acc = ([], acc)"
| "series_getall_entries TS D clk member_ptr ms_intervals ((k, p) # es) acc =
     (case time_series p member_ptr of
        None \<Rightarrow>
          (let (es', acc') = series_getall_entries TS D clk member_ptr ms_intervals es acc
           in ((k, p) # es', acc'))
      | Some ts \<Rightarrow>
          (let (output, ticks) = acc;
               now = clk ticks;
               ts' = ts_update TS ts now;
               p' = p\<lparr>time_series := (time_series p)(member_ptr := Some ts')\<rparr>;
               vec = resize D (length ms_intervals)
                       (case map_of output k of None \<Rightarrow> [] | Some v \<Rightarrow> v);
               vec = add_rates D vec (series_rates TS D now ts' ms_intervals);
               (es', acc') = series_getall_entries TS D clk member_ptr ms_intervals es
                               (umap_put k vec output, Suc ticks)
           in ((k, p') # es', acc')))"

definition perXTimeSeriesGetall ::
    "('ts, 'd) series_api \<Rightarrow> 'd double_api \<Rightarrow> clock \<Rightarrow> ('c, 'ts, 'h) StatsHolder \<Rightarrow> string \<Rightarrow>
     (string \<Rightarrow> string option \<Rightarrow> string option) \<Rightarrow> stats_member \<Rightarrow> int list \<Rightarrow>
     i32 \<times> ('c, 'ts, 'h) StatsHolder \<times> (i64 \<times> string list \<times> 'd list list) option" where
  "perXTimeSeriesGetall TS D clk h stat_name find_member x ms_intervals =
     (case find_member stat_name None of
        None \<Rightarrow> (-1, h, None)
      | Some member_ptr \<Rightarrow>
          (let (h', output, _) = runForEach (\<lambda>s acc.
                 let (m', acc') = series_getall_entries TS D clk member_ptr ms_intervals
                                    (synchronizedCopy x s) acc
                 in (upd_member x (\<lambda>_. m') s, acc')) h ([], 0)
           in (0, h', Some (cppMapToHs output (\<lambda>k. k) (\<lambda>v. v)))))"

text \<open>The foreign interface: one instance per kind of object that has time series.\<close>

definition stream_time_series_get where
  "stream_time_series_get TS D clk h stat_name stream_name =
     perXTimeSeriesGet TS D clk h stat_name stream_name setPerStreamTimeSeriesMember M_stream"

definition stream_time_series_getall_by_name where
  "stream_time_series_getall_by_name TS D clk h stat_name =
     perXTimeSeriesGetall TS D clk h stat_name setPerStreamTimeSeriesMember M_stream"

definition subscription_time_series_get where
  "subscription_time_series_get TS D clk h stat_name subs_name =
     perXTimeSeriesGet TS D clk h stat_name subs_name setPerSubscriptionTimeSeriesMember
       M_subscription"

definition subscription_time_series_getall_by_name where
  "subscription_time_series_getall_by_name TS D clk h stat_name =
     perXTimeSeriesGetall TS D clk h stat_name setPerSubscriptionTimeSeriesMember M_subscription"

definition handle_time_series_get where
  "handle_time_series_get TS D clk h stat_name key_name =
     perXTimeSeriesGet TS D clk h stat_name key_name setPerHandleTimeSeriesMember M_handle"

definition handle_time_series_getall_by_name where
  "handle_time_series_getall_by_name TS D clk h stat_name =
     perXTimeSeriesGetall TS D clk h stat_name setPerHandleTimeSeriesMember M_handle"

definition stream_time_series_add where
  "stream_time_series_add SC HB TS now t h name key val =
     PER_X_TIME_SERIES_ADD SC HB TS now t h M_stream name key val"

definition subscription_time_series_add where
  "subscription_time_series_add SC HB TS now t h name key val =
     PER_X_TIME_SERIES_ADD SC HB TS now t h M_subscription name key val"

definition handle_time_series_add where
  "handle_time_series_add SC HB TS now t h name key val =
     PER_X_TIME_SERIES_ADD SC HB TS now t h M_handle name key val"

section \<open>Adding to a series does not touch the counters\<close>

definition upd_series where
  "upd_series SC x n k g s =
     upd_member x (umap_put k
       (let p = case map_of (get_member x s) k of None \<Rightarrow> new_PerXStats SC | Some p \<Rightarrow> p
        in p\<lparr>time_series := (time_series p)(n := Some (g (time_series p n)))\<rparr>)) s"

lemma upd_member_twice:
  "upd_member x f (upd_member x g s) = upd_member x (f \<circ> g) s"
  by (cases x) simp_all

lemma umap_put_twice: "umap_put k v (umap_put k w m) = umap_put k v m"
  by (induction m) auto

lemma series_add_with_local:
  "PER_X_TIME_SERIES_ADD SC HB TS now t (Some h) x n k v =
     Some (with_local HB t (upd_series SC x n k (\<lambda>old. wrapper_addValue TS now
       (case old of None \<Rightarrow> ts_new TS (num_buckets (params_' h) n) (time_intervals (params_' h) n)
        | Some ts \<Rightarrow> ts) v)) h)"
proof -
  obtain h' s where hs: "holder_get HB t h = (h', s)" by (cases "holder_get HB t h")
  then have "params_' h' = params_' h"
    by (auto simp: holder_get_def Let_def split: option.splits)
  with hs show ?thesis
    by (cases "map_of (get_member x s) k")
      (simp_all add: PER_X_TIME_SERIES_ADD_def with_local_def upd_series_def Let_def
        upd_member_twice comp_def umap_put_twice split: option.split)
qed

lemma upd_series_ok: "stats_ok s \<Longrightarrow>
    stats_ok (upd_series SC x n k g s) \<and> params (upd_series SC x n k g s) = params s"
  by (simp add: upd_series_def upd_member_ok stats_okD)

lemma series_add_ok [stats_wf]:
  "holder_ok h \<Longrightarrow> PER_X_TIME_SERIES_ADD SC HB TS now t (Some h) x n k v = Some h' \<Longrightarrow> holder_ok h'"
  by (auto simp: series_add_with_local intro!: with_local_ok upd_series_ok)

context stats_counter
begin

lemma upd_series_value: "stat_value SC x' (upd_series SC x n k g s) k' n' = stat_value SC x' s k' n'"
  by (simp add: upd_series_def stat_value_def map_value_def Let_def counter_laws split: option.splits)

lemma series_add_thread_value:
  "PER_X_TIME_SERIES_ADD SC HB TS now t (Some h) x n k v = Some h' \<Longrightarrow>
     thread_value SC h' t' x' k' n' = thread_value SC h t' x' k' n'"
  by (auto simp: series_add_with_local with_local_thread_value upd_series_value local_stats_value)

lemma series_add_total:
  "holder_ok h \<Longrightarrow> PER_X_TIME_SERIES_ADD SC HB TS now t (Some h) x n k v = Some h' \<Longrightarrow>
     total_value SC h' x' k' n' = total_value SC h x' k' n'"
  by (auto simp: series_add_with_local with_local_total upd_series_value local_stats_value)

end

section \<open>Which series a reading sums\<close>

text \<open>The series of an object in the order of the holder's \<open>Stats\<close> objects, exited threads first.\<close>

definition all_stats :: "('c, 'ts, 'h) StatsHolder \<Rightarrow> ('c, 'ts, 'h) Stats list" where
  "all_stats h = dead_stats_' h # map (wr_stats \<circ> snd) (thread_stats_' h)"

definition series_in :: "stats_member \<Rightarrow> string \<Rightarrow> string \<Rightarrow> ('c, 'ts, 'h) Stats \<Rightarrow> 'ts option" where
  "series_in x n k s =
     (case map_of (get_member x s) k of None \<Rightarrow> None | Some p \<Rightarrow> time_series p n)"

definition series_list ::
    "('c, 'ts, 'h) StatsHolder \<Rightarrow> stats_member \<Rightarrow> string \<Rightarrow> string \<Rightarrow> 'ts list" where
  "series_list h x n k = List.map_filter (series_in x n k) (all_stats h)"

text \<open>Adding one series, read at time \<open>now\<close>.\<close>

definition rate_step where
  "rate_step TS D now ms_intervals ts vals =
     add_rates D vals (series_rates TS D now (ts_update TS ts now) ms_intervals)"

lemma run_threads_acc:
  "snd (run_threads f ws a) = fold (\<lambda>s a. snd (f s a)) (map (wr_stats \<circ> snd) ws) a"
proof (induction ws arbitrary: a)
  case Nil
  then show ?case by simp
next
  case (Cons e ws)
  then show ?case by (cases e) (simp add: case_prod_unfold Let_def)
qed

lemma runForEach_acc:
  "snd (runForEach f h a) = fold (\<lambda>s a. snd (f s a)) (all_stats h) a"
  by (simp add: runForEach_def all_stats_def case_prod_unfold Let_def run_threads_acc)

lemma series_get_entries_Cons:
  "snd (series_get_entries TS D clk n k is ((k', p) # es) acc) =
     (case time_series p n of
        Some ts \<Rightarrow>
          if k' = k
          then (case acc of (vals, found, ticks) \<Rightarrow>
                  (rate_step TS D (clk ticks) is ts vals, True, Suc ticks))
          else snd (series_get_entries TS D clk n k is es acc)
      | None \<Rightarrow> snd (series_get_entries TS D clk n k is es acc))"
  by (simp add: case_prod_unfold Let_def rate_step_def split: option.split)

lemma series_get_entries_acc:
  assumes "umap_wf es"
  shows "snd (series_get_entries TS D clk n k is es (vals, found, ticks)) =
    (case map_of es k of
       None \<Rightarrow> (vals, found, ticks)
     | Some p \<Rightarrow>
         (case time_series p n of
            None \<Rightarrow> (vals, found, ticks)
          | Some ts \<Rightarrow> (rate_step TS D (clk ticks) is ts vals, True, Suc ticks)))"
  using assms
proof (induction es)
  case Nil
  then show ?case by simp
next
  case (Cons e es)
  obtain k' p where e: "e = (k', p)" by (cases e)
  show ?case
  proof (cases "k' = k")
    case True
    with Cons.prems have "map_of es k = None" by (simp add: e map_of_eq_None_iff)
    with True Cons.IH Cons.prems show ?thesis
      unfolding e series_get_entries_Cons by (cases "time_series p n") simp_all
  next
    case False
    with Cons.IH Cons.prems show ?thesis
      unfolding e series_get_entries_Cons by (cases "time_series p n") simp_all
  qed
qed

text \<open>
  A reading sums, for every \<open>Stats\<close> object that has the series, its rates at the time of the
  clock reading taken for it.
\<close>

definition get_step where
  "get_step TS D clk is ots acc =
     (case ots of
        None \<Rightarrow> acc
      | Some ts \<Rightarrow>
          (case acc of (vals, found, ticks) \<Rightarrow>
             (rate_step TS D (clk ticks) is ts vals, True, Suc ticks)))"

lemma get_step_fold:
  "fold (get_step TS D clk is) os (vals, found, ticks) =
     (fold (\<lambda>(i, ts). rate_step TS D (clk i) is ts) (enumerate ticks (List.map_filter id os)) vals,
      found \<or> List.map_filter id os \<noteq> [], ticks + length (List.map_filter id os))"
  by (induction os arbitrary: vals found ticks)
    (auto simp: get_step_def map_filter_simps split: option.split)

lemma series_get_entries_step:
  assumes "stats_ok s"
  shows "snd (series_get_entries TS D clk n k is (synchronizedCopy x s) acc) =
    get_step TS D clk is (series_in x n k s) acc"
  using series_get_entries_acc [OF stats_okD [OF assms], of TS D clk n k "is" x]
  by (cases acc) (simp add: synchronizedCopy_def get_step_def series_in_def split: option.split)

lemma all_stats_ok: "holder_ok h \<Longrightarrow> s \<in> set (all_stats h) \<Longrightarrow> stats_ok s"
  by (auto simp: all_stats_def holder_ok_def wrapper_ok_def)

lemma map_filter_id_map: "List.map_filter id (map f xs) = List.map_filter f xs"
  by (simp add: List.map_filter_def filter_map comp_def)

lemma perXTimeSeriesGet_eq:
  assumes "holder_ok h" "find_member stat_name None = Some n"
  shows "\<exists>h'. perXTimeSeriesGet TS D clk h stat_name k find_member x is vals =
    (if series_list h x n k = [] then -1 else 0, h',
     fold (\<lambda>(i, ts). rate_step TS D (clk i) is ts) (enumerate 0 (series_list h x n k)) vals)"
proof -
  let ?f = "\<lambda>s acc. let (m', acc') = series_get_entries TS D clk n k is (synchronizedCopy x s) acc
      in (upd_member x (\<lambda>_. m') s, acc')"
  have "snd (runForEach ?f h (vals, False, 0)) =
      fold (\<lambda>s acc. get_step TS D clk is (series_in x n k s) acc) (all_stats h) (vals, False, 0)"
    unfolding runForEach_acc
    using all_stats_ok [OF assms(1)]
    by (intro fold_cong) (auto simp: case_prod_unfold Let_def series_get_entries_step)
  also have "\<dots> = fold (get_step TS D clk is) (map (series_in x n k) (all_stats h)) (vals, False, 0)"
    by (simp add: fold_map comp_def)
  finally show ?thesis
    using assms(2)
    by (cases "runForEach ?f h (vals, False, 0)")
      (simp add: perXTimeSeriesGet_def get_step_fold map_filter_id_map series_list_def Let_def)
qed

section \<open>Reading all objects\<close>

lemma length_rate_step [simp]:
  "length vals = length is \<Longrightarrow> length (rate_step TS D now is ts vals) = length is"
  by (simp add: rate_step_def add_rates_def series_rates_def)

lemma resize_same [simp]: "length xs = n \<Longrightarrow> resize D n xs = xs"
  by (simp add: resize_def)

lemma resize_empty [simp]: "resize D n [] = replicate n (d_zero D)"
  by (simp add: resize_def)

lemma length_resize [simp]: "length (resize D n xs) = n"
  by (simp add: resize_def)

lemma series_getall_Cons:
  "snd (series_getall_entries TS D clk n is ((k', p) # es) (out, ticks)) =
     (case time_series p n of
        None \<Rightarrow> snd (series_getall_entries TS D clk n is es (out, ticks))
      | Some ts \<Rightarrow>
          snd (series_getall_entries TS D clk n is es
            (umap_put k' (rate_step TS D (clk ticks) is ts (resize D (length is)
               (case map_of out k' of None \<Rightarrow> [] | Some v \<Rightarrow> v))) out, Suc ticks)))"
  by (simp add: case_prod_unfold Let_def rate_step_def split: option.split)

text \<open>What one series adds to the output vector of its key.\<close>

definition getall_step where
  "getall_step TS D now is ots ov =
     (case ots of
        None \<Rightarrow> ov
      | Some ts \<Rightarrow> Some (rate_step TS D now is ts (resize D (length is)
                            (case ov of None \<Rightarrow> [] | Some v \<Rightarrow> v))))"

lemma getall_step_simps [simp]:
  "getall_step TS D now is None ov = ov"
  "getall_step TS D now is (Some ts) None =
     Some (rate_step TS D now is ts (replicate (length is) (d_zero D)))"
  "length v = length is \<Longrightarrow>
     getall_step TS D now is (Some ts) (Some v) = Some (rate_step TS D now is ts v)"
  by (simp_all add: getall_step_def)

lemma series_getall_entries_lookup:
  assumes "umap_wf es"
  shows "map_of (fst (snd (series_getall_entries TS D (\<lambda>_. now) n is es (out, ticks)))) k =
    getall_step TS D now is (case map_of es k of None \<Rightarrow> None | Some p \<Rightarrow> time_series p n)
      (map_of out k)"
  using assms
proof (induction es arbitrary: out ticks)
  case Nil
  then show ?case by simp
next
  case (Cons e es)
  obtain k' p where e: "e = (k', p)" by (cases e)
  show ?case
  proof (cases "k' = k")
    case True
    with Cons.prems have "map_of es k = None" by (simp add: e map_of_eq_None_iff)
    with True Cons.IH Cons.prems show ?thesis
      unfolding e series_getall_Cons
      by (cases "time_series p n") (simp_all add: getall_step_def)
  next
    case False
    with Cons.IH Cons.prems show ?thesis
      unfolding e series_getall_Cons by (cases "time_series p n") simp_all
  qed
qed

lemma series_getall_entries_wf:
  "umap_wf out \<Longrightarrow> umap_wf (fst (snd (series_getall_entries TS D clk n is es (out, ticks))))"
proof (induction es arbitrary: out ticks)
  case Nil
  then show ?case by simp
next
  case (Cons e es)
  obtain k' p where e: "e = (k', p)" by (cases e)
  show ?case
    unfolding e series_getall_Cons using Cons by (cases "time_series p n") simp_all
qed

text \<open>The output of the loop over all \<open>Stats\<close> objects, under a clock that does not advance.\<close>

lemma getall_fold:
  fixes TS :: "('ts, 'd) series_api" and D :: "'d double_api"
    and n :: string and ivs :: "int list" and x :: stats_member and now :: int
  assumes "\<And>s. s \<in> set ss \<Longrightarrow> stats_ok s"
  defines "f \<equiv> \<lambda>s acc. snd (series_getall_entries TS D (\<lambda>_. now) n ivs (synchronizedCopy x s) acc)"
  shows "umap_wf out \<Longrightarrow> umap_wf (fst (fold f ss (out, ticks))) \<and>
    map_of (fst (fold f ss (out, ticks))) k =
      fold (getall_step TS D now ivs) (map (series_in x n k) ss) (map_of out k)"
  using assms(1)
proof (induction ss arbitrary: out ticks)
  case Nil
  then show ?case by simp
next
  case (Cons s ss)
  obtain out' ticks' where f: "f s (out, ticks) = (out', ticks')" by (cases "f s (out, ticks)")
  have "umap_wf (get_member x s)" using Cons.prems(2) by (simp add: stats_okD)
  from series_getall_entries_lookup [OF this, of TS D now n ivs out ticks k] f
  have "map_of out' k = getall_step TS D now ivs (series_in x n k s) (map_of out k)"
    by (simp add: f_def synchronizedCopy_def series_in_def)
  moreover have "umap_wf out'"
    using series_getall_entries_wf [OF Cons.prems(1), of TS D "\<lambda>_. now" n ivs "get_member x s" ticks] f
    by (simp add: f_def synchronizedCopy_def)
  ultimately show ?case
    using Cons.IH [of out' ticks'] Cons.prems(2) f by simp
qed

lemma getall_step_fold:
  "length v = length is \<Longrightarrow> fold (getall_step TS D now is) os (Some v) =
     Some (fold (rate_step TS D now is) (List.map_filter id os) v)"
proof (induction os arbitrary: v)
  case Nil
  then show ?case by (simp add: map_filter_simps)
next
  case (Cons ots os)
  then show ?case by (cases ots) (simp_all add: map_filter_simps)
qed

lemma getall_step_fold_None:
  "fold (getall_step TS D now is) os None =
     (if List.map_filter id os = [] then None
      else Some (fold (rate_step TS D now is) (List.map_filter id os)
                   (replicate (length is) (d_zero D))))"
proof (induction os)
  case Nil
  then show ?case by (simp add: map_filter_simps)
next
  case (Cons ots os)
  then show ?case by (cases ots) (simp_all add: map_filter_simps getall_step_fold id_def)
qed

lemma fold_enumerate_snd:
  "fold (\<lambda>(i, ts). g ts) (enumerate j xs) v = fold g xs v"
  by (induction xs arbitrary: j v) auto

lemma perXTimeSeriesGetall_eq:
  assumes "holder_ok h" "find_member stat_name None = Some n"
  shows "\<exists>h' out. perXTimeSeriesGetall TS D (\<lambda>_. now) h stat_name find_member x is =
      (0, h', Some (cppMapToHs out (\<lambda>k. k) (\<lambda>v. v))) \<and> umap_wf out \<and>
    (\<forall>k. map_of out k =
       (if series_list h x n k = [] then None
        else Some (fold (rate_step TS D now is) (series_list h x n k)
                     (replicate (length is) (d_zero D)))))"
proof -
  let ?f = "\<lambda>s acc. let (m', acc') = series_getall_entries TS D (\<lambda>_. now) n is (synchronizedCopy x s) acc
      in (upd_member x (\<lambda>_. m') s, acc')"
  let ?out = "fst (snd (runForEach ?f h ([], 0)))"
  have out: "snd (runForEach ?f h ([], 0)) = fold (\<lambda>s acc.
      snd (series_getall_entries TS D (\<lambda>_. now) n is (synchronizedCopy x s) acc)) (all_stats h) ([], 0)"
    unfolding runForEach_acc by (simp add: case_prod_unfold Let_def)
  note fold = getall_fold [where ss = "all_stats h" and out = "[]" and ticks = 0 and TS = TS and D = D
      and now = now and n = n and ivs = "is" and x = x, OF all_stats_ok [OF assms(1)]]
  have "umap_wf ?out"
    unfolding out using fold by simp
  moreover have "map_of ?out k = (if series_list h x n k = [] then None
        else Some (fold (rate_step TS D now is) (series_list h x n k)
                     (replicate (length is) (d_zero D))))" for k
    unfolding out using fold [where k = k]
    by (simp add: getall_step_fold_None map_filter_id_map series_list_def)
  ultimately show ?thesis
    using assms(2)
    by (cases "runForEach ?f h ([], 0)")
      (auto simp: perXTimeSeriesGetall_def Let_def)
qed

section \<open>Reading rates leaves the counters alone\<close>

text \<open>Two \<open>Stats\<close> objects that differ at most in the contents of time series.\<close>

definition same_counters :: "('c, 'ts, 'h) Stats \<Rightarrow> ('c, 'ts, 'h) Stats \<Rightarrow> bool" where
  "same_counters s s' \<longleftrightarrow> params s' = params s \<and> server_histograms s' = server_histograms s \<and>
     (\<forall>x. map fst (get_member x s') = map fst (get_member x s)) \<and>
     (\<forall>x k. map_option counters (map_of (get_member x s') k) =
            map_option counters (map_of (get_member x s) k))"

lemma same_counters_ok: "same_counters s s' \<Longrightarrow> stats_ok s' \<longleftrightarrow> stats_ok s"
  by (simp add: same_counters_def stats_ok_def)

lemma same_counters_params: "same_counters s s' \<Longrightarrow> params s' = params s"
  by (simp add: same_counters_def)

lemma same_counters_value:
  assumes "same_counters s s'"
  shows "stat_value SC x s' k n = stat_value SC x s k n"
proof -
  have "map_option counters (map_of (get_member x s') k) =
      map_option counters (map_of (get_member x s) k)"
    using assms by (simp add: same_counters_def)
  then show ?thesis
    by (cases "map_of (get_member x s') k"; cases "map_of (get_member x s) k")
      (simp_all add: stat_value_def map_value_def)
qed

lemma same_counters_upd:
  assumes "map fst m' = map fst (get_member x s)"
    and "\<And>k. map_option counters (map_of m' k) = map_option counters (map_of (get_member x s) k)"
  shows "same_counters s (upd_member x (\<lambda>_. m') s)"
  using assms by (simp add: same_counters_def)

text \<open>A loop over all threads whose body only touches time series.\<close>

lemma run_threads_same:
  assumes "\<And>s a. same_counters s (fst (f s a))"
  shows "list_all2 (\<lambda>e e'. fst e' = fst e \<and> wr_owner (snd e') = wr_owner (snd e) \<and>
      same_counters (wr_stats (snd e)) (wr_stats (snd e'))) ws (fst (run_threads f ws a))"
proof (induction ws arbitrary: a)
  case Nil
  then show ?case by simp
next
  case (Cons e ws)
  then show ?case using assms by (cases e) (simp add: case_prod_unfold Let_def)
qed

lemma list_all2_sum:
  "list_all2 R xs ys \<Longrightarrow> (\<And>x y. R x y \<Longrightarrow> g y = f x) \<Longrightarrow>
     sum_list (map g ys) = sum_list (map f xs)" for g :: "_ \<Rightarrow> 'a::comm_monoid_add"
  by (induction rule: list_all2_induct) auto

lemma list_all2_map_eq:
  "list_all2 R xs ys \<Longrightarrow> (\<And>x y. R x y \<Longrightarrow> g y = f x) \<Longrightarrow> map g ys = map f xs"
  by (induction rule: list_all2_induct) auto

lemma list_all2_set:
  "list_all2 R xs ys \<Longrightarrow> \<forall>x \<in> set xs. P x \<Longrightarrow> (\<And>x y. R x y \<Longrightarrow> P x \<Longrightarrow> Q y) \<Longrightarrow>
     \<forall>y \<in> set ys. Q y"
  by (induction rule: list_all2_induct) auto

lemma runForEach_same:
  assumes "\<And>s a. same_counters s (fst (f s a))" "holder_ok h"
  shows "holder_ok (fst (runForEach f h a))"
    and "total_value SC (fst (runForEach f h a)) x k n = total_value SC h x k n"
proof -
  obtain a' where h': "fst (runForEach f h a) =
      h\<lparr>dead_stats_' := fst (f (dead_stats_' h) a),
        thread_stats_' := fst (run_threads f (thread_stats_' h) a')\<rparr>"
    by (simp add: runForEach_def case_prod_unfold Let_def)
  note ws = run_threads_same [where f = f and ws = "thread_stats_' h" and a = a', OF assms(1)]
  let ?ws = "fst (run_threads f (thread_stats_' h) a')"
  have d: "same_counters (dead_stats_' h) (fst (f (dead_stats_' h) a))" by (rule assms(1))
  have "map fst ?ws = map fst (thread_stats_' h)"
    by (rule list_all2_map_eq [OF ws]) simp
  moreover have "\<forall>e \<in> set ?ws. wrapper_ok (params_' h) (snd e)"
    by (rule list_all2_set [OF ws, where P = "\<lambda>e. wrapper_ok (params_' h) (snd e)"])
      (use assms(2) in \<open>auto simp: holder_ok_def wrapper_ok_def same_counters_params
          intro: iffD2 [OF same_counters_ok]\<close>)
  ultimately show "holder_ok (fst (runForEach f h a))"
    using assms(2) same_counters_ok [OF d] same_counters_params [OF d]
    unfolding h' by (simp add: holder_ok_def)
  have "(\<Sum>e \<leftarrow> ?ws. stat_value SC x (wr_stats (snd e)) k n) =
      (\<Sum>e \<leftarrow> thread_stats_' h. stat_value SC x (wr_stats (snd e)) k n)"
    by (rule list_all2_sum [OF ws]) (simp add: same_counters_value)
  then show "total_value SC (fst (runForEach f h a)) x k n = total_value SC h x k n"
    using same_counters_value [OF d] unfolding h' by (simp add: total_value_def)
qed

lemma series_get_entries_same:
  "map fst (fst (series_get_entries TS D clk n k is es acc)) = map fst es"
  "map_option counters (map_of (fst (series_get_entries TS D clk n k is es acc)) k') =
     map_option counters (map_of es k')"
  by (induction TS D clk n k "is" es acc rule: series_get_entries.induct)
    (auto simp: case_prod_unfold Let_def split: option.split)

lemma series_getall_entries_same:
  "map fst (fst (series_getall_entries TS D clk n is es acc)) = map fst es"
  "map_option counters (map_of (fst (series_getall_entries TS D clk n is es acc)) k') =
     map_option counters (map_of es k')"
proof (atomize (full), induction es arbitrary: acc)
  case Nil
  then show ?case by simp
next
  case (Cons e es)
  then show ?case
    by (cases e) (auto simp: case_prod_unfold Let_def split: option.split)
qed

text \<open>Both readings keep the holder well-formed and every total.\<close>

lemma perXTimeSeriesGet_frame:
  assumes "holder_ok h" "perXTimeSeriesGet TS D clk h stat_name k find_member x is vals = (r, h', v)"
  shows "holder_ok h' \<and> total_value SC h' x' k' n' = total_value SC h x' k' n'"
proof (cases "find_member stat_name None")
  case None
  with assms show ?thesis by (simp add: perXTimeSeriesGet_def)
next
  case (Some n)
  let ?f = "\<lambda>s acc. let (m', acc') = series_get_entries TS D clk n k is (synchronizedCopy x s) acc
      in (upd_member x (\<lambda>_. m') s, acc')"
  have f: "same_counters s (fst (?f s acc))" for s acc
    by (simp add: case_prod_unfold Let_def same_counters_upd synchronizedCopy_def
        series_get_entries_same)
  have "h' = fst (runForEach ?f h (vals, False, 0))"
    using assms(2) Some by (simp add: perXTimeSeriesGet_def Let_def split: prod.splits)
  then show ?thesis
    using runForEach_same [where f = ?f, OF f assms(1)] by blast
qed

lemma perXTimeSeriesGetall_frame:
  assumes "holder_ok h" "perXTimeSeriesGetall TS D clk h stat_name find_member x is = (r, h', v)"
  shows "holder_ok h' \<and> total_value SC h' x' k' n' = total_value SC h x' k' n'"
proof (cases "find_member stat_name None")
  case None
  with assms show ?thesis by (simp add: perXTimeSeriesGetall_def)
next
  case (Some n)
  let ?f = "\<lambda>s acc. let (m', acc') = series_getall_entries TS D clk n is (synchronizedCopy x s) acc
      in (upd_member x (\<lambda>_. m') s, acc')"
  have f: "same_counters s (fst (?f s acc))" for s acc
    by (simp add: case_prod_unfold Let_def same_counters_upd synchronizedCopy_def
        series_getall_entries_same)
  have "h' = fst (runForEach ?f h ([], 0))"
    using assms(2) Some by (simp add: perXTimeSeriesGetall_def Let_def split: prod.splits)
  then show ?thesis
    using runForEach_same [where f = ?f, OF f assms(1)] by blast
qed

end
