(* ===== verification/Stats_Refinement.thy ===== *)
theory Stats_Refinement
  imports Stats_Series
begin

text \<open>
  What the users of a \<open>StatsHolder\<close> observe. The operations that change counters are events;
  any interleaving of events by any threads refines an abstract machine that only keeps the
  contribution of every thread and of the exited threads together, and an aggregation returns the
  sum of these contributions.
\<close>

section \<open>Aggregating a holder\<close>

definition aggregate_all ::
    "'c counter_api \<Rightarrow> ('h, 'd) histogram_api \<Rightarrow> ('c, 'ts, 'h) StatsHolder \<Rightarrow> ('c, 'ts, 'h) Stats"
    where
  "aggregate_all SC HB h =
     fold (\<lambda>x. aggregated SC HB None (wr_stats (snd x))) (thread_stats_' h)
       (aggregated SC HB None (dead_stats_' h) (new_Stats HB (params_' h)))"

definition part_ok :: "StatsParams \<Rightarrow> ('c, 'ts, 'h) Stats \<Rightarrow> bool" where
  "part_ok p s \<longleftrightarrow> stats_ok s \<and> params s = p"

lemma part_ok_aggregated:
  "part_ok p s \<Longrightarrow> part_ok p s' \<Longrightarrow> part_ok p (aggregated SC HB ov s' s)"
  by (simp add: part_ok_def aggregated_ok)

lemma part_ok_start:
  "holder_ok h \<Longrightarrow>
     part_ok (params_' h) (aggregated SC HB None (dead_stats_' h) (new_Stats HB (params_' h)))"
  by (intro part_ok_aggregated) (auto simp: part_ok_def holder_ok_def)

lemma part_ok_thread:
  "holder_ok h \<Longrightarrow> e \<in> set (thread_stats_' h) \<Longrightarrow> part_ok (params_' h) (wr_stats (snd e))"
  by (simp add: part_ok_def holder_ok_def wrapper_ok_def)

lemma holder_aggregate_success:
  assumes "holder_ok h"
  shows "holder_aggregate SC HB h = Inr (aggregate_all SC HB h)"
    and "part_ok (params_' h) (aggregate_all SC HB h)"
proof -
  have "fold_result (\<lambda>x r. Stats_aggregate SC HB r (wr_stats (snd x)) None) (thread_stats_' h)
      (aggregated SC HB None (dead_stats_' h) (new_Stats HB (params_' h))) =
      Inr (aggregate_all SC HB h) \<and> part_ok (params_' h) (aggregate_all SC HB h)"
    unfolding aggregate_all_def
    using part_ok_thread [OF assms]
    by (intro fold_result_total part_ok_start assms)
      (auto simp: Stats_aggregate_def part_ok_def aggregateCompoundStats_success aggregated_ok)
  moreover have "Stats_aggregate SC HB (new_Stats HB (params_' h)) (dead_stats_' h) None =
      Inr (aggregated SC HB None (dead_stats_' h) (new_Stats HB (params_' h)))"
    using holder_ok_dead [OF assms]
    by (simp add: Stats_aggregate_def aggregateCompoundStats_success)
  ultimately show "holder_aggregate SC HB h = Inr (aggregate_all SC HB h)"
    and "part_ok (params_' h) (aggregate_all SC HB h)"
    by (auto simp: holder_aggregate_def deriveStats_def)
qed

lemma holder_aggregate_nonew_eq: "holder_aggregate_nonew SC HB h = holder_aggregate SC HB h"
  by (simp add: holder_aggregate_nonew_def holder_aggregate_def)

lemma aggregated_fold_keys:
  assumes "part_ok p s" "\<And>e. e \<in> set es \<Longrightarrow> part_ok p (wr_stats (snd e))" "x \<noteq> M_handle"
  shows "dom (map_of (get_member x (fold (\<lambda>e. aggregated SC HB None (wr_stats (snd e))) es s))) =
    dom (map_of (get_member x s)) \<union>
    (\<Union>e \<in> set es. dom (map_of (get_member x (wr_stats (snd e)))))"
  using assms
proof (induction es arbitrary: s)
  case Nil
  then show ?case by simp
next
  case (Cons e es)
  have e: "part_ok p (wr_stats (snd e))" using Cons.prems(2) by simp
  have "dom (map_of (get_member x (aggregated SC HB None (wr_stats (snd e)) s))) =
      dom (map_of (get_member x s)) \<union> dom (map_of (get_member x (wr_stats (snd e))))"
    using Cons.prems(1,3) e
    by (simp add: part_ok_def aggregated_member per_stats_aggregate_keys stats_okD)
  moreover have "part_ok p (aggregated SC HB None (wr_stats (snd e)) s)"
    using Cons.prems(1) e by (rule part_ok_aggregated)
  ultimately show ?case
    using Cons.IH [of "aggregated SC HB None (wr_stats (snd e)) s"] Cons.prems(2,3) by auto
qed

text \<open>The objects an aggregation knows are those some thread, running or exited, knows.\<close>

lemma aggregate_all_keys:
  assumes "holder_ok h" "x \<noteq> M_handle"
  shows "dom (map_of (get_member x (aggregate_all SC HB h))) =
    dom (map_of (get_member x (dead_stats_' h))) \<union>
    (\<Union>e \<in> set (thread_stats_' h). dom (map_of (get_member x (wr_stats (snd e)))))"
proof -
  have "dom (map_of (get_member x
        (aggregated SC HB None (dead_stats_' h) (new_Stats HB (params_' h))))) =
      dom (map_of (get_member x (dead_stats_' h)))"
    using holder_ok_dead [OF assms(1)] assms(2)
    by (simp add: aggregated_member per_stats_aggregate_keys stats_okD)
  then show ?thesis
    unfolding aggregate_all_def
    by (simp add: aggregated_fold_keys [OF part_ok_start [OF assms(1)] part_ok_thread [OF assms(1)]
          assms(2)])
qed

context stats_counter
begin

lemma aggregated_fold_value:
  assumes "part_ok p s" "\<And>e. e \<in> set es \<Longrightarrow> part_ok p (wr_stats (snd e))" "is_counter x n"
  shows "stat_value SC x (fold (\<lambda>e. aggregated SC HB None (wr_stats (snd e))) es s) k n =
    stat_value SC x s k n + (\<Sum>e \<leftarrow> es. stat_value SC x (wr_stats (snd e)) k n)"
  using assms
proof (induction es arbitrary: s)
  case Nil
  then show ?case by simp
next
  case (Cons e es)
  have e: "part_ok p (wr_stats (snd e))" using Cons.prems(2) by simp
  have "stat_value SC x (aggregated SC HB None (wr_stats (snd e)) s) k n =
      stat_value SC x s k n + stat_value SC x (wr_stats (snd e)) k n"
    using Cons.prems(1,3) e by (simp add: part_ok_def stat_value_aggregated)
  moreover have "part_ok p (aggregated SC HB None (wr_stats (snd e)) s)"
    using Cons.prems(1) e by (rule part_ok_aggregated)
  ultimately show ?case
    using Cons.IH [of "aggregated SC HB None (wr_stats (snd e)) s"] Cons.prems(2,3)
    by (simp add: algebra_simps)
qed

lemma aggregate_all_value:
  assumes "holder_ok h" "is_counter x n"
  shows "stat_value SC x (aggregate_all SC HB h) k n = total_value SC h x k n"
proof -
  have "stat_value SC x (aggregated SC HB None (dead_stats_' h) (new_Stats HB (params_' h))) k n =
      stat_value SC x (dead_stats_' h) k n"
    using holder_ok_dead [OF assms(1)] assms(2) by (simp add: stat_value_aggregated)
  then show ?thesis
    unfolding aggregate_all_def total_value_def
    by (simp add: aggregated_fold_value [OF part_ok_start [OF assms(1)] part_ok_thread [OF assms(1)]
          assms(2)])
qed

end

lemma dom_eq_None: "dom f = dom g \<Longrightarrow> f k = None \<longleftrightarrow> g k = None"
  by (metis domIff)

text \<open>An exit neither loses nor adds an object and removes the thread from the list.\<close>

lemma exit_keys:
  assumes "holder_ok h" "thread_exit SC HB t h = Inr h'" "x \<noteq> M_handle"
  shows "dom (map_of (get_member x (dead_stats_' h'))) \<union>
      (\<Union>e \<in> set (thread_stats_' h'). dom (map_of (get_member x (wr_stats (snd e))))) =
    dom (map_of (get_member x (dead_stats_' h))) \<union>
      (\<Union>e \<in> set (thread_stats_' h). dom (map_of (get_member x (wr_stats (snd e)))))"
proof (cases "map_of (thread_stats_' h) t")
  case None
  with assms(2) show ?thesis by (simp add: thread_exit_def)
next
  case (Some w)
  note w = holder_ok_thread [OF assms(1) Some] and d = holder_ok_dead [OF assms(1)]
  have "umap_wf (thread_stats_' h)"
    using d by blast
  then have "(\<Union>e \<in> set (thread_stats_' h). dom (map_of (get_member x (wr_stats (snd e))))) =
      dom (map_of (get_member x (wr_stats w))) \<union> (\<Union>e \<in> set (umap_erase t (thread_stats_' h)).
        dom (map_of (get_member x (wr_stats (snd e)))))"
    by (subst umap_set_split [OF _ Some]) simp_all
  moreover have "dom (map_of (get_member x (aggregated SC HB None (wr_stats w) (dead_stats_' h)))) =
      dom (map_of (get_member x (dead_stats_' h))) \<union> dom (map_of (get_member x (wr_stats w)))"
    using w d assms(3) by (simp add: aggregated_member per_stats_aggregate_keys stats_okD)
  ultimately show ?thesis
    using thread_exit_some [OF assms(1) Some, of SC HB] assms(2) by (simp add: Un_ac)
qed

lemma exit_gone: "thread_exit SC HB t h = Inr h' \<Longrightarrow> map_of (thread_stats_' h') t = None"
  by (auto simp: thread_exit_def delete_StatsWrapper_def split: option.splits if_splits sum.splits)

section \<open>Loops over all threads\<close>

definition map_wrappers where
  "map_wrappers f ws = map (\<lambda>(t, w). (t, w\<lparr>wr_stats := f (wr_stats w)\<rparr>)) ws"

lemma run_threads_map:
  "run_threads (\<lambda>s a. (f s, a + g s)) ws a =
     (map_wrappers f ws, a + (\<Sum>e \<leftarrow> ws. g (wr_stats (snd e))))" for a :: "'a::ab_group_add"
  by (induction ws arbitrary: a) (auto simp: map_wrappers_def algebra_simps)

lemma map_of_map_wrappers [simp]:
  "map_of (map_wrappers f ws) t =
     map_option (\<lambda>w. w\<lparr>wr_stats := f (wr_stats w)\<rparr>) (map_of ws t)"
  by (induction ws) (auto simp: map_wrappers_def)

lemma sum_map_wrappers:
  "(\<Sum>e \<leftarrow> map_wrappers f ws. g (wr_stats (snd e))) = (\<Sum>e \<leftarrow> ws. g (f (wr_stats (snd e))))"
  for g :: "_ \<Rightarrow> 'a::comm_monoid_add"
  by (induction ws) (auto simp: map_wrappers_def)

lemma map_wrappers_wf [simp]: "umap_wf (map_wrappers f ws) = umap_wf ws"
  by (simp add: map_wrappers_def comp_def case_prod_unfold)

lemma map_wrappers_ok:
  assumes "\<forall>e \<in> set ws. wrapper_ok p (snd e)"
    and "\<And>s. stats_ok s \<Longrightarrow> stats_ok (f s) \<and> params (f s) = params s"
  shows "\<forall>e \<in> set (map_wrappers f ws). wrapper_ok p (snd e)"
  using assms by (auto simp: map_wrappers_def wrapper_ok_def)

text \<open>How many of the holder's \<open>Stats\<close> objects know a key.\<close>

definition key_count :: "('c, 'ts, 'h) StatsHolder \<Rightarrow> stats_member \<Rightarrow> string \<Rightarrow> nat" where
  "key_count h x k =
     length (filter (\<lambda>s. map_of (get_member x s) k \<noteq> None)
       (dead_stats_' h # map (wr_stats \<circ> snd) (thread_stats_' h)))"

lemma aggregate_all_known:
  assumes "holder_ok h" "x \<noteq> M_handle"
  shows "map_of (get_member x (aggregate_all SC HB h)) k = None \<longleftrightarrow> key_count h x k = 0"
proof -
  have "map_of (get_member x (aggregate_all SC HB h)) k = None \<longleftrightarrow>
      k \<notin> dom (map_of (get_member x (aggregate_all SC HB h)))"
    by (simp add: domIff)
  also have "\<dots> \<longleftrightarrow> key_count h x k = 0"
    unfolding aggregate_all_keys [OF assms]
    by (auto simp: key_count_def filter_empty_conv domIff)
  finally show ?thesis .
qed

lemma sum_count_length:
  "(\<Sum>e \<leftarrow> ws. of_nat (umap_count k (f e)) :: 'a::len word) =
     of_nat (length (filter (\<lambda>e. map_of (f e) k \<noteq> None) ws))"
  by (induction ws) (auto simp: umap_count_def split: option.splits)

lemma erase_result:
  "perXStatsErase (Some h) x k =
     (Some (h\<lparr>dead_stats_' := upd_member x (umap_erase k) (dead_stats_' h),
              thread_stats_' := map_wrappers (upd_member x (umap_erase k)) (thread_stats_' h)\<rparr>),
      of_nat (key_count h x k))"
  by (simp add: perXStatsErase_def runForEach_def run_threads_map sum_count_length key_count_def
      filter_map comp_def)
    (auto simp: umap_count_def)

lemma upd_member_erase_ok: "stats_ok s \<Longrightarrow>
    stats_ok (upd_member x (umap_erase k) s) \<and> params (upd_member x (umap_erase k) s) = params s"
  by (simp add: upd_member_ok stats_okD)

lemma erase_ok [stats_wf]:
  "holder_ok h \<Longrightarrow> perXStatsErase (Some h) x k = (Some h', r) \<Longrightarrow> holder_ok h'"
  using map_wrappers_ok [where ws = "thread_stats_' h" and p = "params_' h"
      and f = "upd_member x (umap_erase k)"]
  by (force simp: erase_result holder_ok_def upd_member_erase_ok)

lemma erase_thread_value:
  "perXStatsErase (Some h) x k = (Some h', r) \<Longrightarrow>
     thread_value SC h' t x' k' n =
     (if (x', k') = (x, k) then 0 else thread_value SC h t x' k' n)"
  by (auto simp: erase_result thread_value_def split: option.splits)

lemma erase_dead_value:
  "perXStatsErase (Some h) x k = (Some h', r) \<Longrightarrow>
     dead_value SC h' x' k' n = (if (x', k') = (x, k) then 0 else dead_value SC h x' k' n)"
  by (auto simp: erase_result dead_value_def)

lemma erase_total:
  "perXStatsErase (Some h) x k = (Some h', r) \<Longrightarrow>
     total_value SC h' x' k' n = (if (x', k') = (x, k) then 0 else total_value SC h x' k' n)"
  by (auto simp: erase_result total_value_def
      sum_map_wrappers [where g = "\<lambda>s. stat_value SC x' s k' n" for x' k'])

lemma lookup_erase:
  "map_of (get_member x' (upd_member x (umap_erase k) s)) k' =
     (if (x', k') = (x, k) then None else map_of (get_member x' s) k')"
  by simp

lemma map_wrappers_stats:
  "map (wr_stats \<circ> snd) (map_wrappers f ws) = map f (map (wr_stats \<circ> snd) ws)"
  by (induction ws) (auto simp: map_wrappers_def)

lemma erase_key_count:
  assumes "perXStatsErase (Some h) x k = (Some h', r)"
  shows "key_count h' x' k' = (if (x', k') = (x, k) then 0 else key_count h x' k')"
proof -
  let ?ss = "dead_stats_' h # map (wr_stats \<circ> snd) (thread_stats_' h)"
  have "dead_stats_' h' # map (wr_stats \<circ> snd) (thread_stats_' h') =
      map (upd_member x (umap_erase k)) ?ss"
    using assms by (auto simp: erase_result map_wrappers_stats simp del: map_map)
  then have "key_count h' x' k' =
      length (filter (\<lambda>s. map_of (get_member x' (upd_member x (umap_erase k) s)) k' \<noteq> None) ?ss)"
    unfolding key_count_def by (simp only: filter_map comp_def length_map)
  then show ?thesis
    unfolding lookup_erase key_count_def by simp
qed

lemma holder_reset_eq:
  "holder_reset HB h = h\<lparr>dead_stats_' := reset_Stats HB (dead_stats_' h),
     thread_stats_' := map_wrappers (reset_Stats HB) (thread_stats_' h)\<rparr>"
  by (simp add: holder_reset_def map_wrappers_def)

lemma reset_thread_value [simp]: "thread_value SC (holder_reset HB h) t x k n = 0"
  by (simp add: thread_value_def holder_reset_eq split: option.splits)

lemma reset_dead_value [simp]: "dead_value SC (holder_reset HB h) x k n = 0"
  by (simp add: dead_value_def holder_reset_eq)

lemma reset_total [simp]: "total_value SC (holder_reset HB h) x k n = 0"
  by (simp add: total_value_def holder_reset_eq
      sum_map_wrappers [where g = "\<lambda>s. stat_value SC x s k n"])

section \<open>Events and their specification\<close>

text \<open>
  The calls that change the statistics: add and set of a counter and adding to a time series (at
  a given time) by a thread, erase of an object on all threads, reset, and the exit of a thread.
\<close>

datatype stats_event =
    Ev_add tid stats_member string string i64
  | Ev_set tid stats_member string string i64
  | Ev_series tid stats_member string string i64 int
  | Ev_erase stats_member string
  | Ev_reset
  | Ev_exit tid

fun event_ok :: "stats_event \<Rightarrow> bool" where
  "event_ok (Ev_add t x n k v) = is_counter x n"
| "event_ok (Ev_set t x n k v) = is_counter x n"
| "event_ok _ = True"

fun run_event ::
    "'c counter_api \<Rightarrow> ('h, 'e) histogram_api \<Rightarrow> ('ts, 'd) series_api \<Rightarrow> stats_event \<Rightarrow>
     ('c, 'ts, 'h) StatsHolder \<Rightarrow>
     ('c, 'ts, 'h) StatsHolder result" where
  "run_event SC HB TS (Ev_add t x n k v) h = Inr (the (PER_X_STAT_ADD SC HB t (Some h) x n k v))"
| "run_event SC HB TS (Ev_set t x n k v) h = Inr (the (PER_X_STAT_SET SC HB t (Some h) x n k v))"
| "run_event SC HB TS (Ev_series t x n k v now) h =
     Inr (the (PER_X_TIME_SERIES_ADD SC HB TS now t (Some h) x n k v))"
| "run_event SC HB TS (Ev_erase x k) h = Inr (the (fst (perXStatsErase (Some h) x k)))"
| "run_event SC HB TS Ev_reset h = Inr (holder_reset HB h)"
| "run_event SC HB TS (Ev_exit t) h = thread_exit SC HB t h"

text \<open>The abstract machine: one value per counter, for every running thread and for the exited.\<close>

type_synonym counter_id = "stats_member \<times> string \<times> string"

record contributions =
  live :: "tid \<Rightarrow> counter_id \<Rightarrow> i64"
  exited :: "counter_id \<Rightarrow> i64"

fun spec_event :: "stats_event \<Rightarrow> contributions \<Rightarrow> contributions" where
  "spec_event (Ev_add t x n k v) c =
     c\<lparr>live := (live c)(t := (live c t)((x, k, n) := live c t (x, k, n) + v))\<rparr>"
| "spec_event (Ev_set t x n k v) c =
     c\<lparr>live := (live c)(t := (live c t)((x, k, n) := v))\<rparr>"
| "spec_event (Ev_series t x n k v now) c = c"
| "spec_event (Ev_erase x k) c =
     (let keep = (\<lambda>f (x', k', n). if (x', k') = (x, k) then 0 else f (x', k', n))
      in \<lparr>live = (\<lambda>t. keep (live c t)), exited = keep (exited c)\<rparr>)"
| "spec_event Ev_reset c = \<lparr>live = (\<lambda>t i. 0), exited = (\<lambda>i. 0)\<rparr>"
| "spec_event (Ev_exit t) c =
     \<lparr>live = (live c)(t := (\<lambda>i. 0)), exited = (\<lambda>i. exited c i + live c t i)\<rparr>"

fun sets_counter :: "stats_event \<Rightarrow> stats_member \<Rightarrow> string \<Rightarrow> string \<Rightarrow> bool" where
  "sets_counter (Ev_set t x' n' k' v) x k n = ((x', k', n') = (x, k, n))"
| "sets_counter _ x k n = False"

text \<open>The contributions a holder stores.\<close>

definition abs_holder :: "'c counter_api \<Rightarrow> ('c, 'ts, 'h) StatsHolder \<Rightarrow> contributions" where
  "abs_holder SC h =
     \<lparr>live = (\<lambda>t (x, k, n). if is_counter x n then thread_value SC h t x k n else 0),
      exited = (\<lambda>(x, k, n). if is_counter x n then dead_value SC h x k n else 0)\<rparr>"

lemma run_event_ok:
  assumes "holder_ok h"
  shows "\<exists>h'. run_event SC HB TS ev h = Inr h' \<and> holder_ok h'"
proof (cases ev)
  case (Ev_exit t)
  then show ?thesis
    using thread_exit_total [OF assms] thread_exit_ok [OF assms] by fastforce
next
  case (Ev_add t x n k v)
  then show ?thesis
    using add_ok [OF assms] by (simp add: add_with_local)
next
  case (Ev_set t x n k v)
  then show ?thesis
    using set_ok [OF assms] by (simp add: set_with_local)
next
  case (Ev_series t x n k v now)
  then show ?thesis
    using series_add_ok [OF assms] by (simp add: series_add_with_local)
next
  case (Ev_erase x k)
  then show ?thesis
    using erase_ok [OF assms] by (simp add: erase_result)
next
  case Ev_reset
  then show ?thesis
    using holder_reset_ok [OF assms] by simp
qed

lemma run_events_ok:
  "holder_ok h \<Longrightarrow> \<exists>h'. fold_result (run_event SC HB TS) evs h = Inr h' \<and> holder_ok h'"
proof (induction evs arbitrary: h)
  case Nil
  then show ?case by simp
next
  case (Cons ev evs)
  obtain h1 where "run_event SC HB TS ev h = Inr h1" "holder_ok h1"
    using run_event_ok [OF Cons.prems] by blast
  with Cons.IH [of h1] show ?case by simp
qed

context stats_counter
begin

lemma abs_add:
  assumes "PER_X_STAT_ADD SC HB t (Some h) x n k v = Some h'" "is_counter x n"
  shows "abs_holder SC h' = spec_event (Ev_add t x n k v) (abs_holder SC h)"
proof -
  have "dead_stats_' h' = dead_stats_' h"
    using assms(1) by (auto simp: add_with_local)
  then show ?thesis
    using assms(2)
    by (auto simp: abs_holder_def fun_eq_iff add_thread_value [OF assms(1)] dead_value_def)
qed

lemma abs_set:
  assumes "PER_X_STAT_SET SC HB t (Some h) x n k v = Some h'" "is_counter x n"
  shows "abs_holder SC h' = spec_event (Ev_set t x n k v) (abs_holder SC h)"
proof -
  have "dead_stats_' h' = dead_stats_' h"
    using assms(1) by (auto simp: set_with_local)
  then show ?thesis
    using assms(2)
    by (auto simp: abs_holder_def fun_eq_iff set_thread_value [OF assms(1)] dead_value_def)
qed

lemma abs_series:
  assumes "PER_X_TIME_SERIES_ADD SC HB TS now t (Some h) x n k v = Some h'"
  shows "abs_holder SC h' = abs_holder SC h"
proof -
  have "dead_stats_' h' = dead_stats_' h"
    using assms by (auto simp: series_add_with_local)
  then show ?thesis
    by (simp add: abs_holder_def fun_eq_iff series_add_thread_value [OF assms] dead_value_def)
qed

lemma abs_erase:
  assumes "perXStatsErase (Some h) x k = (Some h', r)"
  shows "abs_holder SC h' = spec_event (Ev_erase x k) (abs_holder SC h)"
  by (auto simp: abs_holder_def fun_eq_iff erase_thread_value [OF assms]
      erase_dead_value [OF assms])

lemma abs_exit:
  assumes "holder_ok h" "thread_exit SC HB t h = Inr h'"
  shows "abs_holder SC h' = spec_event (Ev_exit t) (abs_holder SC h)"
  by (auto simp: abs_holder_def fun_eq_iff exit_values [OF assms])

lemma abs_step:
  assumes "holder_ok h" "event_ok ev" "run_event SC HB TS ev h = Inr h'"
  shows "abs_holder SC h' = spec_event ev (abs_holder SC h)"
proof (cases ev)
  case (Ev_add t x n k v)
  with assms(2,3) show ?thesis
    using abs_add [of HB t h x n k v h'] by (simp add: add_with_local)
next
  case (Ev_set t x n k v)
  with assms(2,3) show ?thesis
    using abs_set [of HB t h x n k v h'] by (simp add: set_with_local)
next
  case (Ev_series t x n k v now)
  with assms(3) show ?thesis
    using abs_series [of HB TS now t h x n k v h'] by (simp add: series_add_with_local)
next
  case (Ev_erase x k)
  with assms(3) show ?thesis
    using abs_erase [of h x k h'] by (simp add: erase_result)
next
  case (Ev_exit t)
  with assms show ?thesis using abs_exit [OF assms(1)] by simp
next
  case Ev_reset
  with assms(3) show ?thesis by (auto simp: abs_holder_def fun_eq_iff)
qed

text \<open>The total a counter should have, for every event that is not a set of that counter.\<close>

lemma total_step:
  assumes "holder_ok h" "run_event SC HB TS ev h = Inr h'" "is_counter x n"
    and "\<not> sets_counter ev x k n"
  shows "total_value SC h' x k n =
    (case ev of
       Ev_add t x' n' k' v \<Rightarrow>
         total_value SC h x k n + (if (x', k', n') = (x, k, n) then v else 0)
     | Ev_erase x' k' \<Rightarrow> if (x', k') = (x, k) then 0 else total_value SC h x k n
     | Ev_reset \<Rightarrow> 0
     | _ \<Rightarrow> total_value SC h x k n)"
proof (cases ev)
  case (Ev_add t x' n' k' v)
  with assms(2) have "PER_X_STAT_ADD SC HB t (Some h) x' n' k' v = Some h'"
    by (simp add: add_with_local)
  from add_total [OF assms(1) this] Ev_add show ?thesis by auto
next
  case (Ev_set t x' n' k' v)
  with assms(2) have "PER_X_STAT_SET SC HB t (Some h) x' n' k' v = Some h'"
    by (simp add: set_with_local)
  from set_total [OF assms(1) this] Ev_set assms(4) show ?thesis by auto
next
  case (Ev_series t x' n' k' v now)
  with assms(2) have "PER_X_TIME_SERIES_ADD SC HB TS now t (Some h) x' n' k' v = Some h'"
    by (simp add: series_add_with_local)
  from series_add_total [OF assms(1) this] Ev_series show ?thesis by simp
next
  case (Ev_erase x' k')
  with assms(2) have "perXStatsErase (Some h) x' k' = (Some h', of_nat (key_count h x' k'))"
    by (simp add: erase_result)
  from erase_total [OF this] Ev_erase show ?thesis by auto
next
  case Ev_reset
  with assms(2) show ?thesis by auto
next
  case (Ev_exit t)
  with assms(1-3) show ?thesis by (simp add: exit_values(3))
qed

end

text \<open>The sum of the values added to a counter since it was last erased or reset.\<close>

fun added_since :: "stats_event list \<Rightarrow> stats_member \<Rightarrow> string \<Rightarrow> string \<Rightarrow> i64 \<Rightarrow> i64" where
  "added_since [] x k n acc = acc"
| "added_since (Ev_add t x' n' k' v # evs) x k n acc =
     added_since evs x k n (if (x', k', n') = (x, k, n) then acc + v else acc)"
| "added_since (Ev_erase x' k' # evs) x k n acc =
     added_since evs x k n (if (x', k') = (x, k) then 0 else acc)"
| "added_since (Ev_reset # evs) x k n acc = added_since evs x k n 0"
| "added_since (ev # evs) x k n acc = added_since evs x k n acc"

lemma total_trace:
  assumes "stats_counter SC" "holder_ok h" "is_counter x n"
    and "\<forall>ev \<in> set evs. \<not> sets_counter ev x k n"
    and "fold_result (run_event SC HB TS) evs h = Inr h'"
  shows "total_value SC h' x k n = added_since evs x k n (total_value SC h x k n)"
  using assms(2,4,5)
proof (induction evs arbitrary: h)
  case Nil
  then show ?case by simp
next
  case (Cons ev evs)
  obtain h1 where h1: "run_event SC HB TS ev h = Inr h1" "holder_ok h1"
    using run_event_ok [OF Cons.prems(1)] by blast
  with Cons have "total_value SC h' x k n = added_since evs x k n (total_value SC h1 x k n)"
    by simp
  moreover have "\<not> sets_counter ev x k n"
    using Cons.prems(2) by simp
  from stats_counter.total_step [OF assms(1) Cons.prems(1) h1(1) assms(3) this]
  have "added_since evs x k n (total_value SC h1 x k n) =
      added_since (ev # evs) x k n (total_value SC h x k n)"
    by (cases ev) auto
  ultimately show ?case by simp
qed

lemma new_holder_total [simp]: "total_value SC (new_StatsHolder HB p) x k n = 0"
  by (simp add: total_value_def new_StatsHolder_def)

end
