(* ===== verification/Stats_Ffi.thy ===== *)
theory Stats_Ffi
  imports Stats_Refinement
begin

text \<open>
  The foreign interface \<open>common/stats/cbits/hs_stats.cpp\<close>: creating, aggregating, resetting and
  destroying holders, the counter functions of each kind of object (one function per counter in
  the sources, here with the counter's name as an argument) and the server histograms.
\<close>

section \<open>Holders\<close>

definition new_stats_holder ::
    "('h, 'd) histogram_api \<Rightarrow> bool \<Rightarrow> ('c, 'ts, 'h) StatsHolder" where
  "new_stats_holder HB is_srv = new_StatsHolder HB (setIsServer is_srv new_StatsParams)"

definition delete_stats_holder where
  "delete_stats_holder h = delete_StatsHolder h"

definition new_aggregate_stats where
  "new_aggregate_stats SC HB h = holder_aggregate SC HB h"

definition stats_holder_print where
  "stats_holder_print folly_toJson show_tid SC h = holder_print folly_toJson show_tid SC h"

definition stats_holder_reset where
  "stats_holder_reset HB h = holder_reset HB h"

section \<open>Counters\<close>

text \<open>The functions \<open>PER_X_STAT_DEFINE\<close> and \<open>PER_X_STAT\<close> generate for each kind of object.\<close>

definition stream_stat_add where
  "stream_stat_add SC HB t h name key val = PER_X_STAT_ADD SC HB t h M_stream name key val"

definition stream_stat_set where
  "stream_stat_set SC HB t h name key val = PER_X_STAT_SET SC HB t h M_stream name key val"

definition stream_stat_get where
  "stream_stat_get SC stats name key = PER_X_STAT_GET SC stats M_stream name key"

definition stream_stat_getall_of where
  "stream_stat_getall_of SC stats name = PER_X_STAT_getall SC stats M_stream name"

definition stream_stat_getall where
  "stream_stat_getall SC HB h stat_name =
     perXStatsGetall SC HB h M_stream stat_name setPerStreamStatsMember"

definition stream_stat_erase where
  "stream_stat_erase h key = perXStatsErase h M_stream key"

definition connector_stat_add where
  "connector_stat_add SC HB t h name key val = PER_X_STAT_ADD SC HB t h M_connector name key val"

definition connector_stat_set where
  "connector_stat_set SC HB t h name key val = PER_X_STAT_SET SC HB t h M_connector name key val"

definition connector_stat_get where
  "connector_stat_get SC stats name key = PER_X_STAT_GET SC stats M_connector name key"

definition connector_stat_getall_of where
  "connector_stat_getall_of SC stats name = PER_X_STAT_getall SC stats M_connector name"

definition connector_stat_getall where
  "connector_stat_getall SC HB h stat_name =
     perXStatsGetall SC HB h M_connector stat_name setPerConnectorStatsMember"

definition connector_stat_erase where
  "connector_stat_erase h key = perXStatsErase h M_connector key"

definition cache_store_stat_add where
  "cache_store_stat_add SC HB t h name key val = PER_X_STAT_ADD SC HB t h M_cache_store name key val"

definition cache_store_stat_set where
  "cache_store_stat_set SC HB t h name key val = PER_X_STAT_SET SC HB t h M_cache_store name key val"

definition cache_store_stat_get where
  "cache_store_stat_get SC stats name key = PER_X_STAT_GET SC stats M_cache_store name key"

definition cache_store_stat_getall_of where
  "cache_store_stat_getall_of SC stats name = PER_X_STAT_getall SC stats M_cache_store name"

definition cache_store_stat_getall where
  "cache_store_stat_getall SC HB h stat_name =
     perXStatsGetall SC HB h M_cache_store stat_name setPerCacheStoreStatsMember"

definition cache_store_stat_erase where
  "cache_store_stat_erase h key = perXStatsErase h M_cache_store key"

definition query_stat_add where
  "query_stat_add SC HB t h name key val = PER_X_STAT_ADD SC HB t h M_query name key val"

definition query_stat_set where
  "query_stat_set SC HB t h name key val = PER_X_STAT_SET SC HB t h M_query name key val"

definition query_stat_get where
  "query_stat_get SC stats name key = PER_X_STAT_GET SC stats M_query name key"

definition query_stat_getall_of where
  "query_stat_getall_of SC stats name = PER_X_STAT_getall SC stats M_query name"

definition query_stat_getall where
  "query_stat_getall SC HB h stat_name =
     perXStatsGetall SC HB h M_query stat_name setPerQueryStatsMember"

definition query_stat_erase where
  "query_stat_erase h key = perXStatsErase h M_query key"

definition view_stat_add where
  "view_stat_add SC HB t h name key val = PER_X_STAT_ADD SC HB t h M_view name key val"

definition view_stat_set where
  "view_stat_set SC HB t h name key val = PER_X_STAT_SET SC HB t h M_view name key val"

definition view_stat_get where
  "view_stat_get SC stats name key = PER_X_STAT_GET SC stats M_view name key"

definition view_stat_getall_of where
  "view_stat_getall_of SC stats name = PER_X_STAT_getall SC stats M_view name"

definition view_stat_getall where
  "view_stat_getall SC HB h stat_name =
     perXStatsGetall SC HB h M_view stat_name setPerViewStatsMember"

definition view_stat_erase where
  "view_stat_erase h key = perXStatsErase h M_view key"

definition subscription_stat_add where
  "subscription_stat_add SC HB t h name key val = PER_X_STAT_ADD SC HB t h M_subscription name key val"

definition subscription_stat_set where
  "subscription_stat_set SC HB t h name key val = PER_X_STAT_SET SC HB t h M_subscription name key val"

definition subscription_stat_get where
  "subscription_stat_get SC stats name key = PER_X_STAT_GET SC stats M_subscription name key"

definition subscription_stat_getall_of where
  "subscription_stat_getall_of SC stats name = PER_X_STAT_getall SC stats M_subscription name"

definition subscription_stat_getall where
  "subscription_stat_getall SC HB h stat_name =
     perXStatsGetall SC HB h M_subscription stat_name setPerSubscriptionStatsMember"

definition subscription_stat_erase where
  "subscription_stat_erase h key = perXStatsErase h M_subscription key"

section \<open>Server histograms\<close>

text \<open>
  \<open>server_histogram_add\<close>. Every call of \<open>get()\<close> creates the calling thread's object if it is not
  there yet, also when the histogram turns out not to exist.
\<close>

definition server_histogram_add ::
    "('h, 'd) histogram_api \<Rightarrow> tid \<Rightarrow> ('c, 'ts, 'h) StatsHolder option \<Rightarrow> string \<Rightarrow> i64 \<Rightarrow>
     ('c, 'ts, 'h) StatsHolder option \<times> i32" where
  "server_histogram_add HB t stats_holder stat_name usecs =
     (case stats_holder of
        None \<Rightarrow> (None, -1)
      | Some h \<Rightarrow>
          (let (h, s) = holder_get HB t h
           in case server_histograms s of
                None \<Rightarrow> (Some h, -1)
              | Some hist \<Rightarrow>
                  (let (h, s) = holder_get HB t h
                   in if hb_find HB hist stat_name
                      then (Some (put_local t (s\<lparr>server_histograms :=
                              Some (hb_add HB hist stat_name usecs)\<rparr>) h), 0)
                      else (Some h, -1))))"

definition server_histogram_estimatePercentiles ::
    "'c counter_api \<Rightarrow> ('h, 'd) histogram_api \<Rightarrow> ('c, 'ts, 'h) StatsHolder option \<Rightarrow> string \<Rightarrow>
     'd list \<Rightarrow> (i32 \<times> (i64 list \<times> u64 \<times> i64) option) result" where
  "server_histogram_estimatePercentiles SC HB stats_holder stat_name percentiles =
     (case stats_holder of
        None \<Rightarrow> Inr (-1, None)
      | Some h \<Rightarrow>
          (case holder_aggregate_nonew SC HB h of
             Inl e \<Rightarrow> Inl e
           | Inr s \<Rightarrow>
               (case server_histograms s of
                  None \<Rightarrow> Inr (-1, None)
                | Some agg_hist \<Rightarrow>
                    (if hb_find HB agg_hist stat_name
                     then Inr (0, Some (hb_percentiles HB agg_hist stat_name percentiles))
                     else Inr (-1, None)))))"

definition server_histogram_estimatePercentile ::
    "'c counter_api \<Rightarrow> ('h, 'd) histogram_api \<Rightarrow> ('c, 'ts, 'h) StatsHolder option \<Rightarrow> string \<Rightarrow>
     'd \<Rightarrow> i64 result" where
  "server_histogram_estimatePercentile SC HB stats_holder stat_name percentile =
     (case stats_holder of
        None \<Rightarrow> Inr (-1)
      | Some h \<Rightarrow>
          (case holder_aggregate_nonew SC HB h of
             Inl e \<Rightarrow> Inl e
           | Inr s \<Rightarrow>
               (case server_histograms s of
                  None \<Rightarrow> Inr (-1)
                | Some agg_hist \<Rightarrow>
                    (if hb_find HB agg_hist stat_name
                     then Inr (hb_percentile HB agg_hist stat_name percentile)
                     else Inr (-1)))))"

section \<open>Which histograms exist\<close>

text \<open>Every bundle of a holder has exactly the histograms \<open>ServerHistograms::getMap\<close> names.\<close>

definition hist_ok :: "('h, 'd) histogram_api \<Rightarrow> ('c, 'ts, 'h) Stats \<Rightarrow> bool" where
  "hist_ok HB s \<longleftrightarrow>
     (case server_histograms s of
        None \<Rightarrow> True
      | Some hist \<Rightarrow> \<forall>n. hb_find HB hist n \<longleftrightarrow> n \<in> set ServerHistograms_getMap)"

definition holder_hist_ok :: "('h, 'd) histogram_api \<Rightarrow> ('c, 'ts, 'h) StatsHolder \<Rightarrow> bool" where
  "holder_hist_ok HB h \<longleftrightarrow>
     hist_ok HB (dead_stats_' h) \<and> (\<forall>e \<in> set (thread_stats_' h). hist_ok HB (wr_stats (snd e)))"

lemma hist_ok_same: "server_histograms s' = server_histograms s \<Longrightarrow> hist_ok HB s' = hist_ok HB s"
  by (simp add: hist_ok_def)

lemma hist_ok_upd_member [simp]: "hist_ok HB (upd_member x f s) = hist_ok HB s"
  by (rule hist_ok_same) simp

lemma set_umap_put_subset: "set (umap_put k v m) \<subseteq> insert (k, v) (set m)"
  by (induction m) auto

lemma aggregated_hist:
  assumes "stats_ok this" "stats_ok other" "params this = params other"
  shows "server_histograms (aggregated SC HB ov other this) =
    (case server_histograms other of
       None \<Rightarrow> server_histograms this
     | Some inn \<Rightarrow> map_option (\<lambda>out. aggregateHistogram HB ov out inn) (server_histograms this))"
  using assms
  by (auto simp: aggregated_def aggregateCompoundStats_def Let_def stats_ok_def split: option.splits)

lemma run_event_params:
  assumes "holder_ok h" "run_event SC HB TS ev h = Inr h'"
  shows "params_' h' = params_' h"
proof (cases ev)
  case (Ev_exit t)
  with assms show ?thesis
    by (cases "map_of (thread_stats_' h) t")
      (auto simp: thread_exit_some, simp add: thread_exit_def)
qed (use assms in \<open>auto simp: add_with_local set_with_local series_add_with_local erase_result
       holder_reset_def with_local_params\<close>)

lemma run_events_params:
  "holder_ok h \<Longrightarrow> fold_result (run_event SC HB TS) evs h = Inr h' \<Longrightarrow> params_' h' = params_' h"
proof (induction evs arbitrary: h)
  case Nil
  then show ?case by simp
next
  case (Cons ev evs)
  obtain h1 where h1: "run_event SC HB TS ev h = Inr h1" "holder_ok h1"
    using run_event_ok [OF Cons.prems(1)] by blast
  with Cons.IH [OF h1(2)] Cons.prems run_event_params [OF Cons.prems(1) h1(1)] show ?case by simp
qed

lemma server_histogram_add_cases:
  assumes "holder_ok h"
  shows "server_histogram_add HB t (Some h) name v =
    (case server_histograms (local_stats HB t h) of
       None \<Rightarrow> (Some (fst (holder_get HB t h)), -1)
     | Some hist \<Rightarrow>
         if hb_find HB hist name
         then (Some (with_local HB t (\<lambda>s. s\<lparr>server_histograms := Some (hb_add HB hist name v)\<rparr>) h), 0)
         else (Some (fst (holder_get HB t h)), -1))"
proof -
  obtain h' s where hs: "holder_get HB t h = (h', s)" by (cases "holder_get HB t h")
  then have "holder_get HB t h' = (h', s)"
    by (auto simp: holder_get_def Let_def split: option.splits)
  with hs show ?thesis
    by (simp add: server_histogram_add_def local_stats_def with_local_def split: option.split)
qed

context histogram_bundle
begin

lemma hist_ok_new: "hist_ok HB (new_Stats HB p)"
  by (simp add: hist_ok_def find_new)

lemma hist_ok_reset: "hist_ok HB s \<Longrightarrow> hist_ok HB (reset_Stats HB s)"
  by (auto simp: hist_ok_def find_clear split: option.splits)

lemma hist_ok_aggregated:
  assumes "stats_ok this" "stats_ok other" "params this = params other" "hist_ok HB this"
  shows "hist_ok HB (aggregated SC HB None other this)"
  using assms(4)
  by (auto simp: hist_ok_def aggregated_hist [OF assms(1-3)] aggregateHistogram_def find_merge
      split: option.splits)

lemma holder_hist_ok_get:
  "holder_hist_ok HB h \<Longrightarrow> hist_ok HB (local_stats HB t h)"
  by (auto simp: local_stats_def holder_get_def Let_def new_StatsWrapper_def hist_ok_new
      holder_hist_ok_def dest!: map_of_SomeD split: option.split)

lemma holder_hist_ok_with_local:
  assumes "holder_hist_ok HB h" "\<And>s. hist_ok HB s \<Longrightarrow> hist_ok HB (f s)"
  shows "holder_hist_ok HB (with_local HB t f h)"
  using assms set_umap_put_subset holder_hist_ok_get [OF assms(1), of t]
  by (fastforce simp: holder_hist_ok_def with_local_threads)

lemma holder_hist_ok_step:
  assumes "holder_ok h" "holder_hist_ok HB h" "run_event SC HB TS ev h = Inr h'"
  shows "holder_hist_ok HB h'"
proof (cases ev)
  case (Ev_exit t)
  show ?thesis
  proof (cases "map_of (thread_stats_' h) t")
    case None
    with Ev_exit assms show ?thesis by (simp add: thread_exit_def)
  next
    case (Some w)
    have "hist_ok HB (aggregated SC HB None (wr_stats w) (dead_stats_' h))"
      using holder_ok_thread [OF assms(1) Some] holder_ok_dead [OF assms(1)] assms(2)
      by (simp add: hist_ok_aggregated holder_hist_ok_def)
    with Ev_exit assms thread_exit_some [OF assms(1) Some, of SC HB] show ?thesis
      using set_umap_erase [of t "thread_stats_' h"] by (auto simp: holder_hist_ok_def)
  qed
next
  case Ev_reset
  with assms show ?thesis
    by (force simp: holder_hist_ok_def holder_reset_def intro: hist_ok_reset)
next
  case (Ev_erase x k)
  with assms show ?thesis
    by (force simp: holder_hist_ok_def erase_result map_wrappers_def)
qed (use assms in \<open>auto simp: add_with_local set_with_local series_add_with_local upd_counter_def
       upd_series_def intro!: holder_hist_ok_with_local\<close>)

lemma holder_hist_ok_run:
  "holder_ok h \<Longrightarrow> holder_hist_ok HB h \<Longrightarrow> fold_result (run_event SC HB TS) evs h = Inr h' \<Longrightarrow>
     holder_hist_ok HB h'"
proof (induction evs arbitrary: h)
  case Nil
  then show ?case by simp
next
  case (Cons ev evs)
  obtain h1 where h1: "run_event SC HB TS ev h = Inr h1" "holder_ok h1"
    using run_event_ok [OF Cons.prems(1)] by blast
  with Cons.IH [OF h1(2) holder_hist_ok_step [OF Cons.prems(1,2) h1(1)]] Cons.prems(3)
  show ?case by simp
qed

lemma hist_ok_aggregate_all:
  assumes "holder_ok h"
  shows "hist_ok HB (aggregate_all SC HB h)"
proof -
  have "hist_ok HB (fold (\<lambda>e. aggregated SC HB None (wr_stats (snd e))) es s)"
    if "part_ok p s" "\<And>e. e \<in> set es \<Longrightarrow> part_ok p (wr_stats (snd e))" "hist_ok HB s" for p es s
    using that
  proof (induction es arbitrary: s)
    case (Cons e es)
    from Cons.prems(2) have e: "part_ok p (wr_stats (snd e))" by simp
    have "hist_ok HB (aggregated SC HB None (wr_stats (snd e)) s)"
      using Cons.prems(1,3) e by (simp add: part_ok_def hist_ok_aggregated)
    with Cons e show ?case by (simp add: part_ok_aggregated)
  qed simp
  moreover have "hist_ok HB (aggregated SC HB None (dead_stats_' h) (new_Stats HB (params_' h)))"
    using holder_ok_dead [OF assms] by (simp add: hist_ok_aggregated hist_ok_new)
  ultimately show ?thesis
    unfolding aggregate_all_def
    using part_ok_start [OF assms] part_ok_thread [OF assms] by blast
qed

lemma add_status:
  assumes "holder_ok h" "holder_hist_ok HB h"
  shows "\<exists>h'. server_histogram_add HB t (Some h) name v =
      (Some h', if is_server (params_' h) \<and> name \<in> set ServerHistograms_getMap then 0 else -1) \<and>
    holder_ok h'"
proof -
  obtain h1 s where hs: "holder_get HB t h = (h1, s)" by (cases "holder_get HB t h")
  note get = holder_get_ok [OF assms(1) hs]
  have s: "local_stats HB t h = s" by (simp add: local_stats_def hs)
  have hist: "hist_ok HB s"
    using holder_hist_ok_get [OF assms(2), of t] by (simp add: s)
  show ?thesis
  proof (cases "server_histograms s")
    case None
    then show ?thesis
      using get by (auto simp: server_histogram_add_cases [OF assms(1)] s hs stats_ok_def)
  next
    case (Some hist)
    then have "holder_ok (put_local t (s\<lparr>server_histograms := Some (hb_add HB hist name v)\<rparr>) h1)"
      using get by (intro put_local_ok) (auto simp: stats_ok_def)
    then show ?thesis
      using get hist Some
      by (auto simp: server_histogram_add_cases [OF assms(1)] s hs stats_ok_def hist_ok_def
          with_local_def)
  qed
qed

lemma estimate_status:
  assumes "holder_ok h"
  shows "\<exists>out. server_histogram_estimatePercentiles SC HB (Some h) name ps =
      Inr (if is_server (params_' h) \<and> name \<in> set ServerHistograms_getMap then 0 else -1, out) \<and>
    (out \<noteq> None \<longleftrightarrow> is_server (params_' h) \<and> name \<in> set ServerHistograms_getMap)"
proof -
  let ?s = "aggregate_all SC HB h"
  have "part_ok (params_' h) ?s" by (rule holder_aggregate_success(2) [OF assms])
  then have "(server_histograms ?s \<noteq> None) = is_server (params_' h)"
    by (simp add: part_ok_def stats_ok_def)
  then show ?thesis
    using hist_ok_aggregate_all [OF assms, of SC]
    by (auto simp: server_histogram_estimatePercentiles_def holder_aggregate_nonew_eq
        holder_aggregate_success(1) [OF assms] hist_ok_def split: option.splits)
      (metis prod_cases3)
qed

lemma holder_hist_ok_new: "holder_hist_ok HB (new_StatsHolder HB p)"
  by (simp add: holder_hist_ok_def new_StatsHolder_def hist_ok_new)

end

end
