(* ===== verification/Stats_Properties.thy ===== *)
theory Stats_Properties
  imports Stats_Ffi
begin

text \<open>
  The guarantees of the statistics component, stated over its operations. The shared witness data
  is the 64-bit counter and the bundle that keeps its samples, a non-server configuration and a
  short run of two threads.
\<close>

section \<open>Concrete data\<close>

text \<open>A series that keeps its samples, newest first, and rates as sums over the interval.\<close>

definition sample_series :: "((int \<times> i64) list, int) series_api" where
  "sample_series =
     \<lparr>ts_new = (\<lambda>buckets intervals. []),
      ts_addValue = (\<lambda>ts now v. (now, v) # ts),
      ts_update = (\<lambda>ts now. ts),
      ts_rate = (\<lambda>ts from until.
        sum_list (map (sint \<circ> snd) (filter (\<lambda>(t, _). from \<le> t \<and> t < until) ts)))\<rparr>"

definition int_double :: "int double_api" where
  "int_double = \<lparr>d_zero = 0, d_add = (+), d_mul = (*), d_div = (div), d_of_int = id\<rparr>"

definition demo_events :: "stats_event list" where
  "demo_events =
     [Ev_add 1 M_stream ''append_total'' ''s1'' 5,
      Ev_add 2 M_stream ''append_total'' ''s1'' 7,
      Ev_series 1 M_stream ''append_in_bytes'' ''s1'' 100 0,
      Ev_exit 1,
      Ev_add 2 M_stream ''append_failed'' ''s1'' 1]"

abbreviation demo_params :: StatsParams where
  "demo_params \<equiv> new_StatsParams"

definition demo_holder :: "(i64, (int \<times> i64) list, (string \<times> i64 list) list) StatsHolder" where
  "demo_holder =
     the (PER_X_STAT_ADD int64_counter sample_bundle 2
       (PER_X_STAT_ADD int64_counter sample_bundle 1
         (Some (new_StatsHolder sample_bundle demo_params))
         M_stream ''append_total'' ''s1'' 5)
       M_stream ''append_total'' ''s1'' 7)"

lemma demo_holder_ok: "holder_ok demo_holder"
  unfolding demo_holder_def add_with_local
  by (simp add: add_with_local with_local_ok upd_counter_ok new_StatsHolder_ok)

lemma demo_counter: "is_counter M_stream ''append_total''"
  by (simp add: is_counter_def per_stream_stats_inc_def)

lemma demo_holder_s1:
  "key_count demo_holder M_stream ''s1'' = 2"
  "total_value int64_counter demo_holder M_stream ''s1'' ''append_total'' = 12"
  by (simp_all add: key_count_def total_value_def stat_value_def map_value_def demo_holder_def
      add_with_local with_local_threads new_StatsHolder_def local_stats_def holder_get_def
      new_StatsWrapper_def Let_def upd_counter_def new_Stats_def int64_counter_def)

section \<open>Reading aggregated statistics\<close>

lemma get_aggregate:
  assumes "stats_counter SC" "holder_ok h" "is_counter x n"
  shows "PER_X_STAT_GET SC (Some (aggregate_all SC HB h)) x n k =
    (if key_count h x k = 0 \<or> total_value SC h x k n <s 0 then -1 else total_value SC h x k n)"
proof -
  note known = aggregate_all_known [OF assms(2) is_counter_not_handle [OF assms(3)]]
  have "ctr_load SC (counters p n) = total_value SC h x k n"
    if "map_of (get_member x (aggregate_all SC HB h)) k = Some p" for p
    using stats_counter.aggregate_all_value [OF assms, of HB k] that
    by (simp add: stat_value_def map_value_def)
  then show ?thesis
    using known [of SC HB k]
    by (cases "map_of (get_member x (aggregate_all SC HB h)) k")
      (simp_all add: PER_X_STAT_GET_def Let_def)
qed

lemma cppMapToHs_lookup:
  assumes "umap_wf m"
  shows "cppMapToHs m (\<lambda>k. k) f = (l, ks, vs) \<Longrightarrow>
    distinct ks \<and> length vs = length ks \<and> l = of_nat (length ks) \<and>
    map_of (zip ks vs) k = map_option f (map_of m k)"
proof -
  have "map_of (zip (map fst m) (map (f \<circ> snd) m)) k = map_option f (map_of m k)"
    by (induction m) auto
  then show "cppMapToHs m (\<lambda>k. k) f = (l, ks, vs) \<Longrightarrow> ?thesis"
    using assms by (auto simp: cppMapToHs_def case_prod_unfold comp_def)
qed

section \<open>Guarantees\<close>

text \<open>
  \<^bold>\<open>C1.\<close> For every sequence of adds, assignments, time series updates,
  erases, resets and thread exits by any threads, starting from
  a new holder, aggregation succeeds and every counter that was never assigned directly reads as
  the sum (modulo 2^64) of the values added to it since its object was last erased or the holder
  reset, no matter which threads added them and which of those threads have exited.
\<close>

theorem aggregate_is_sum_of_adds:
  fixes SC :: "'c counter_api" and HB :: "('h, 'e) histogram_api"
    and TS :: "('ts, 'd) series_api"
  assumes "stats_counter SC" "is_counter x n" "\<forall>ev \<in> set evs. \<not> sets_counter ev x k n"
  shows "\<exists>(h :: ('c, 'ts, 'h) StatsHolder) s. fold_result (run_event SC HB TS) evs (new_StatsHolder HB p) = Inr h \<and>
    holder_aggregate SC HB h = Inr s \<and>
    stat_value SC x s k n = added_since evs x k n 0"
proof -
  obtain h :: "('c, 'ts, 'h) StatsHolder"
    where h: "fold_result (run_event SC HB TS) evs (new_StatsHolder HB p) = Inr h" "holder_ok h"
    using run_events_ok [OF new_StatsHolder_ok] by blast
  then show ?thesis
    using total_trace [OF assms(1) new_StatsHolder_ok assms(2,3) h(1)]
      stats_counter.aggregate_all_value [OF assms(1) h(2) assms(2), of HB k]
      holder_aggregate_success(1) [OF h(2), of SC HB]
    by auto
qed

theorem aggregate_is_sum_of_adds_witness:
  "\<exists>(h :: (i64, (int \<times> i64) list, (string \<times> i64 list) list) StatsHolder) s.
     fold_result (run_event int64_counter sample_bundle sample_series) demo_events
       (new_StatsHolder sample_bundle demo_params) = Inr h \<and>
     holder_aggregate int64_counter sample_bundle h = Inr s \<and>
     stat_value int64_counter M_stream s ''s1'' ''append_total'' = 12"
  using aggregate_is_sum_of_adds [OF int64.stats_counter_axioms demo_counter,
      of demo_events "''s1''" sample_bundle sample_series demo_params]
  by (simp add: demo_events_def)

text \<open>
  \<^bold>\<open>C2.\<close> Every operation on the counters of a well-formed holder, a thread's exit included, succeeds,
  keeps the holder well-formed and acts on the contributions of the threads exactly as the abstract
  machine prescribes: add and set change one counter of the calling thread only, erase and reset
  clear all threads and the exited ones, an exit moves the thread's contribution to the exited ones.
\<close>

theorem stats_event_refines:
  assumes "stats_counter SC" "holder_ok h" "event_ok ev"
  shows "\<exists>h'. run_event SC HB TS ev h = Inr h' \<and> holder_ok h' \<and>
    abs_holder SC h' = spec_event ev (abs_holder SC h)"
  using run_event_ok [OF assms(2)] stats_counter.abs_step [OF assms] by blast

theorem stats_event_refines_witness:
  "\<exists>h'. run_event int64_counter sample_bundle sample_series (Ev_exit 1) demo_holder = Inr h' \<and> holder_ok h' \<and>
     abs_holder int64_counter h' = spec_event (Ev_exit 1) (abs_holder int64_counter demo_holder)"
  using stats_event_refines [OF int64.stats_counter_axioms demo_holder_ok, of "Ev_exit 1"
      sample_bundle sample_series]
  by simp

text \<open>
  \<^bold>\<open>C3.\<close> Each thread's statistics are accounted once: when a thread exits, no check fails, the
  thread leaves the list, and an aggregation taken after the exit has the same objects and the same
  value for every counter as one taken before it.
\<close>

theorem thread_exit_invisible:
  assumes "stats_counter SC" "holder_ok h"
  shows "\<exists>h' s s'. thread_exit SC HB t h = Inr h' \<and> map_of (thread_stats_' h') t = None \<and>
    holder_aggregate SC HB h = Inr s \<and> holder_aggregate SC HB h' = Inr s' \<and>
    (\<forall>x k n. is_counter x n \<longrightarrow>
       (map_of (get_member x s') k = None \<longleftrightarrow> map_of (get_member x s) k = None) \<and>
       stat_value SC x s' k n = stat_value SC x s k n)"
proof -
  obtain h' where h': "thread_exit SC HB t h = Inr h'"
    using thread_exit_total [OF assms(2)] by blast
  note ok' = thread_exit_ok [OF assms(2) h']
  have "map_of (get_member x (aggregate_all SC HB h')) k = None \<longleftrightarrow>
      map_of (get_member x (aggregate_all SC HB h)) k = None" if "x \<noteq> M_handle" for x k
    using exit_keys [OF assms(2) h' that] that
    by (intro dom_eq_None) (simp add: aggregate_all_keys assms(2) ok')
  then show ?thesis
    using h' stats_counter.exit_values(3) [OF assms h'] exit_gone [OF h']
    by (auto simp: holder_aggregate_success [OF assms(2)] holder_aggregate_success [OF ok']
        stats_counter.aggregate_all_value [OF assms(1)] assms(2) ok' is_counter_not_handle)
qed

theorem thread_exit_invisible_witness:
  "\<exists>h' s s'. thread_exit int64_counter sample_bundle 1 demo_holder = Inr h' \<and>
     map_of (thread_stats_' h') 1 = None \<and>
     holder_aggregate int64_counter sample_bundle demo_holder = Inr s \<and>
     holder_aggregate int64_counter sample_bundle h' = Inr s' \<and>
     stat_value int64_counter M_stream s' ''s1'' ''append_total'' =
       stat_value int64_counter M_stream s ''s1'' ''append_total''"
  using thread_exit_invisible [OF int64.stats_counter_axioms demo_holder_ok, of sample_bundle 1]
    demo_counter
  by blast

text \<open>
  \<^bold>\<open>C4.\<close> Reading a counter from an aggregation returns -1 exactly when no thread, running or
  exited, knows the object or when the total is negative as a signed number; otherwise it returns
  the total over all threads.
\<close>

theorem stat_get_of_aggregate:
  assumes "stats_counter SC" "holder_ok h" "is_counter x n"
  shows "\<exists>s. holder_aggregate SC HB h = Inr s \<and>
    PER_X_STAT_GET SC (Some s) x n k =
      (if key_count h x k = 0 \<or> total_value SC h x k n <s 0 then -1 else total_value SC h x k n)"
  using get_aggregate [OF assms] holder_aggregate_success(1) [OF assms(2)] by blast

theorem stat_get_of_aggregate_witness:
  "\<exists>s. holder_aggregate int64_counter sample_bundle demo_holder = Inr s \<and>
     PER_X_STAT_GET int64_counter (Some s) M_stream ''append_total'' ''s1'' = 12"
  using stat_get_of_aggregate [OF int64.stats_counter_axioms demo_holder_ok demo_counter,
      of sample_bundle "''s1''"]
  by (simp add: demo_holder_s1 word_sless_alt)

text \<open>
  \<^bold>\<open>C5.\<close> Erasing an object removes it from every thread and from the exited ones: it reports how
  many of the per-thread maps held the object, afterwards reading any of its counters from an
  aggregation gives -1, and all counters of other objects read as before.
\<close>

theorem stat_erase_correct:
  assumes "stats_counter SC" "holder_ok h"
  shows "\<exists>h' s s'. perXStatsErase (Some h) x k = (Some h', of_nat (key_count h x k)) \<and>
    holder_ok h' \<and> holder_aggregate SC HB h = Inr s \<and> holder_aggregate SC HB h' = Inr s' \<and>
    (\<forall>x' k' n. is_counter x' n \<longrightarrow>
       PER_X_STAT_GET SC (Some s') x' n k' =
         (if (x', k') = (x, k) then -1 else PER_X_STAT_GET SC (Some s) x' n k'))"
proof -
  obtain h' where h': "perXStatsErase (Some h) x k = (Some h', of_nat (key_count h x k))"
    by (simp add: erase_result)
  note ok' = erase_ok [OF assms(2) h']
  have "key_count h' x' k' = (if (x', k') = (x, k) then 0 else key_count h x' k')" for x' k'
    using h' by (rule erase_key_count)
  then show ?thesis
    using h' ok' assms
    by (auto simp: holder_aggregate_success get_aggregate erase_total [OF h'])
qed

theorem stat_erase_correct_witness:
  "\<exists>h' s s'. perXStatsErase (Some demo_holder) M_stream ''s1'' =
       (Some h', of_nat (key_count demo_holder M_stream ''s1'')) \<and>
     holder_ok h' \<and> holder_aggregate int64_counter sample_bundle demo_holder = Inr s \<and>
     holder_aggregate int64_counter sample_bundle h' = Inr s' \<and>
     PER_X_STAT_GET int64_counter (Some s') M_stream ''append_total'' ''s1'' = -1"
  using stat_erase_correct [OF int64.stats_counter_axioms demo_holder_ok, of M_stream "''s1''"
      sample_bundle] demo_counter
  by fastforce

text \<open>
  Setting a counter replaces the calling thread's contribution only: what an aggregation
  reports for it becomes the old total minus that thread's old contribution plus the new value,
  and no other counter changes.
\<close>

theorem stat_set_replaces_local:
  assumes "stats_counter SC" "holder_ok h" "is_counter x n"
  shows "\<exists>h' s. PER_X_STAT_SET SC HB t (Some h) x n k v = Some h' \<and>
    holder_aggregate SC HB h' = Inr s \<and>
    (\<forall>x' k' n'. is_counter x' n' \<longrightarrow>
       stat_value SC x' s k' n' =
         (if (x', k', n') = (x, k, n)
          then total_value SC h x k n - thread_value SC h t x k n + v
          else total_value SC h x' k' n'))"
proof -
  obtain h' where h': "PER_X_STAT_SET SC HB t (Some h) x n k v = Some h'"
    by (simp add: set_with_local)
  note ok' = set_ok [OF assms(2) h']
  show ?thesis
    using h' ok' stats_counter.set_total [OF assms(1,2) h']
    by (auto simp: holder_aggregate_success stats_counter.aggregate_all_value [OF assms(1)])
qed

theorem stat_set_replaces_local_witness:
  "\<exists>h' s. PER_X_STAT_SET int64_counter sample_bundle 1 (Some demo_holder)
        M_stream ''append_total'' ''s1'' 100 = Some h' \<and>
     holder_aggregate int64_counter sample_bundle h' = Inr s \<and>
     stat_value int64_counter M_stream s ''s1'' ''append_total'' =
       total_value int64_counter demo_holder M_stream ''s1'' ''append_total''
       - thread_value int64_counter demo_holder 1 M_stream ''s1'' ''append_total'' + 100"
  using stat_set_replaces_local [OF int64.stats_counter_axioms demo_holder_ok demo_counter,
      of sample_bundle 1 "''s1''" 100] demo_counter
  by fastforce

text \<open>
  \<^bold>\<open>C6.\<close> Listing a counter over all objects: with a name from the member's table the call succeeds
  and returns each object some thread knows exactly once, paired with its total over all threads;
  with any other name it returns -1 and writes nothing.
\<close>

theorem stat_getall_correct:
  assumes "stats_counter SC" "holder_ok h" "x \<noteq> M_handle"
  shows "perXStatsGetall SC HB (Some h) x n (set_stat_member (member_table x)) =
      Inr (-1, None) \<and> \<not> is_counter x n \<or>
    (\<exists>ks vs. perXStatsGetall SC HB (Some h) x n (set_stat_member (member_table x)) =
         Inr (0, Some (of_nat (length ks), ks, vs)) \<and>
       is_counter x n \<and> distinct ks \<and> length vs = length ks \<and>
       (\<forall>k. map_of (zip ks vs) k =
          (if key_count h x k = 0 then None else Some (total_value SC h x k n))))"
proof (cases "is_counter x n")
  case False
  then have "set_stat_member (member_table x) n None = None"
    by (simp add: is_counter_def set_stat_member_eq)
  then show ?thesis
    using False holder_aggregate_success(1) [OF assms(2), of SC HB]
    by (simp add: perXStatsGetall_def holder_aggregate_nonew_eq)
next
  case True
  let ?m = "get_member x (aggregate_all SC HB h)" and ?f = "\<lambda>p. ctr_load SC (counters p n)"
  have "set_stat_member (member_table x) n None = Some n"
    using True by (simp add: is_counter_def set_stat_member_eq)
  then have res: "perXStatsGetall SC HB (Some h) x n (set_stat_member (member_table x)) =
      Inr (0, Some (cppMapToHs ?m (\<lambda>k. k) ?f))"
    using holder_aggregate_success(1) [OF assms(2), of SC HB]
    by (simp add: perXStatsGetall_def holder_aggregate_nonew_eq)
  obtain l ks vs where lkv: "cppMapToHs ?m (\<lambda>k. k) ?f = (l, ks, vs)"
    using prod_cases3 by blast
  have "umap_wf ?m"
    using holder_aggregate_success(2) [OF assms(2), of SC HB] by (simp add: part_ok_def stats_okD)
  note lookup = cppMapToHs_lookup [OF this lkv]
  have "map_option ?f (map_of ?m k) =
      (if key_count h x k = 0 then None else Some (total_value SC h x k n))" for k
    using aggregate_all_known [OF assms(2,3), of SC HB k]
      stats_counter.aggregate_all_value [OF assms(1,2) True, of HB k]
    by (cases "map_of ?m k") (simp_all add: stat_value_def map_value_def)
  with lookup res lkv True show ?thesis by auto
qed

theorem stat_getall_correct_witness:
  "\<exists>ks vs. perXStatsGetall int64_counter sample_bundle (Some demo_holder) M_stream ''append_total''
       (set_stat_member (member_table M_stream)) = Inr (0, Some (of_nat (length ks), ks, vs))"
  using stat_getall_correct [OF int64.stats_counter_axioms demo_holder_ok, of M_stream sample_bundle
      "''append_total''"] demo_counter
  by auto

section \<open>Time series\<close>

text \<open>
  \<^bold>\<open>C7.\<close> Reading the rates of one object: with a query name of the table, the call returns 0
  exactly when some thread has the series for the object, and it adds to the caller's values, in the
  order exited threads first and then the running ones, the per-second rates of each such series
  after bringing it up to date, each at its own clock reading. No counter of the holder changes.
\<close>

theorem stream_rates_correct:
  assumes "holder_ok h" "e \<in> set per_stream_time_series_inc" "stat_name \<in> set (ts_strings e)"
  shows "\<exists>h'. stream_time_series_get TS D clk h stat_name key ms_intervals vals =
      (if series_list h M_stream (ts_name e) key = [] then -1 else 0, h',
       fold (\<lambda>(i, ts). rate_step TS D (clk i) ms_intervals ts)
         (enumerate 0 (series_list h M_stream (ts_name e) key)) vals) \<and>
    holder_ok h' \<and> (\<forall>x k n. total_value SC h' x k n = total_value SC h x k n)"
proof -
  have "setPerStreamTimeSeriesMember stat_name None = Some (ts_name e)"
    using stream_ts.resolve_known [OF assms(2,3)] by (simp add: setPerStreamTimeSeriesMember_def)
  from perXTimeSeriesGet_eq [where find_member = setPerStreamTimeSeriesMember, OF assms(1) this,
      of TS D clk key M_stream ms_intervals vals]
  show ?thesis
    using perXTimeSeriesGet_frame [OF assms(1)] unfolding stream_time_series_get_def by blast
qed

definition demo_series_holder :: "(i64, (int \<times> i64) list, (string \<times> i64 list) list) StatsHolder" where
  "demo_series_holder =
     the (PER_X_TIME_SERIES_ADD int64_counter sample_bundle sample_series 990 2
       (Some demo_holder) M_stream ''append_in_bytes'' ''s1'' 7)"

lemma demo_series_holder_ok: "holder_ok demo_series_holder"
  using series_add_ok [OF demo_holder_ok]
  by (simp add: demo_series_holder_def series_add_with_local)

theorem stream_rates_correct_witness:
  "\<exists>h'. stream_time_series_get sample_series int_double (\<lambda>_. 1000) demo_series_holder
       ''appends'' ''s1'' [60, 5] [1, 2] = (0, h', [7001, 2])"
proof -
  let ?e = "hd per_stream_time_series_inc"
  have e: "?e \<in> set per_stream_time_series_inc" "''appends'' \<in> set (ts_strings ?e)"
    "ts_name ?e = ''append_in_bytes''"
    by (simp_all add: per_stream_time_series_inc_def)
  have "series_list demo_series_holder M_stream ''append_in_bytes'' ''s1'' = [[(990, 7)]]"
    by (simp add: demo_series_holder_def series_add_with_local series_list_def all_stats_def
        with_local_threads demo_holder_def add_with_local new_StatsHolder_def local_stats_def
        holder_get_def new_StatsWrapper_def Let_def upd_counter_def upd_series_def new_Stats_def
        series_in_def map_filter_simps wrapper_addValue_def sample_series_def)
  then show ?thesis
    using stream_rates_correct [OF demo_series_holder_ok e(1,2), of sample_series int_double
        "\<lambda>_. 1000" "''s1''" "[60, 5]" "[1, 2]" int64_counter] e(3)
    by (auto simp: rate_step_def add_rates_def series_rates_def sample_series_def int_double_def)
qed

text \<open>
  Listing the rates of all objects agrees with asking for each object separately: when the
  clock does not advance during the calls, the list has each object once, it contains an object
  exactly when the single query succeeds for it, and the values are those of the single query
  started from zeros.
\<close>

theorem rates_getall_agrees_with_get:
  assumes "holder_ok h" "find_member stat_name None = Some n"
  shows "\<exists>h' ks vs. perXTimeSeriesGetall TS D (\<lambda>_. now) h stat_name find_member x ms_intervals =
      (0, h', Some (of_nat (length ks), ks, vs)) \<and> distinct ks \<and> length vs = length ks \<and>
    (\<forall>k. map_of (zip ks vs) k =
       (case perXTimeSeriesGet TS D (\<lambda>_. now) h stat_name k find_member x ms_intervals
               (replicate (length ms_intervals) (d_zero D)) of
          (r, _, vals) \<Rightarrow> if r = 0 then Some vals else None))"
proof -
  obtain h' out where out: "perXTimeSeriesGetall TS D (\<lambda>_. now) h stat_name find_member x ms_intervals =
      (0, h', Some (cppMapToHs out (\<lambda>k. k) (\<lambda>v. v)))" "umap_wf out"
    "\<And>k. map_of out k = (if series_list h x n k = [] then None
      else Some (fold (rate_step TS D now ms_intervals) (series_list h x n k)
                   (replicate (length ms_intervals) (d_zero D))))"
    using perXTimeSeriesGetall_eq [where find_member = find_member, OF assms] by blast
  obtain l ks vs where lkv: "cppMapToHs out (\<lambda>k. k) (\<lambda>v. v) = (l, ks, vs)"
    using prod_cases3 by blast
  have "map_of out k = (case perXTimeSeriesGet TS D (\<lambda>_. now) h stat_name k find_member x
        ms_intervals (replicate (length ms_intervals) (d_zero D)) of
          (r, _, vals) \<Rightarrow> if r = 0 then Some vals else None)" for k
    using perXTimeSeriesGet_eq [where find_member = find_member and vals =
        "replicate (length ms_intervals) (d_zero D)", OF assms, of TS D "\<lambda>_. now" k x ms_intervals]
    by (auto simp: out(3) fold_enumerate_snd)
  then show ?thesis
    using out(1) cppMapToHs_lookup [OF out(2) lkv] lkv by (auto simp: option.map_ident)
qed

theorem rates_getall_agrees_with_get_witness:
  "\<exists>h' ks vs. perXTimeSeriesGetall sample_series int_double (\<lambda>_. 1000) demo_series_holder
       ''appends'' setPerStreamTimeSeriesMember M_stream [60, 5] =
       (0, h', Some (of_nat (length ks), ks, vs)) \<and> distinct ks \<and> length vs = length ks"
proof -
  have "setPerStreamTimeSeriesMember ''appends'' None = Some ''append_in_bytes''"
    by (simp add: setPerStreamTimeSeriesMember_def per_stream_time_series_inc_def)
  then show ?thesis
    using rates_getall_agrees_with_get [OF demo_series_holder_ok,
        of setPerStreamTimeSeriesMember "''appends''" "''append_in_bytes''"]
    by blast
qed

text \<open>
  The check of requested intervals: for a query name of the stream table the intervals are
  accepted exactly when none exceeds the last interval the parameters configure for the series that
  the same name selects for reading, and an error message is produced exactly when they are rejected.
\<close>

theorem stream_verify_intervals_correct:
  assumes "e \<in> set per_stream_time_series_inc" "stat_name \<in> set (ts_strings e)"
  shows "\<exists>ok err. per_stream_verify_intervals debug chrono_string p stat_name ms_intervals =
      Inr (ok, err) \<and>
    (ok \<longleftrightarrow> (\<forall>i \<in> set ms_intervals. i \<le> last (time_intervals p (ts_name e)))) \<and>
    (err = None \<longleftrightarrow> ok) \<and>
    setPerStreamTimeSeriesMember stat_name None = Some (ts_name e)"
  using stream_ts.resolve_known [OF assms, of debug p]
    check_intervals_ok [of chrono_string "last (time_intervals p (ts_name e))" ms_intervals]
    check_intervals_err [of chrono_string "last (time_intervals p (ts_name e))" ms_intervals]
  by (cases "check_intervals chrono_string (last (time_intervals p (ts_name e))) ms_intervals")
    (simp add: per_stream_verify_intervals_def verify_intervals_def maxStreamStatsInterval_def
      setPerStreamTimeSeriesMember_def)

theorem stream_verify_intervals_correct_witness:
  "\<exists>err. per_stream_verify_intervals True (\<lambda>_. ''1h'') new_StatsParams ''appends'' [1000, 600001] =
     Inr (False, Some err)"
proof -
  let ?e = "hd per_stream_time_series_inc"
  have e: "?e \<in> set per_stream_time_series_inc" "''appends'' \<in> set (ts_strings ?e)"
    "ts_name ?e = ''append_in_bytes''"
    by (simp_all add: per_stream_time_series_inc_def)
  then show ?thesis
    using stream_verify_intervals_correct [OF e(1,2), of True "\<lambda>_. ''1h''" new_StatsParams
        "[1000, 600001]"]
    by (auto simp: new_StatsParams_def all_time_series_def per_stream_time_series_inc_def
        default_intervals_def seconds_def)
qed

section \<open>Copies, histograms and shutdown\<close>

text \<open>
  The copy constructor copies: the result has the same objects and the same value for every
  counter of every table, and for a server the histograms of the original.
\<close>

theorem copy_Stats_correct:
  assumes "stats_counter SC" "stats_ok other"
  shows "\<exists>s. copy_Stats SC HB other = Inr s \<and> stats_ok s \<and> params s = params other \<and>
    server_histograms s = server_histograms other \<and>
    (\<forall>x k. x \<noteq> M_handle \<longrightarrow>
       (map_of (get_member x s) k = None \<longleftrightarrow> map_of (get_member x other) k = None)) \<and>
    (\<forall>x k n. is_counter x n \<longrightarrow> stat_value SC x s k n = stat_value SC x other k n)"
proof -
  let ?new = "new_Stats HB (params other)"
  let ?s = "aggregated SC HB (Some AGG_ASSIGN) other ?new"
  have pre: "stats_ok ?new" "stats_ok other" "params ?new = params other"
    using assms(2) by auto
  note mem = aggregated_member [OF pre]
  have "map_of (get_member x ?s) k = None \<longleftrightarrow> map_of (get_member x other) k = None"
    if "x \<noteq> M_handle" for x k
    using that stats_okD [OF assms(2), of x]
    by (intro dom_eq_None) (simp add: mem per_stats_aggregate_keys)
  moreover have "stat_value SC x ?s k n = stat_value SC x other k n" if "is_counter x n" for x k n
    using that is_counter_not_handle [OF that] stats_counter.map_value_aggregate_assign
      [OF assms(1) stats_okD [OF assms(2)] member_table_ok]
    by (auto simp: stat_value_def mem is_counter_def map_value_def split: option.split)
  moreover have "server_histograms ?s = server_histograms other"
    using assms(2) by (auto simp: aggregated_hist [OF pre] aggregateHistogram_def stats_ok_def
        split: option.split)
  moreover have "copy_Stats SC HB other = Inr ?s"
    by (simp add: copy_Stats_def Stats_aggregate_def aggregateCompoundStats_success [OF pre])
  ultimately show ?thesis
    using aggregated_ok [OF pre, of SC HB "Some AGG_ASSIGN"]
    by (intro exI [of _ ?s]) simp
qed

theorem copy_Stats_correct_witness:
  "\<exists>s. copy_Stats int64_counter sample_bundle (local_stats sample_bundle 1 demo_holder) = Inr s \<and>
     stat_value int64_counter M_stream s ''s1'' ''append_total'' = 5"
proof -
  have "stats_ok (local_stats sample_bundle 1 demo_holder)"
    using holder_get_ok [OF demo_holder_ok, of sample_bundle 1]
    by (cases "holder_get sample_bundle 1 demo_holder") (simp add: local_stats_def)
  moreover have "stat_value int64_counter M_stream (local_stats sample_bundle 1 demo_holder)
      ''s1'' ''append_total'' = 5"
    by (simp add: local_stats_value thread_value_def stat_value_def map_value_def demo_holder_def
        add_with_local with_local_threads new_StatsHolder_def local_stats_def holder_get_def
        new_StatsWrapper_def Let_def upd_counter_def new_Stats_def int64_counter_def)
  ultimately show ?thesis
    using copy_Stats_correct [OF int64.stats_counter_axioms, of
        "local_stats sample_bundle 1 demo_holder" sample_bundle] demo_counter
    by fastforce
qed

text \<open>
  After any run of operations from a new holder, recording a latency and estimating
  percentiles succeed with status 0 exactly when the holder was created for a server and the name is
  one of the server histograms; in every other case the status is -1, nothing is written, and the
  holder stays well-formed.
\<close>

theorem server_histogram_status:
  assumes "histogram_bundle HB"
    and "fold_result (run_event SC HB TS) evs (new_stats_holder HB srv) = Inr h"
  shows "\<exists>h' r q out. server_histogram_add HB t (Some h) name v = (Some h', r) \<and> holder_ok h' \<and>
    r = (if srv \<and> name \<in> set ServerHistograms_getMap then 0 else -1) \<and>
    server_histogram_estimatePercentiles SC HB (Some h) name ps = Inr (q, out) \<and>
    q = (if srv \<and> name \<in> set ServerHistograms_getMap then 0 else -1) \<and>
    (out \<noteq> None \<longleftrightarrow> q = 0)"
proof -
  let ?p = "setIsServer srv new_StatsParams"
  have ok: "holder_ok h"
    using run_events_ok [OF new_StatsHolder_ok, of SC HB TS evs HB ?p] assms(2)
    by (simp add: new_stats_holder_def)
  have p: "params_' h = ?p"
    using run_events_params [OF new_StatsHolder_ok, of SC HB TS evs HB ?p] assms(2)
    by (simp add: new_stats_holder_def new_StatsHolder_def)
  have hist: "holder_hist_ok HB h"
    using histogram_bundle.holder_hist_ok_run [OF assms(1) new_StatsHolder_ok
        histogram_bundle.holder_hist_ok_new [OF assms(1)]] assms(2)
    by (simp add: new_stats_holder_def)
  have "is_server (params_' h) = srv" by (simp add: p setIsServer_def)
  then show ?thesis
    using histogram_bundle.add_status [OF assms(1) ok hist, of t name v]
      histogram_bundle.estimate_status [OF assms(1) ok, of SC name ps]
    by auto
qed

theorem server_histogram_status_witness:
  "\<exists>h. fold_result (run_event int64_counter sample_bundle sample_series) demo_events
       (new_stats_holder sample_bundle True) = Inr h \<and>
     (\<exists>h'. server_histogram_add sample_bundle 2 (Some h) ''append_latency'' 250 = (Some h', 0))"
proof -
  obtain h :: "(i64, (int \<times> i64) list, (string \<times> i64 list) list) StatsHolder" where
    h: "fold_result (run_event int64_counter sample_bundle sample_series) demo_events
      (new_stats_holder sample_bundle True) = Inr h"
    using run_events_ok [OF new_StatsHolder_ok] unfolding new_stats_holder_def by blast
  then show ?thesis
    using server_histogram_status [OF samples.histogram_bundle_axioms h, of 2 "''append_latency''" 250]
    by (auto simp: ServerHistograms_getMap_def)
qed

text \<open>
  Once a holder is destroyed, the exit of a thread that used it neither fails nor touches
  the statistics of the holder.
\<close>

theorem exit_after_destruction:
  "\<exists>h'. thread_exit SC HB t (delete_stats_holder h) = Inr h' \<and> dead_stats_' h' = dead_stats_' h"
proof -
  have "\<not> wr_owner w" if "map_of (thread_stats_' (delete_stats_holder h)) t = Some w" for w
    using map_of_SomeD [OF that] by (auto simp: delete_stats_holder_def delete_StatsHolder_def)
  then show ?thesis
    by (auto simp: thread_exit_def delete_StatsWrapper_def delete_stats_holder_def
        delete_StatsHolder_def split: option.split)
qed

end
