(* ===== verification/Admin_Names.thy ===== *)
theory Admin_Names
  imports HS_Prelude
begin

text \<open>
  \<open>NameNormalizer\<close> of \<open>common/hstream/cbits/query/tables/AdminCommandTable.cpp\<close>, which maps the
  column headers of a server's response to the column names of the virtual tables.
\<close>

section \<open>Definitions\<close>

abbreviation underscore :: char where
  "underscore \<equiv> CHR ''_''"

text \<open>The lambda \<open>strip_chars\<close>; \<open>tolower\<close> on an upper case ASCII letter adds 32.\<close>

definition strip_chars :: "char \<Rightarrow> char" where
  "strip_chars ch =
     (let n = of_char ch :: nat in
      if 48 \<le> n \<and> n \<le> 57 then ch
      else if 97 \<le> n \<and> n \<le> 122 then ch
      else if 65 \<le> n \<and> n \<le> 90 then char_of (n + 32)
      else underscore)"

text \<open>
  Trimming keeps a name of underscores only as it is: then \<open>find_last_not_of\<close> and
  \<open>find_first_not_of\<close> give \<open>npos\<close>.
\<close>

definition trim_trailing :: "string \<Rightarrow> string" where
  "trim_trailing name =
     (if \<forall>c \<in> set name. c = underscore then name
      else rev (dropWhile (\<lambda>c. c = underscore) (rev name)))"

definition trim_leading :: "string \<Rightarrow> string" where
  "trim_leading name =
     (if \<forall>c \<in> set name. c = underscore then name
      else dropWhile (\<lambda>c. c = underscore) name)"

text \<open>\<open>std::unique\<close> with \<open>both_underscores\<close>: each element is compared with the last one kept.\<close>

fun unique_underscores :: "string \<Rightarrow> string" where
  "unique_underscores [] = []"
| "unique_underscores [a] = [a]"
| "unique_underscores (a # b # cs) =
     (if a = underscore \<and> b = underscore then unique_underscores (a # cs)
      else a # unique_underscores (b # cs))"

definition normalize :: "string \<Rightarrow> string" where
  "normalize name =
     unique_underscores (trim_leading (trim_trailing (map strip_chars name)))"

section \<open>Properties\<close>

definition lower_alnum :: "char \<Rightarrow> bool" where
  "lower_alnum c \<longleftrightarrow>
     (let n = of_char c :: nat in 48 \<le> n \<and> n \<le> 57 \<or> 97 \<le> n \<and> n \<le> 122)"

text \<open>Letters and digits of a name, in lower case.\<close>

definition alnum_part :: "string \<Rightarrow> string" where
  "alnum_part name = filter lower_alnum (map strip_chars name)"

fun no_double :: "string \<Rightarrow> bool" where
  "no_double (a # b # cs) = (\<not> (a = underscore \<and> b = underscore) \<and> no_double (b # cs))"
| "no_double _ = True"

lemma underscore_not_alnum [simp]: "\<not> lower_alnum underscore"
  by (simp add: lower_alnum_def)

lemma strip_chars_range: "strip_chars c = underscore \<or> lower_alnum (strip_chars c)"
  by (simp add: strip_chars_def lower_alnum_def Let_def)

lemma strip_chars_id: "c = underscore \<or> lower_alnum c \<Longrightarrow> strip_chars c = c"
  by (auto simp: strip_chars_def lower_alnum_def Let_def)

lemma set_trim:
  "set (trim_leading s) \<subseteq> set s" "set (trim_trailing s) \<subseteq> set s"
  by (auto simp: trim_leading_def trim_trailing_def dest: set_dropWhileD)

lemma set_unique [simp]: "set (unique_underscores s) = set s"
  by (induction s rule: unique_underscores.induct) auto

lemma normalize_charset: "c \<in> set (normalize name) \<Longrightarrow> c = underscore \<or> lower_alnum c"
proof -
  assume "c \<in> set (normalize name)"
  then have "c \<in> set (map strip_chars name)"
    using set_trim by (fastforce simp: normalize_def)
  then show ?thesis using strip_chars_range by auto
qed

lemma unique_Cons: "unique_underscores (b # cs) = b # tl (unique_underscores (b # cs))"
  by (induction "b # cs" arbitrary: b cs rule: unique_underscores.induct) auto

lemma unique_no_double: "no_double (unique_underscores s)"
proof (induction s rule: unique_underscores.induct)
  case (3 a b cs)
  show ?case
  proof (cases "a = underscore \<and> b = underscore")
    case True
    with 3(1) show ?thesis by simp
  next
    case False
    with 3(2) have "no_double (unique_underscores (b # cs))" by simp
    then have "no_double (a # b # tl (unique_underscores (b # cs)))"
      using False by (metis no_double.simps(1) unique_Cons)
    then show ?thesis
      using False by (metis unique_Cons unique_underscores.simps(3))
  qed
qed simp_all

lemma unique_id: "no_double s \<Longrightarrow> unique_underscores s = s"
  by (induction s rule: unique_underscores.induct) auto

lemma hd_unique [simp]: "hd (unique_underscores (b # cs)) = b"
  by (induction "b # cs" arbitrary: b cs rule: unique_underscores.induct) auto

lemma unique_eq_Nil [simp]: "unique_underscores s = [] \<longleftrightarrow> s = []"
  by (induction s rule: unique_underscores.induct) auto

lemma last_unique: "s \<noteq> [] \<Longrightarrow> last (unique_underscores s) = last s"
  by (induction s rule: unique_underscores.induct) auto

lemma filter_unique: "filter lower_alnum (unique_underscores s) = filter lower_alnum s"
  by (induction s rule: unique_underscores.induct) auto

lemma filter_dropWhile_underscore:
  "filter lower_alnum (dropWhile (\<lambda>c. c = underscore) s) = filter lower_alnum s"
  by (induction s) auto

lemma filter_trim:
  "filter lower_alnum (trim_leading s) = filter lower_alnum s"
  "filter lower_alnum (trim_trailing s) = filter lower_alnum s"
  by (simp_all add: trim_leading_def trim_trailing_def filter_dropWhile_underscore rev_filter [symmetric])

lemma normalize_alnum: "filter lower_alnum (normalize name) = alnum_part name"
  by (simp add: normalize_def filter_unique filter_trim alnum_part_def)

text \<open>A trimmed name neither begins nor ends with an underscore, unless it has nothing else.\<close>

definition trimmed :: "string \<Rightarrow> bool" where
  "trimmed s \<longleftrightarrow> (\<forall>c \<in> set s. c = underscore) \<or> hd s \<noteq> underscore \<and> last s \<noteq> underscore"

lemma dropWhile_hd: "\<exists>c \<in> set s. \<not> P c \<Longrightarrow> \<not> P (hd (dropWhile P s))"
  by (induction s) auto

lemma trim_trimmed: "trimmed (trim_leading (trim_trailing s))"
proof (cases "\<forall>c \<in> set s. c = underscore")
  case True
  then show ?thesis by (simp add: trim_leading_def trim_trailing_def trimmed_def)
next
  case False
  let ?P = "\<lambda>c. c = underscore"
  let ?t = "rev (dropWhile ?P (rev s))"
  have t: "trim_trailing s = ?t"
    unfolding trim_trailing_def by (rule if_not_P [OF False])
  have lt: "last ?t \<noteq> underscore"
    using dropWhile_hd [of "rev s" ?P] False by (simp add: last_rev)
  have "?t \<noteq> []" using False by auto
  then have "last ?t \<in> set ?t" by (rule last_in_set)
  with lt have ex: "\<exists>c \<in> set ?t. \<not> ?P c" by (rule bexI)
  then have "\<not> (\<forall>c \<in> set ?t. c = underscore)" by simp
  then have l: "trim_leading ?t = dropWhile ?P ?t"
    unfolding trim_leading_def by (rule if_not_P)
  have "dropWhile ?P ?t \<noteq> []" using ex by (simp only: dropWhile_eq_Nil_conv) simp
  then have "last (dropWhile ?P ?t) = last ?t"
    by (metis last_append takeWhile_dropWhile_id)
  with lt dropWhile_hd [OF ex] show ?thesis
    unfolding t l trimmed_def by simp
qed

lemma trimmed_unique: "trimmed s \<Longrightarrow> trimmed (unique_underscores s)"
  by (cases s) (auto simp: trimmed_def last_unique)

lemma trimmed_trim_id: "trimmed s \<Longrightarrow> trim_leading (trim_trailing s) = s"
proof (cases "\<forall>c \<in> set s. c = underscore")
  case True
  then show ?thesis by (simp add: trim_leading_def trim_trailing_def)
next
  case False
  assume "trimmed s"
  with False have hl: "s \<noteq> []" "hd s \<noteq> underscore" "last s \<noteq> underscore"
    by (auto simp: trimmed_def)
  then have "dropWhile (\<lambda>c. c = underscore) (rev s) = rev s"
    by (cases s rule: rev_cases) simp_all
  moreover have "dropWhile (\<lambda>c. c = underscore) s = s"
    using hl by (cases s) auto
  ultimately show ?thesis
    using False by (simp add: trim_leading_def trim_trailing_def)
qed

lemma normalize_fixpoint:
  assumes "\<forall>c \<in> set s. c = underscore \<or> lower_alnum c" "trimmed s" "no_double s"
  shows "normalize s = s"
proof -
  have "map strip_chars s = s"
    using assms(1) by (intro map_idI) (auto simp: strip_chars_id)
  with assms(2,3) show ?thesis
    by (simp add: normalize_def trimmed_trim_id unique_id)
qed

text \<open>
  Normalising a header yields only lower case letters, digits and underscores, never two
  adjacent underscores and none at either end (unless nothing else is left), keeps the letters and
  digits in order and in lower case, and normalising again changes nothing.
\<close>

theorem normalize_correct:
  "(\<forall>c \<in> set (normalize name). c = underscore \<or> lower_alnum c) \<and>
   no_double (normalize name) \<and> trimmed (normalize name) \<and>
   filter lower_alnum (normalize name) = alnum_part name \<and>
   normalize (normalize name) = normalize name"
proof -
  have "no_double (normalize name)" "trimmed (normalize name)"
    by (simp_all add: normalize_def unique_no_double trimmed_unique trim_trimmed)
  then show ?thesis
    using normalize_charset normalize_alnum normalize_fixpoint by blast
qed

theorem normalize_correct_witness:
  "normalize ''__Append  Latency (ms)!'' = ''append_latency_ms'' \<and>
   normalize (normalize ''__Append  Latency (ms)!'') = normalize ''__Append  Latency (ms)!''"
proof -
  have "normalize ''__Append  Latency (ms)!'' = ''append_latency_ms''" by code_simp
  with normalize_correct [of "''__Append  Latency (ms)!''"] show ?thesis by blast
qed

end
