(* ===== verification/Query_Tables.thy ===== *)
theory Query_Tables
  imports Admin_Names
begin

text \<open>
  The virtual tables of the admin query tool, \<open>hstream-admin/server/cbits/query\<close>: for each table its
  name, description, the columns a server's response may have and the admin command that asks for
  them, and the list of tables \<open>Query::registerTables\<close> registers.
\<close>

section \<open>Columns\<close>

text \<open>The data types of LogDevice's query library that the tables use.\<close>

datatype DataType = DT_TEXT | DT_BIGINT | DT_INTEGER

record TableColumn =
  tc_name :: string
  tc_type :: DataType
  tc_description :: string

abbreviation column :: "string \<Rightarrow> DataType \<Rightarrow> string \<Rightarrow> TableColumn" where
  "column n t d \<equiv> \<lparr>tc_name = n, tc_type = t, tc_description = d\<rparr>"

text \<open>A table class; \<open>getCommandToSend\<close> of every table ignores its query context.\<close>

record admin_table =
  getName :: string
  getDescription :: string
  getFetchableColumns :: "TableColumn list"
  getCommandToSend :: string

section \<open>The tables\<close>

definition AppendFailedCounter :: admin_table where
  "AppendFailedCounter =
     \<lparr>getName = ''append_failed_counter'',
      getDescription =
        ''Failed append requests.'',
      getFetchableColumns =
        [column ''stream_name'' DT_TEXT ''The name of the stream.'',
         column ''append_failed'' DT_BIGINT ''Number of failed appends''],
      getCommandToSend =
        ''server stats stream_counter append_failed''\<rparr>"

definition AppendThroughput :: admin_table where
  "AppendThroughput =
     \<lparr>getName = ''append_throughput'',
      getDescription =
        ''For each server node, reports the estimated per-stream append throughput over various time periods.'',
      getFetchableColumns =
        [column ''stream_name'' DT_TEXT ''The name of the stream.'',
         column ''appends_1min'' DT_BIGINT ''Throughput average in the past 1 minute.'',
         column ''appends_5min'' DT_BIGINT ''Throughput average in the past 5 minutes.'',
         column ''appends_10min'' DT_BIGINT ''Throughput average in the past 10 minutes.''],
      getCommandToSend =
        ''server stats stream appends --intervals 1min --intervals 5min --intervals 10min''\<rparr>"

definition AppendTotalCounter :: admin_table where
  "AppendTotalCounter =
     \<lparr>getName = ''append_total_counter'',
      getDescription =
        ''Total append requests server received.'',
      getFetchableColumns =
        [column ''stream_name'' DT_TEXT ''The name of the stream.'',
         column ''append_total'' DT_BIGINT ''Number of total appends''],
      getCommandToSend =
        ''server stats stream_counter append_total''\<rparr>"

definition ReadThroughput :: admin_table where
  "ReadThroughput =
     \<lparr>getName = ''read_throughput'',
      getDescription =
        ''For each server node, reports the estimated per-stream read throughput over various time periods.'',
      getFetchableColumns =
        [column ''stream_name'' DT_TEXT ''The name of the stream.'',
         column ''reads_15min'' DT_BIGINT ''Throughput average in the past 15 minutes.'',
         column ''reads_30min'' DT_BIGINT ''Throughput average in the past 30 minutes.'',
         column ''reads_60min'' DT_BIGINT ''Throughput average in the past 60 minutes.''],
      getCommandToSend =
        ''server stats stream reads --intervals 15min --intervals 30min --intervals 60min''\<rparr>"

definition ServerAppendLatency :: admin_table where
  "ServerAppendLatency =
     \<lparr>getName = ''server_append_latency'',
      getDescription =
        ''For each server node, reports the estimated percentiles latency of server appends'',
      getFetchableColumns =
        [column ''p50'' DT_BIGINT ''p50'',
         column ''p75'' DT_BIGINT ''p75'',
         column ''p95'' DT_BIGINT ''p95'',
         column ''p99'' DT_BIGINT ''p99''],
      getCommandToSend =
        ''server stats server_histogram append_latency -p 0.5 -p 0.75 -p 0.95 -p 0.99''\<rparr>"

definition ServerAppendRequestLatency :: admin_table where
  "ServerAppendRequestLatency =
     \<lparr>getName = ''server_append_request_latency'',
      getDescription =
        ''For each server node, reports the estimated percentiles latency of server append request'',
      getFetchableColumns =
        [column ''p50'' DT_BIGINT ''p50'',
         column ''p75'' DT_BIGINT ''p75'',
         column ''p95'' DT_BIGINT ''p95'',
         column ''p99'' DT_BIGINT ''p99''],
      getCommandToSend =
        ''server stats server_histogram append_request_latency -p 0.5 -p 0.75 -p 0.95 -p 0.99''\<rparr>"

definition Streams :: admin_table where
  "Streams =
     \<lparr>getName = ''streams'',
      getDescription =
        ''A table that lists the streams created in the cluster.'',
      getFetchableColumns =
        [column ''name'' DT_TEXT ''The name of the stream.'',
         column ''replication_property'' DT_TEXT ''Replication property configured for this stream.''],
      getCommandToSend =
        ''server stream list''\<rparr>"

definition SubscriptionThroughput :: admin_table where
  "SubscriptionThroughput =
     \<lparr>getName = ''subscription_throughput'',
      getDescription =
        ''For each server node, reports the estimated per-stream append throughput over various time periods.'',
      getFetchableColumns =
        [column ''subscription_id'' DT_TEXT ''The id of the subscription.'',
         column ''sends_1min'' DT_BIGINT ''Throughput average in the past 1 minute.'',
         column ''sends_5min'' DT_BIGINT ''Throughput average in the past 5 minutes.'',
         column ''sends_10min'' DT_BIGINT ''Throughput average in the past 10 minutes.''],
      getCommandToSend =
        ''server stats subscription sends --intervals 1min --intervals 5min --intervals 10min''\<rparr>"

definition registerTables :: "admin_table list" where
  "registerTables =
     [AppendFailedCounter, AppendThroughput, AppendTotalCounter, ReadThroughput,
      ServerAppendLatency, ServerAppendRequestLatency, Streams, SubscriptionThroughput]"

lemmas table_defs = AppendFailedCounter_def AppendThroughput_def AppendTotalCounter_def
  ReadThroughput_def ServerAppendLatency_def ServerAppendRequestLatency_def Streams_def
  SubscriptionThroughput_def

section \<open>Words of a command\<close>

text \<open>The words of a command line, separated by spaces.\<close>

fun split_words :: "string \<Rightarrow> string \<Rightarrow> string list" where
  "split_words [] acc = (if acc = [] then [] else [rev acc])"
| "split_words (c # cs) acc =
     (if c = CHR '' '' then (if acc = [] then [] else [rev acc]) @ split_words cs []
      else split_words cs (c # acc))"

definition command_words :: "admin_table \<Rightarrow> string list" where
  "command_words t = split_words (getCommandToSend t) []"

text \<open>
  The registered tables have distinct names, no table has two columns of the same name, none
  has a column called \<open>node_id\<close> (the query tool adds that one), every column name is already in the
  form header normalisation produces, and every command is addressed to the server.
\<close>

theorem registered_tables_wellformed:
  "distinct (map getName registerTables) \<and>
   list_all (\<lambda>t. distinct (map tc_name (getFetchableColumns t)) \<and>
     ''node_id'' \<notin> set (map tc_name (getFetchableColumns t)) \<and>
     list_all (\<lambda>c. normalize (tc_name c) = tc_name c) (getFetchableColumns t) \<and>
     hd (command_words t) = ''server'') registerTables"
  by code_simp

end
