(* ===== verification/Admin_Table.thy ===== *)
theory Admin_Table
  imports Query_Tables
begin

text \<open>
  The data of an \<open>AdminCommandTable\<close> (\<open>common/hstream/cbits/query/tables/AdminCommandTable.cpp\<close>):
  merging the tables of several nodes (\<open>aggregate\<close>), parsing a node's JSON response
  (\<open>jsonToTableData\<close>) and parsing all responses on several threads (\<open>transformDataParallel\<close>).
\<close>

section \<open>Tables\<close>

text \<open>
  \<open>ldquery::TableData\<close>: a map from column names to columns of optional strings. Its \<open>numRows\<close> is
  part of LogDevice and a parameter; the code relies on it being the length of some column.
\<close>

type_synonym column_data = "string option list"
type_synonym table_data = "(string, column_data) umap"

locale table_rows =
  fixes numRows :: "table_data \<Rightarrow> nat"
  assumes rows_empty: "numRows [] = 0"
    and rows_some: "t \<noteq> [] \<Longrightarrow> \<exists>e \<in> set t. numRows t = length (snd e)"

definition first_column_rows :: "table_data \<Rightarrow> nat" where
  "first_column_rows t = (case t of [] \<Rightarrow> 0 | e # _ \<Rightarrow> length (snd e))"

interpretation first_rows: table_rows first_column_rows
proof
  fix t :: table_data
  show "first_column_rows [] = 0" by (simp add: first_column_rows_def)
  show "\<exists>e \<in> set t. first_column_rows t = length (snd e)" if "t \<noteq> []"
    using that by (cases t) (auto simp: first_column_rows_def)
qed

definition rectangular :: "nat \<Rightarrow> table_data \<Rightarrow> bool" where
  "rectangular n t \<longleftrightarrow> (\<forall>e \<in> set t. length (snd e) = n)"

definition table_ok :: "(table_data \<Rightarrow> nat) \<Rightarrow> table_data \<Rightarrow> bool" where
  "table_ok numRows t \<longleftrightarrow> umap_wf t \<and> rectangular (numRows t) t"

section \<open>Aggregation\<close>

definition resize_column :: "nat \<Rightarrow> column_data \<Rightarrow> column_data" where
  "resize_column n c = take n c @ replicate (n - length c) None"

definition aggregate_column ::
    "nat \<Rightarrow> string \<times> column_data \<Rightarrow> table_data \<times> nat \<Rightarrow> (table_data \<times> nat) result" where
  "aggregate_column rows_so_far kv st =
     (case (kv, st) of
        ((name, c), (result, rows_in_current)) \<Rightarrow>
          if rows_in_current = 0 \<or> rows_in_current = length c then
            (let res = (case map_of result name of None \<Rightarrow> [] | Some res \<Rightarrow> res);
                 res = resize_column rows_so_far res @ c
             in Inr (umap_put name res result, length c))
          else Inl hs_check_failed)"

definition aggregate_table ::
    "table_data \<Rightarrow> table_data \<times> nat \<Rightarrow> (table_data \<times> nat) result" where
  "aggregate_table src st =
     (case st of
        (result, rows_so_far) \<Rightarrow>
          (case fold_result (aggregate_column rows_so_far) src (result, 0) of
             Inl e \<Rightarrow> Inl e
           | Inr (result, rows_in_current) \<Rightarrow> Inr (result, rows_so_far + rows_in_current)))"

definition aggregate :: "(table_data \<Rightarrow> nat) \<Rightarrow> table_data list \<Rightarrow> table_data result" where
  "aggregate numRows results =
     (let total_rows = (\<Sum>src \<leftarrow> results. numRows src)
      in case fold_result aggregate_table results ([], 0) of
           Inl e \<Rightarrow> Inl e
         | Inr (result, rows_so_far) \<Rightarrow>
             if rows_so_far = total_rows
             then Inr (map (\<lambda>(name, c). (name, resize_column total_rows c)) result)
             else Inl hs_check_failed)"

section \<open>What aggregation computes\<close>

text \<open>One column of the concatenated table: missing columns are filled with nulls.\<close>

definition stacked_column :: "(table_data \<Rightarrow> nat) \<Rightarrow> table_data list \<Rightarrow> string \<Rightarrow> column_data" where
  "stacked_column numRows srcs name =
     concat (map (\<lambda>src. case map_of src name of
                          None \<Rightarrow> replicate (numRows src) None
                        | Some c \<Rightarrow> c) srcs)"

lemma resize_column_same [simp]: "length c = n \<Longrightarrow> resize_column n c = c"
  by (simp add: resize_column_def)

lemma length_resize_column [simp]: "length (resize_column n c) = n"
  by (simp add: resize_column_def)

lemma resize_column_append:
  "length c \<le> n \<Longrightarrow> resize_column (n + m) c = resize_column n c @ replicate m None"
  by (simp add: resize_column_def replicate_add [symmetric])

lemma resize_column_Nil [simp]: "resize_column n [] = replicate n None"
  by (simp add: resize_column_def)

lemma aggregate_column_loop:
  assumes "umap_wf src" "rectangular r src" "ric = 0 \<or> ric = r" "umap_wf result"
  shows "\<exists>result'. fold_result (aggregate_column rows) src (result, ric) =
      Inr (result', if src = [] then ric else r) \<and> umap_wf result' \<and>
    (\<forall>n. map_of result' n =
       (case map_of src n of
          None \<Rightarrow> map_of result n
        | Some c \<Rightarrow> Some (resize_column rows
                            (case map_of result n of None \<Rightarrow> [] | Some res \<Rightarrow> res) @ c)))"
  using assms
proof (induction src arbitrary: result ric)
  case Nil
  then show ?case by simp
next
  case (Cons kv src)
  obtain name c where kv: "kv = (name, c)" by (cases kv)
  let ?res = "resize_column rows (case map_of result name of None \<Rightarrow> [] | Some res \<Rightarrow> res) @ c"
  have c: "length c = r" and rect: "rectangular r src"
    using Cons.prems(2) by (simp_all add: rectangular_def kv)
  have "umap_wf src" "map_of src name = None"
    using Cons.prems(1) by (simp_all add: kv map_of_eq_None_iff)
  moreover obtain result' where
    "fold_result (aggregate_column rows) src (umap_put name ?res result, r) =
       Inr (result', if src = [] then r else r)" "umap_wf result'"
    "\<forall>n. map_of result' n =
       (case map_of src n of
          None \<Rightarrow> map_of (umap_put name ?res result) n
        | Some c \<Rightarrow> Some (resize_column rows
            (case map_of (umap_put name ?res result) n of None \<Rightarrow> [] | Some res \<Rightarrow> res) @ c))"
    using Cons.IH [OF \<open>umap_wf src\<close> rect _ umap_put_wf [OF Cons.prems(4)], of r] by blast
  moreover have "aggregate_column rows kv (result, ric) = Inr (umap_put name ?res result, r)"
    using Cons.prems(3) c by (auto simp: aggregate_column_def kv Let_def)
  ultimately show ?case
    by (auto simp: kv split: option.splits)
qed

text \<open>The state of the outer loop after the tables \<open>srcs\<close>.\<close>

fun column_inv ::
    "(table_data \<Rightarrow> nat) \<Rightarrow> table_data list \<Rightarrow> nat \<Rightarrow> string \<Rightarrow> column_data option \<Rightarrow> bool" where
  "column_inv numRows srcs rows n None \<longleftrightarrow> (\<forall>src \<in> set srcs. map_of src n = None)"
| "column_inv numRows srcs rows n (Some c) \<longleftrightarrow>
     (\<exists>src \<in> set srcs. map_of src n \<noteq> None) \<and> length c \<le> rows \<and>
     resize_column rows c = stacked_column numRows srcs n"

definition stacked_inv ::
    "(table_data \<Rightarrow> nat) \<Rightarrow> table_data list \<Rightarrow> table_data \<times> nat \<Rightarrow> bool" where
  "stacked_inv numRows srcs st \<longleftrightarrow>
     umap_wf (fst st) \<and> snd st = (\<Sum>src \<leftarrow> srcs. numRows src) \<and>
     (\<forall>n. column_inv numRows srcs (snd st) n (map_of (fst st) n))"

lemma stacked_append:
  "stacked_column numRows (srcs @ [src]) n = stacked_column numRows srcs n @
     (case map_of src n of None \<Rightarrow> replicate (numRows src) None | Some c \<Rightarrow> c)"
  by (simp add: stacked_column_def)

lemma stacked_none:
  "\<forall>src \<in> set srcs. map_of src n = None \<Longrightarrow>
     stacked_column numRows srcs n = replicate (\<Sum>src \<leftarrow> srcs. numRows src) None"
  by (induction srcs) (auto simp: stacked_column_def replicate_add)

context table_rows
begin

lemma rows_of_rectangular: "t \<noteq> [] \<Longrightarrow> rectangular r t \<Longrightarrow> numRows t = r"
  using rows_some [of t] by (auto simp: rectangular_def)

lemma aggregate_table_step:
  assumes "table_ok numRows src" "stacked_inv numRows srcs st"
  shows "\<exists>st'. aggregate_table src st = Inr st' \<and> stacked_inv numRows (srcs @ [src]) st'"
proof -
  obtain result rows where st: "st = (result, rows)" by (cases st)
  have wf: "umap_wf result" and rows: "rows = (\<Sum>src \<leftarrow> srcs. numRows src)"
    and cols: "\<And>n. column_inv numRows srcs rows n (map_of result n)"
    using assms(2) unfolding stacked_inv_def st by auto
  obtain result' where r': "fold_result (aggregate_column rows) src (result, 0) =
      Inr (result', if src = [] then 0 else numRows src)" "umap_wf result'"
    and look: "\<And>n. map_of result' n =
       (case map_of src n of
          None \<Rightarrow> map_of result n
        | Some c \<Rightarrow> Some (resize_column rows
                            (case map_of result n of None \<Rightarrow> [] | Some res \<Rightarrow> res) @ c))"
    using aggregate_column_loop [of src "numRows src" 0 result rows] assms(1) wf
    unfolding table_ok_def by blast
  have "column_inv numRows (srcs @ [src]) (rows + numRows src) n (map_of result' n)" for n
  proof (cases "map_of src n")
    case None
    then show ?thesis
      using cols [of n]
      by (cases "map_of result n") (auto simp: look stacked_column_def resize_column_append)
  next
    case (Some c)
    then have "length c = numRows src"
      using assms(1) map_of_SomeD [OF Some] by (auto simp: table_ok_def rectangular_def)
    moreover have res: "resize_column rows (case map_of result n of None \<Rightarrow> [] | Some res \<Rightarrow> res) =
        stacked_column numRows srcs n"
      using cols [of n] by (cases "map_of result n") (simp_all add: stacked_none rows)
    moreover have "length (stacked_column numRows srcs n) = rows"
      using res [symmetric] by simp
    ultimately show ?thesis
      using Some by (simp add: look stacked_append)
  qed
  moreover have "(if src = [] then 0 else numRows src) = numRows src"
    by (simp add: rows_empty)
  ultimately show ?thesis
    using r' rows by (simp add: aggregate_table_def st stacked_inv_def)
qed

lemma aggregate_loop:
  "\<forall>src \<in> set srcs'. table_ok numRows src \<Longrightarrow> stacked_inv numRows srcs st \<Longrightarrow>
     \<exists>st'. fold_result aggregate_table srcs' st = Inr st' \<and> stacked_inv numRows (srcs @ srcs') st'"
proof (induction srcs' arbitrary: srcs st)
  case Nil
  then show ?case by simp
next
  case (Cons src srcs')
  obtain st1 where "aggregate_table src st = Inr st1" "stacked_inv numRows (srcs @ [src]) st1"
    using aggregate_table_step [of src, OF _ Cons.prems(2)] Cons.prems(1) by auto
  with Cons.IH [of "srcs @ [src]" st1] Cons.prems(1) show ?case by simp
qed

lemma aggregate_stacks:
  assumes "\<forall>src \<in> set srcs. table_ok numRows src"
  shows "\<exists>t. aggregate numRows srcs = Inr t \<and> umap_wf t \<and>
    (\<forall>n. map_of t n =
       (if \<forall>src \<in> set srcs. map_of src n = None then None
        else Some (stacked_column numRows srcs n)))"
proof -
  have "stacked_inv numRows [] ([], 0)" by (simp add: stacked_inv_def)
  from aggregate_loop [OF assms this] obtain result rows where
    res: "fold_result aggregate_table srcs ([], 0) = Inr (result, rows)"
    and inv: "stacked_inv numRows srcs (result, rows)"
    by auto
  let ?t = "map (\<lambda>(name, c). (name, resize_column rows c)) result"
  have rows: "rows = (\<Sum>src \<leftarrow> srcs. numRows src)" and wf: "umap_wf result"
    and cols: "\<And>n. column_inv numRows srcs rows n (map_of result n)"
    using inv unfolding stacked_inv_def by auto
  have "map_of ?t n = map_option (resize_column rows) (map_of result n)" for n
    by (induction result) auto
  then have "map_of ?t n = (if \<forall>src \<in> set srcs. map_of src n = None then None
        else Some (stacked_column numRows srcs n))" for n
    using cols [of n] by (cases "map_of result n") auto
  moreover have "umap_wf ?t" using wf by (simp add: comp_def case_prod_unfold)
  moreover have "aggregate numRows srcs = Inr ?t"
    using res rows by (simp add: aggregate_def)
  ultimately show ?thesis by blast
qed

end

text \<open>
  \<^bold>\<open>C14.\<close> Merging the tables of the nodes is stacking them: when every table is rectangular, the
  merge succeeds, has the columns that occur in any of them, and each column is the concatenation
  of that column of the tables in order, with nulls for the rows of a table that lacks it.
\<close>

theorem aggregate_concatenates:
  assumes "table_rows numRows" "\<forall>src \<in> set srcs. table_ok numRows src"
  shows "\<exists>t. aggregate numRows srcs = Inr t \<and> umap_wf t \<and>
    (\<forall>n. map_of t n =
       (if \<forall>src \<in> set srcs. map_of src n = None then None
        else Some (stacked_column numRows srcs n)))"
  by (rule table_rows.aggregate_stacks [OF assms])

theorem aggregate_concatenates_witness:
  "\<exists>t. aggregate first_column_rows [[(''a'', [Some ''1''])], [(''b'', [Some ''2'', None])]] = Inr t \<and>
     map_of t ''a'' = Some [Some ''1'', None, None] \<and> map_of t ''b'' = Some [None, Some ''2'', None]"
proof -
  let ?srcs = "[[(''a'', [Some ''1''])], [(''b'', [Some ''2'', None])]]"
  have "\<forall>src \<in> set ?srcs. table_ok first_column_rows src"
    by (simp add: table_ok_def rectangular_def first_column_rows_def)
  from aggregate_concatenates [OF first_rows.table_rows_axioms this] show ?thesis
    by (auto simp: stacked_column_def first_column_rows_def numeral_2_eq_2)
qed

end
