(* ===== verification/Admin_Json.thy ===== *)
theory Admin_Json
  imports Admin_Table
begin

text \<open>
  \<open>AdminCommandTable::jsonToTableData\<close>, \<open>transformData\<close> and \<open>transformDataParallel\<close>: from the
  responses of the nodes to one table per node.

  The gason parser is a parameter: \<open>jsonParse\<close> gives the parsed value or fails, and \<open>odd_nodes\<close>
  what iterating over a value that is no object yields. LogDevice's \<open>preprocessColumn\<close>, which
  rewrites a cell in place, is the parameter \<open>pre\<close>.
\<close>

section \<open>Values\<close>

datatype json =
    JSON_STRING string
  | JSON_NULL
  | JSON_ARRAY "json list"
  | JSON_OBJECT "(string \<times> json) list"
  | JSON_OTHER

definition json_nodes :: "(json \<Rightarrow> (string \<times> json) list) \<Rightarrow> json \<Rightarrow> (string \<times> json) list" where
  "json_nodes odd_nodes v = (case v of JSON_OBJECT kvs \<Rightarrow> kvs | _ \<Rightarrow> odd_nodes v)"

record PartialTableData =
  ptd_data :: "table_data option"
  ptd_success :: bool
  ptd_failure_reason :: string

definition ptd_failure :: "string \<Rightarrow> PartialTableData" where
  "ptd_failure reason = \<lparr>ptd_data = None, ptd_success = False, ptd_failure_reason = reason\<rparr>"

text \<open>\<open>init\<close>: the position of every fetchable column; a later column of the same name wins.\<close>

fun init_positions :: "nat \<Rightarrow> TableColumn list \<Rightarrow> (string, nat) umap \<Rightarrow> (string, nat) umap" where
  "init_positions i [] m = m"
| "init_positions i (c # cs) m = init_positions (Suc i) cs (umap_put (tc_name c) i m)"

definition init :: "TableColumn list \<Rightarrow> (string, nat) umap" where
  "init cols = init_positions 0 cols []"

section \<open>Headers and rows\<close>

text \<open>
  \<open>columns_present\<close> has one entry per header: the column its cells go to, or nothing when the
  table does not know the header. \<open>results.cols[name]\<close> creates a missing column.
\<close>

type_synonym columns_present = "(string \<times> DataType) option list"

definition touch_column :: "string \<Rightarrow> table_data \<Rightarrow> table_data" where
  "touch_column name t = (case map_of t name of None \<Rightarrow> umap_put name [] t | Some _ \<Rightarrow> t)"

definition push_cell :: "string \<Rightarrow> string option \<Rightarrow> table_data \<Rightarrow> table_data" where
  "push_cell name v t =
     umap_put name ((case map_of t name of None \<Rightarrow> [] | Some c \<Rightarrow> c) @ [v]) t"

text \<open>The loops return nothing where the source returns \<open>false\<close>.\<close>

fun parse_header_loop ::
    "TableColumn list \<Rightarrow> (string, nat) umap \<Rightarrow> json list \<Rightarrow> columns_present \<Rightarrow> table_data \<Rightarrow>
     (columns_present \<times> table_data) option result" where
  "parse_header_loop cols pos [] present t = Inr (Some (present, t))"
| "parse_header_loop cols pos (h # hs) present t =
     (case h of
        JSON_STRING raw \<Rightarrow>
          (let name = normalize raw
           in case map_of pos name of
                None \<Rightarrow> parse_header_loop cols pos hs (present @ [None]) t
              | Some i \<Rightarrow>
                  if i < length cols \<and> tc_name (cols ! i) = name
                  then parse_header_loop cols pos hs
                         (present @ [Some (name, tc_type (cols ! i))]) (touch_column name t)
                  else Inl hs_check_failed)
      | _ \<Rightarrow> Inr None)"

definition parse_headers ::
    "TableColumn list \<Rightarrow> (string, nat) umap \<Rightarrow> json \<Rightarrow> (columns_present \<times> table_data) option result"
    where
  "parse_headers cols pos v =
     (case v of JSON_ARRAY hs \<Rightarrow> parse_header_loop cols pos hs [] [] | _ \<Rightarrow> Inr None)"

fun parse_cells ::
    "(DataType \<Rightarrow> string option \<Rightarrow> string option) \<Rightarrow> columns_present \<Rightarrow> json list \<Rightarrow> nat \<Rightarrow>
     table_data \<Rightarrow> (nat \<times> table_data) option" where
  "parse_cells pre present [] col t = Some (col, t)"
| "parse_cells pre present (v # vs) col t =
     (if col \<ge> length present then parse_cells pre present vs (Suc col) t
      else case present ! col of
             None \<Rightarrow> parse_cells pre present vs (Suc col) t
           | Some (name, ty) \<Rightarrow>
               (case v of
                  JSON_STRING s \<Rightarrow>
                    parse_cells pre present vs (Suc col) (push_cell name (pre ty (Some s)) t)
                | JSON_NULL \<Rightarrow> parse_cells pre present vs (Suc col) (push_cell name None t)
                | _ \<Rightarrow> None))"

definition parse_row ::
    "(DataType \<Rightarrow> string option \<Rightarrow> string option) \<Rightarrow> columns_present \<Rightarrow> json \<Rightarrow> table_data \<Rightarrow>
     table_data option" where
  "parse_row pre present v t =
     (case v of
        JSON_ARRAY vs \<Rightarrow>
          (case parse_cells pre present vs 0 t of
             None \<Rightarrow> None
           | Some (col, t') \<Rightarrow> if col \<noteq> length present then None else Some t')
      | _ \<Rightarrow> None)"

fun parse_row_loop ::
    "(DataType \<Rightarrow> string option \<Rightarrow> string option) \<Rightarrow> columns_present \<Rightarrow> json list \<Rightarrow> table_data \<Rightarrow>
     table_data option" where
  "parse_row_loop pre present [] t = Some t"
| "parse_row_loop pre present (r # rs) t =
     (case parse_row pre present r t of
        None \<Rightarrow> None
      | Some t' \<Rightarrow> parse_row_loop pre present rs t')"

definition parse_rows ::
    "(DataType \<Rightarrow> string option \<Rightarrow> string option) \<Rightarrow> columns_present \<Rightarrow> json \<Rightarrow> table_data \<Rightarrow>
     table_data option" where
  "parse_rows pre present v t =
     (case v of JSON_ARRAY rs \<Rightarrow> parse_row_loop pre present rs t | _ \<Rightarrow> None)"

section \<open>The response\<close>

text \<open>The first loop over the root object: checks \<open>type\<close> and descends into \<open>content\<close>.\<close>

fun scan_root :: "(string \<times> json) list \<Rightarrow> json \<Rightarrow> json result" where
  "scan_root [] v = Inr v"
| "scan_root ((k, x) # kvs) v =
     (if k = ''type'' then
        (if x = JSON_STRING ''table'' then scan_root kvs v
         else Inl hs_check_failed)
      else if k = ''content'' then scan_root kvs x
      else scan_root kvs v)"

fun scan_content ::
    "(string \<times> json) list \<Rightarrow> json option \<times> json option \<Rightarrow> json option \<times> json option" where
  "scan_content [] hr = hr"
| "scan_content ((k, x) # kvs) (headers, rows) =
     (if k = ''headers'' then scan_content kvs (Some x, rows)
      else if k = ''rows'' then scan_content kvs (headers, Some x)
      else scan_content kvs (headers, rows))"

definition jsonToTableData ::
    "(string \<Rightarrow> json option) \<Rightarrow> (json \<Rightarrow> (string \<times> json) list) \<Rightarrow>
     (DataType \<Rightarrow> string option \<Rightarrow> string option) \<Rightarrow> TableColumn list \<Rightarrow> (string, nat) umap \<Rightarrow> string \<Rightarrow>
     PartialTableData result" where
  "jsonToTableData jsonParse odd_nodes pre cols pos response =
     (case jsonParse response of
        None \<Rightarrow> Inr (ptd_failure ''JSON_PARSE_ERROR'')
      | Some (JSON_OBJECT kvs) \<Rightarrow>
          (case scan_root kvs (JSON_OBJECT kvs) of
             Inl e \<Rightarrow> Inl e
           | Inr v \<Rightarrow>
               (case scan_content (json_nodes odd_nodes v) (None, None) of
                  (Some headers, Some rows) \<Rightarrow>
                    (case parse_headers cols pos headers of
                       Inl e \<Rightarrow> Inl e
                     | Inr None \<Rightarrow> Inr (ptd_failure ''MALFORMED_RESPONSE'')
                     | Inr (Some (present, t)) \<Rightarrow>
                         (case parse_rows pre present rows t of
                            None \<Rightarrow> Inr (ptd_failure ''MALFORMED_RESPONSE'')
                          | Some t' \<Rightarrow>
                              Inr \<lparr>ptd_data = Some t', ptd_success = True,
                                   ptd_failure_reason = ''''\<rparr>))
                | _ \<Rightarrow> Inr (ptd_failure ''MALFORMED_RESPONSE'')))
      | Some _ \<Rightarrow> Inr (ptd_failure ''MALFORMED_RESPONSE''))"

text \<open>\<open>transformData\<close>: the only table type is \<open>JSON_TABLE\<close>.\<close>

datatype table_type = JSON_TABLE

definition transformData where
  "transformData ttype jsonParse odd_nodes pre cols pos response =
     (case ttype of JSON_TABLE \<Rightarrow> jsonToTableData jsonParse odd_nodes pre cols pos response)"

section \<open>Cells of a parsed response\<close>

definition cell_value ::
    "(DataType \<Rightarrow> string option \<Rightarrow> string option) \<Rightarrow> DataType \<Rightarrow> json \<Rightarrow> string option" where
  "cell_value pre ty v = (case v of JSON_STRING s \<Rightarrow> pre ty (Some s) | _ \<Rightarrow> None)"

text \<open>The column a header denotes, if the table knows it.\<close>

definition header_column :: "TableColumn list \<Rightarrow> string \<Rightarrow> (string \<times> DataType) option" where
  "header_column cols raw =
     map_option (\<lambda>c. (tc_name c, tc_type c)) (find (\<lambda>c. tc_name c = normalize raw) cols)"

lemma push_cell_lookup [simp]:
  "map_of (push_cell name v t) n =
     (if n = name then Some ((case map_of t name of None \<Rightarrow> [] | Some c \<Rightarrow> c) @ [v]) else map_of t n)"
  by (simp add: push_cell_def)

lemma push_cell_wf [simp]: "umap_wf t \<Longrightarrow> umap_wf (push_cell name v t)"
  by (simp add: push_cell_def)

lemma touch_column_lookup [simp]:
  "map_of (touch_column name t) n =
     (if n = name \<and> map_of t n = None then Some [] else map_of t n)"
  by (auto simp: touch_column_def split: option.split)

lemma touch_column_wf [simp]: "umap_wf t \<Longrightarrow> umap_wf (touch_column name t)"
  by (auto simp: touch_column_def split: option.split)

lemma find_enumerate_None:
  "find (\<lambda>(j, c). P c) (enumerate i xs) = None \<longleftrightarrow> find P xs = None"
  by (induction xs arbitrary: i) auto

lemma init_positions_lookup:
  "distinct (map tc_name cols) \<Longrightarrow>
     map_of (init_positions i cols m) n =
       (case find (\<lambda>(j, c). tc_name c = n) (enumerate i cols) of
          None \<Rightarrow> map_of m n
        | Some (j, c) \<Rightarrow> Some j)"
proof (induction i cols m rule: init_positions.induct)
  case (1 i m)
  then show ?case by simp
next
  case (2 i c cs m)
  have "find (\<lambda>(j, c'). tc_name c' = n) (enumerate (Suc i) cs) = None" if "tc_name c = n"
    using 2(2) that unfolding find_enumerate_None
    by (simp add: find_None_iff) (metis image_eqI)
  with 2 show ?case by (auto split: option.split)
qed

lemma find_enumerate:
  "find (\<lambda>(j, c). P c) (enumerate i xs) = Some (j, c) \<Longrightarrow>
     i \<le> j \<and> j < i + length xs \<and> xs ! (j - i) = c \<and> find P xs = Some c"
proof (induction xs arbitrary: i)
  case Nil
  then show ?case by simp
next
  case (Cons x xs)
  show ?case
  proof (cases "P x")
    case True
    with Cons.prems show ?thesis by auto
  next
    case False
    with Cons.IH [of "Suc i"] Cons.prems show ?thesis by (auto simp: nth_Cons')
  qed
qed

text \<open>One step of the header loop, for a position map built by \<open>init\<close>.\<close>

lemma parse_header_step:
  assumes "distinct (map tc_name cols)"
  shows "parse_header_loop cols (init cols) (JSON_STRING raw # hs) present t =
    parse_header_loop cols (init cols) hs (present @ [header_column cols raw])
      (case header_column cols raw of None \<Rightarrow> t | Some (name, ty) \<Rightarrow> touch_column name t)"
proof (cases "find (\<lambda>(j, c). tc_name c = normalize raw) (enumerate 0 cols)")
  case None
  then have "map_of (init cols) (normalize raw) = None"
    using init_positions_lookup [OF assms, of 0 "[]" "normalize raw"] by (simp add: init_def)
  with None show ?thesis
    by (simp add: header_column_def find_enumerate_None Let_def)
next
  case (Some jc)
  obtain j c where jc: "jc = (j, c)" by (cases jc)
  have f: "j < length cols" "cols ! j = c" "find (\<lambda>c. tc_name c = normalize raw) cols = Some c"
    using find_enumerate [OF Some [unfolded jc]] by auto
  then have "tc_name c = normalize raw" by (auto simp: find_Some_iff)
  moreover have "map_of (init cols) (normalize raw) = Some j"
    using init_positions_lookup [OF assms, of 0 "[]" "normalize raw"] Some
    by (simp add: init_def jc)
  ultimately show ?thesis
    using f by (simp add: header_column_def Let_def)
qed

lemma parse_header_loop_ok:
  assumes "distinct (map tc_name cols)" "umap_wf t"
  shows "\<exists>t'. parse_header_loop cols (init cols) (map JSON_STRING hs) present t =
      Inr (Some (present @ map (header_column cols) hs, t')) \<and> umap_wf t' \<and>
    (\<forall>n. map_of t' n =
       (if map_of t n = None \<and> (\<exists>h \<in> set hs. \<exists>ty. header_column cols h = Some (n, ty))
        then Some [] else map_of t n))"
  using assms(2)
proof (induction hs arbitrary: present t)
  case Nil
  then show ?case by simp
next
  case (Cons h hs)
  let ?t = "case header_column cols h of None \<Rightarrow> t | Some (name, ty) \<Rightarrow> touch_column name t"
  have "umap_wf ?t" using Cons.prems by (auto split: option.split)
  from Cons.IH [OF this, of "present @ [header_column cols h]"] obtain t' where
    "parse_header_loop cols (init cols) (map JSON_STRING hs) (present @ [header_column cols h]) ?t =
      Inr (Some (present @ map (header_column cols) (h # hs), t'))" "umap_wf t'"
    "\<forall>n. map_of t' n =
       (if map_of ?t n = None \<and> (\<exists>h \<in> set hs. \<exists>ty. header_column cols h = Some (n, ty))
        then Some [] else map_of ?t n)"
    by auto
  moreover have "map_of ?t n =
      (if map_of t n = None \<and> (\<exists>ty. header_column cols h = Some (n, ty)) then Some []
       else map_of t n)" for n
    by (cases "header_column cols h") auto
  ultimately show ?case
    using parse_header_step [OF assms(1), of h] by auto
qed

text \<open>No two headers go to the same column.\<close>

definition present_distinct :: "columns_present \<Rightarrow> bool" where
  "present_distinct present \<longleftrightarrow>
     (\<forall>i j n a b. i < length present \<longrightarrow> j < length present \<longrightarrow>
        present ! i = Some (n, a) \<longrightarrow> present ! j = Some (n, b) \<longrightarrow> i = j)"

lemma present_distinctD:
  "present_distinct present \<Longrightarrow> i < length present \<Longrightarrow> j < length present \<Longrightarrow>
     present ! i = Some (n, a) \<Longrightarrow> present ! j = Some (n, b) \<Longrightarrow> i = j"
  by (simp add: present_distinct_def)

definition cells_ok :: "json list \<Rightarrow> bool" where
  "cells_ok vs \<longleftrightarrow> list_all (\<lambda>v. case v of JSON_STRING _ \<Rightarrow> True | JSON_NULL \<Rightarrow> True | _ \<Rightarrow> False) vs"

abbreviation old_column :: "table_data \<Rightarrow> string \<Rightarrow> column_data" where
  "old_column t n \<equiv> (case map_of t n of None \<Rightarrow> [] | Some c \<Rightarrow> c)"

lemma parse_cells_Cons:
  assumes "col < length present" "cells_ok (v # vs)"
  shows "parse_cells pre present (v # vs) col t =
    parse_cells pre present vs (Suc col)
      (case present ! col of
         None \<Rightarrow> t
       | Some (name, ty) \<Rightarrow> push_cell name (cell_value pre ty v) t)"
  using assms
  by (cases v) (auto simp: cells_ok_def cell_value_def split: option.split)

lemma parse_cells_ok:
  assumes "present_distinct present" "cells_ok vs" "col + length vs \<le> length present" "umap_wf t"
  shows "\<exists>t'. parse_cells pre present vs col t = Some (col + length vs, t') \<and> umap_wf t' \<and>
    (\<forall>n j ty. col \<le> j \<longrightarrow> j < col + length vs \<longrightarrow> present ! j = Some (n, ty) \<longrightarrow>
       map_of t' n = Some (old_column t n @ [cell_value pre ty (vs ! (j - col))])) \<and>
    (\<forall>n. (\<forall>j ty. col \<le> j \<longrightarrow> j < col + length vs \<longrightarrow> present ! j \<noteq> Some (n, ty)) \<longrightarrow>
       map_of t' n = map_of t n)"
  using assms(2-4)
proof (induction vs arbitrary: col t)
  case Nil
  then show ?case by simp
next
  case (Cons v vs)
  let ?t = "case present ! col of None \<Rightarrow> t
    | Some (name, ty) \<Rightarrow> push_cell name (cell_value pre ty v) t"
  have col: "col < length present" and wf: "umap_wf ?t"
    using Cons.prems by (auto split: option.split)
  have "cells_ok vs" "Suc col + length vs \<le> length present"
    using Cons.prems by (simp_all add: cells_ok_def)
  from Cons.IH [OF this wf] obtain t' where
    t': "parse_cells pre present vs (Suc col) ?t = Some (Suc col + length vs, t')" "umap_wf t'"
    and new: "\<And>n j ty. Suc col \<le> j \<Longrightarrow> j < Suc col + length vs \<Longrightarrow> present ! j = Some (n, ty) \<Longrightarrow>
       map_of t' n = Some (old_column ?t n @ [cell_value pre ty (vs ! (j - Suc col))])"
    and keep: "\<And>n. (\<forall>j ty. Suc col \<le> j \<longrightarrow> j < Suc col + length vs \<longrightarrow> present ! j \<noteq> Some (n, ty)) \<Longrightarrow>
       map_of t' n = map_of ?t n"
    by blast
  have other: "map_of ?t n = map_of t n" if "\<And>ty. present ! col \<noteq> Some (n, ty)" for n
    using that by (auto split: option.split)
  have "map_of t' n = Some (old_column t n @ [cell_value pre ty ((v # vs) ! (j - col))])"
    if j: "col \<le> j" "j < col + length (v # vs)" "present ! j = Some (n, ty)" for n j ty
  proof (cases "j = col")
    case True
    have "present ! j' \<noteq> Some (n, ty')" if "Suc col \<le> j'" "j' < Suc col + length vs" for j' ty'
      using present_distinctD [OF assms(1), of j' col n ty' ty] that j True Cons.prems(2) by auto
    then have "map_of t' n = map_of ?t n" by (intro keep) blast
    with True j show ?thesis by simp
  next
    case False
    then have "present ! col \<noteq> Some (n, ty')" for ty'
      using present_distinctD [OF assms(1), of j col n ty ty'] j col Cons.prems(2) by auto
    with new [of j n ty] other [of n] False j show ?thesis by (simp add: nth_Cons')
  qed
  moreover have "map_of t' n = map_of t n"
    if "\<forall>j ty. col \<le> j \<longrightarrow> j < col + length (v # vs) \<longrightarrow> present ! j \<noteq> Some (n, ty)" for n
    using that keep [of n] other [of n] by simp
  ultimately show ?case
    using t' unfolding parse_cells_Cons [OF col Cons.prems(1)] by auto
qed

lemma parse_row_ok:
  assumes "present_distinct present" "cells_ok vs" "length vs = length present" "umap_wf t"
  shows "\<exists>t'. parse_row pre present (JSON_ARRAY vs) t = Some t' \<and> umap_wf t' \<and>
    (\<forall>n j ty. j < length present \<longrightarrow> present ! j = Some (n, ty) \<longrightarrow>
       map_of t' n = Some (old_column t n @ [cell_value pre ty (vs ! j)])) \<and>
    (\<forall>n. (\<forall>j ty. j < length present \<longrightarrow> present ! j \<noteq> Some (n, ty)) \<longrightarrow> map_of t' n = map_of t n)"
  using parse_cells_ok [OF assms(1,2) _ assms(4), of 0 pre] assms(3)
  by (auto simp: parse_row_def)

lemma parse_row_loop_ok:
  assumes "present_distinct present"
    and "\<forall>vs \<in> set rows. cells_ok vs \<and> length vs = length present" "umap_wf t"
    and "\<forall>j n ty. j < length present \<longrightarrow> present ! j = Some (n, ty) \<longrightarrow> map_of t n \<noteq> None"
  shows "\<exists>t'. parse_row_loop pre present (map JSON_ARRAY rows) t = Some t' \<and> umap_wf t' \<and>
    (\<forall>n j ty. j < length present \<longrightarrow> present ! j = Some (n, ty) \<longrightarrow>
       map_of t' n = Some (old_column t n @ map (\<lambda>vs. cell_value pre ty (vs ! j)) rows)) \<and>
    (\<forall>n. (\<forall>j ty. j < length present \<longrightarrow> present ! j \<noteq> Some (n, ty)) \<longrightarrow> map_of t' n = map_of t n)"
  using assms(2-4)
proof (induction rows arbitrary: t)
  case Nil
  have "map_of t n = Some (old_column t n)"
    if "j < length present" "present ! j = Some (n, ty)" for n j ty
    using Nil.prems(3) that by (cases "map_of t n") auto
  then show ?case using Nil.prems(2) by auto
next
  case (Cons vs rows)
  obtain t1 where t1: "parse_row pre present (JSON_ARRAY vs) t = Some t1" "umap_wf t1"
    and new: "\<And>n j ty. j < length present \<Longrightarrow> present ! j = Some (n, ty) \<Longrightarrow>
       map_of t1 n = Some (old_column t n @ [cell_value pre ty (vs ! j)])"
    and keep: "\<And>n. (\<forall>j ty. j < length present \<longrightarrow> present ! j \<noteq> Some (n, ty)) \<Longrightarrow>
       map_of t1 n = map_of t n"
    using parse_row_ok [OF assms(1) _ _ Cons.prems(2), of vs pre] Cons.prems(1) by auto
  have "\<forall>vs \<in> set rows. cells_ok vs \<and> length vs = length present"
    "\<forall>j n ty. j < length present \<longrightarrow> present ! j = Some (n, ty) \<longrightarrow> map_of t1 n \<noteq> None"
    using Cons.prems(1) new by auto
  from Cons.IH [OF this(1) t1(2) this(2)] obtain t' where
    "parse_row_loop pre present (map JSON_ARRAY rows) t1 = Some t'" "umap_wf t'"
    "\<And>n j ty. j < length present \<Longrightarrow> present ! j = Some (n, ty) \<Longrightarrow>
       map_of t' n = Some (old_column t1 n @ map (\<lambda>vs. cell_value pre ty (vs ! j)) rows)"
    "\<And>n. (\<forall>j ty. j < length present \<longrightarrow> present ! j \<noteq> Some (n, ty)) \<Longrightarrow> map_of t' n = map_of t1 n"
    by blast
  with t1 new keep show ?case by (auto simp del: map_of_eq_Some_iff)
qed

text \<open>The response a server sends for a table.\<close>

definition table_response :: "string list \<Rightarrow> json list list \<Rightarrow> json" where
  "table_response headers rows =
     JSON_OBJECT
       [(''type'', JSON_STRING ''table''),
        (''content'', JSON_OBJECT
           [(''headers'', JSON_ARRAY (map JSON_STRING headers)),
            (''rows'', JSON_ARRAY (map JSON_ARRAY rows))])]"

lemma jsonToTableData_response:
  assumes "distinct (map tc_name cols)"
    and "jsonParse response = Some (table_response headers rows)"
    and "present_distinct (map (header_column cols) headers)"
    and "\<forall>r \<in> set rows. cells_ok r \<and> length r = length headers"
  shows "\<exists>t. jsonToTableData jsonParse odd_nodes pre cols (init cols) response =
      Inr \<lparr>ptd_data = Some t, ptd_success = True, ptd_failure_reason = ''''\<rparr> \<and>
    umap_wf t \<and> rectangular (length rows) t \<and>
    (\<forall>j n ty. j < length headers \<longrightarrow> header_column cols (headers ! j) = Some (n, ty) \<longrightarrow>
       map_of t n = Some (map (\<lambda>r. cell_value pre ty (r ! j)) rows)) \<and>
    (\<forall>n. (\<forall>h \<in> set headers. \<forall>ty. header_column cols h \<noteq> Some (n, ty)) \<longrightarrow> map_of t n = None)"
proof -
  let ?present = "map (header_column cols) headers"
  obtain t0 where t0: "parse_header_loop cols (init cols) (map JSON_STRING headers) [] [] =
      Inr (Some (?present, t0))" "umap_wf t0"
    and cols0: "\<And>n. map_of t0 n = (if \<exists>h \<in> set headers. \<exists>ty. header_column cols h = Some (n, ty)
        then Some [] else None)"
    using parse_header_loop_ok [OF assms(1), of "[]" headers "[]"] by auto
  have known: "\<forall>j n ty. j < length ?present \<longrightarrow> ?present ! j = Some (n, ty) \<longrightarrow> map_of t0 n = Some []"
    using cols0 by auto
  then have "\<forall>j n ty. j < length ?present \<longrightarrow> ?present ! j = Some (n, ty) \<longrightarrow> map_of t0 n \<noteq> None"
    by auto
  from parse_row_loop_ok [OF assms(3) _ t0(2) this, of rows pre] assms(4) obtain t where
    t: "parse_row_loop pre ?present (map JSON_ARRAY rows) t0 = Some t" "umap_wf t"
    and new: "\<And>n j ty. j < length ?present \<Longrightarrow> ?present ! j = Some (n, ty) \<Longrightarrow>
       map_of t n = Some (old_column t0 n @ map (\<lambda>vs. cell_value pre ty (vs ! j)) rows)"
    and keep: "\<And>n. (\<forall>j ty. j < length ?present \<longrightarrow> ?present ! j \<noteq> Some (n, ty)) \<Longrightarrow>
       map_of t n = map_of t0 n"
    by auto
  have cols: "map_of t n = Some (map (\<lambda>r. cell_value pre ty (r ! j)) rows)"
    if "j < length headers" "header_column cols (headers ! j) = Some (n, ty)" for j n ty
    using new [of j n ty] known that by simp
  have none: "map_of t n = None"
    if "\<forall>h \<in> set headers. \<forall>ty. header_column cols h \<noteq> Some (n, ty)" for n
    using keep [of n] cols0 [of n] that by auto
  have "length c = length rows" if "(n, c) \<in> set t" for n c
  proof -
    have nc: "map_of t n = Some c" using that t(2) by simp
    then obtain h ty where "h \<in> set headers" "header_column cols h = Some (n, ty)"
      using none [of n] by auto
    then obtain j where "j < length headers" "header_column cols (headers ! j) = Some (n, ty)"
      by (auto simp: in_set_conv_nth)
    from cols [OF this] nc show ?thesis by auto
  qed
  then have "rectangular (length rows) t" by (auto simp: rectangular_def)
  moreover have "jsonToTableData jsonParse odd_nodes pre cols (init cols) response =
      Inr \<lparr>ptd_data = Some t, ptd_success = True, ptd_failure_reason = ''''\<rparr>"
    using t0(1) t(1)
    by (simp add: jsonToTableData_def assms(2) table_response_def json_nodes_def parse_headers_def
        parse_rows_def)
  ultimately show ?thesis using cols none t(2) by blast
qed

text \<open>
  \<^bold>\<open>C15.\<close> A table response whose rows have one string or null per header, and in which no two
  headers denote the same column, is parsed completely: every header that denotes a column of the
  table yields that column with one cell per row, taken from the header's position, unknown headers
  are dropped, and all columns have the length of the row list.
\<close>

theorem json_table_parsed:
  assumes "distinct (map tc_name cols)"
    and "jsonParse response = Some (table_response headers rows)"
    and "present_distinct (map (header_column cols) headers)"
    and "\<forall>r \<in> set rows. cells_ok r \<and> length r = length headers"
  shows "\<exists>t. jsonToTableData jsonParse odd_nodes pre cols (init cols) response =
      Inr \<lparr>ptd_data = Some t, ptd_success = True, ptd_failure_reason = ''''\<rparr> \<and>
    umap_wf t \<and> rectangular (length rows) t \<and>
    (\<forall>j n ty. j < length headers \<longrightarrow> header_column cols (headers ! j) = Some (n, ty) \<longrightarrow>
       map_of t n = Some (map (\<lambda>r. cell_value pre ty (r ! j)) rows)) \<and>
    (\<forall>n. (\<forall>h \<in> set headers. \<forall>ty. header_column cols h \<noteq> Some (n, ty)) \<longrightarrow> map_of t n = None)"
  using assms by (rule jsonToTableData_response)

theorem json_table_parsed_witness:
  "\<exists>t. jsonToTableData
       (\<lambda>_. Some (table_response [''Name'', ''shards''] [[JSON_STRING ''s1'', JSON_NULL]]))
       (\<lambda>_. []) (\<lambda>_ v. v) (getFetchableColumns Streams) (init (getFetchableColumns Streams)) [] =
     Inr \<lparr>ptd_data = Some t, ptd_success = True, ptd_failure_reason = ''''\<rparr> \<and>
     map_of t ''name'' = Some [Some ''s1'']"
proof -
  have cols: "map (header_column (getFetchableColumns Streams)) [''Name'', ''shards''] =
      [Some (''name'', DT_TEXT), None]"
    by code_simp
  then have "present_distinct
      (map (header_column (getFetchableColumns Streams)) [''Name'', ''shards''])"
    unfolding cols present_distinct_def by (auto simp: less_Suc_eq)
  moreover have "distinct (map tc_name (getFetchableColumns Streams))"
    by (simp add: Streams_def)
  ultimately have "\<exists>t. jsonToTableData
       (\<lambda>_. Some (table_response [''Name'', ''shards''] [[JSON_STRING ''s1'', JSON_NULL]]))
       (\<lambda>_. []) (\<lambda>_ v. v) (getFetchableColumns Streams) (init (getFetchableColumns Streams)) [] =
     Inr \<lparr>ptd_data = Some t, ptd_success = True, ptd_failure_reason = ''''\<rparr> \<and>
     (\<forall>j n ty. j < length [''Name'', ''shards''] \<longrightarrow>
        header_column (getFetchableColumns Streams) ([''Name'', ''shards''] ! j) = Some (n, ty) \<longrightarrow>
        map_of t n = Some (map (\<lambda>r. cell_value (\<lambda>_ v. v) ty (r ! j)) [[JSON_STRING ''s1'', JSON_NULL]]))"
    using json_table_parsed [where cols = "getFetchableColumns Streams" and response = "[]"
        and headers = "[''Name'', ''shards'']" and rows = "[[JSON_STRING ''s1'', JSON_NULL]]"
        and jsonParse = "\<lambda>_. Some (table_response [''Name'', ''shards''] [[JSON_STRING ''s1'', JSON_NULL]])"
        and pre = "\<lambda>_ v. v" and odd_nodes = "\<lambda>_. []"]
    by (fastforce simp: cells_ok_def)
  moreover have "header_column (getFetchableColumns Streams) ''Name'' = Some (''name'', DT_TEXT)"
    using cols by simp
  ultimately show ?thesis by (fastforce simp: cell_value_def)
qed

end
