(* ===== verification/Admin_Client.thy ===== *)
theory Admin_Client
  imports Admin_Json "HOL-Library.Multiset"
begin

text \<open>
  \<open>AdminCommandClient\<close> (\<open>clients/cpp/src/AdminClient.{h,cpp}\<close>) and \<open>transformDataParallel\<close> of
  \<open>AdminCommandTable.cpp\<close>: sending one admin command to many nodes and parsing the responses on up
  to 32 threads. The gRPC calls are parameters: what a call returned, or the exception it threw.
\<close>

section \<open>The client\<close>

record ServerNode =
  sn_id :: u32
  sn_host :: string
  sn_port :: u32

record Request =
  rq_addr :: string
  rq_request :: string

record Response =
  rsp_response :: string
  rsp_success :: bool
  rsp_failure_reason :: string

text \<open>A gRPC call: the reply, or the error code and message of its status.\<close>

datatype 'a grpc = Grpc_ok 'a | Grpc_error int string

definition getNodesConfiguration :: "ServerNode list grpc \<Rightarrow> ServerNode list option" where
  "getNodesConfiguration describeCluster =
     (case describeCluster of Grpc_ok nodes \<Rightarrow> Some nodes | Grpc_error _ _ \<Rightarrow> None)"

definition sendAdminCommand ::
    "(string \<Rightarrow> string \<Rightarrow> string grpc) \<Rightarrow> Request \<Rightarrow> Response" where
  "sendAdminCommand SendAdminCommand req =
     (case SendAdminCommand (rq_addr req) (rq_request req) of
        Grpc_ok res \<Rightarrow> \<lparr>rsp_response = res, rsp_success = True, rsp_failure_reason = ''''\<rparr>
      | Grpc_error code msg \<Rightarrow>
          \<lparr>rsp_response = '''', rsp_success = False,
           rsp_failure_reason = to_string code @ '': '' @ msg\<rparr>)"

text \<open>
  \<open>asyncSend\<close> starts one future per request; what it delivers is the response or the exception
  the call threw (\<open>throws\<close>).
\<close>

definition asyncSend ::
    "(string \<Rightarrow> string \<Rightarrow> string grpc) \<Rightarrow> (Request \<Rightarrow> string option) \<Rightarrow>
     Request list \<Rightarrow> (string + Response) list" where
  "asyncSend SendAdminCommand throws rs =
     map (\<lambda>r. case throws r of
                Some what \<Rightarrow> Inl what
              | None \<Rightarrow> Inr (sendAdminCommand SendAdminCommand r)) rs"

text \<open>\<open>send\<close>: \<open>collectAll\<close> keeps the order of the requests.\<close>

definition send ::
    "(string \<Rightarrow> string \<Rightarrow> string grpc) \<Rightarrow> (Request \<Rightarrow> string option) \<Rightarrow>
     Request list \<Rightarrow> Response list" where
  "send SendAdminCommand throws rs =
     map (\<lambda>res. case res of
                  Inr v \<Rightarrow> v
                | Inl what \<Rightarrow>
                    \<lparr>rsp_response = '''', rsp_success = False, rsp_failure_reason = what\<rparr>)
       (asyncSend SendAdminCommand throws rs)"

section \<open>Parsing the responses in parallel\<close>

text \<open>
  The body of a worker's loop for index \<open>i\<close>: it writes \<open>outputs[i]\<close> and \<open>responses[i]\<close> only. An
  exception that leaves the function of a \<open>std::thread\<close> terminates the process.
\<close>

definition transform_one ::
    "(string \<Rightarrow> PartialTableData result) \<Rightarrow> nat \<Rightarrow> Response list \<times> table_data list \<Rightarrow>
     (Response list \<times> table_data list) result" where
  "transform_one transform i st =
     (case st of
        (responses, outputs) \<Rightarrow>
          if rsp_success (responses ! i) then
            (case transform (rsp_response (responses ! i)) of
               Inl e \<Rightarrow> Inl (StdException ''terminate'')
             | Inr partial \<Rightarrow>
                 if ptd_success partial
                 then Inr (responses, outputs[i := the (ptd_data partial)])
                 else Inr (responses[i := (responses ! i)\<lparr>rsp_success := False,
                              rsp_failure_reason := ptd_failure_reason partial\<rparr>], outputs))
          else Inr st)"

text \<open>The index ranges of the threads: \<open>[from, min(to, n))\<close>.\<close>

definition num_per_thread :: "nat \<Rightarrow> nat" where
  "num_per_thread n = n div 32 + 1"

definition thread_ranges :: "nat \<Rightarrow> nat list list" where
  "thread_ranges n =
     map (\<lambda>i. [i * num_per_thread n ..< min (i * num_per_thread n + num_per_thread n) n])
       (takeWhile (\<lambda>i. i * num_per_thread n < n) [0..<32])"

text \<open>
  The threads run interleaved: \<open>schedule\<close> lists the loop iterations of all threads in the order
  in which they take effect.
\<close>

definition transformDataParallel ::
    "(string \<Rightarrow> PartialTableData result) \<Rightarrow> nat list \<Rightarrow> Response list \<Rightarrow>
     (Response list \<times> table_data list) result" where
  "transformDataParallel transform schedule responses =
     fold_result (transform_one transform) schedule
       (responses, replicate (length responses) [])"

section \<open>The threads cover every response exactly once\<close>

lemma concat_blocks:
  "concat (map (\<lambda>i. [i * k ..< min (i * k + k) n]) [0..<m]) = [0 ..< min (m * k) n]"
proof (induction m)
  case 0
  then show ?case by simp
next
  case (Suc m)
  show ?case
  proof (cases "m * k < n")
    case True
    then have "[0 ..< min (m * k) n] @ [m * k ..< min (m * k + k) n] = [0 ..< min (m * k + k) n]"
      using upt_add_eq_append [of 0 "m * k" "min (m * k + k) n - m * k"] by (simp add: min_def)
    then show ?thesis using Suc by (simp add: add.commute)
  next
    case False
    then show ?thesis using Suc by (simp add: min_def)
  qed
qed

lemma blocks_enough: "n \<le> 32 * num_per_thread n"
  unfolding num_per_thread_def by presburger

lemma takeWhile_less_upt: "takeWhile (\<lambda>i. i < (a::nat)) [0..<b] = [0..<min a b]"
proof (induction b)
  case 0
  then show ?case by simp
next
  case (Suc b)
  show ?case
  proof (cases "b < a")
    case True
    then have "takeWhile (\<lambda>i. i < a) [0..<Suc b] = [0..<Suc b]"
      by (simp only: takeWhile_eq_all_conv) auto
    with True show ?thesis by (simp only: min_absorb2 Suc_leI)
  next
    case False
    then have "takeWhile (\<lambda>i. i < a) ([0..<b] @ [b]) = takeWhile (\<lambda>i. i < a) [0..<b]"
      by (simp add: takeWhile_tail)
    with False Suc show ?thesis by (simp add: min_def)
  qed
qed

lemma thread_ranges_cover: "concat (thread_ranges n) = [0..<n]"
proof -
  let ?k = "num_per_thread n"
  define m where "m = (n + ?k - 1) div ?k"
  have k: "0 < ?k" by (simp add: num_per_thread_def)
  have iff: "i * ?k < n \<longleftrightarrow> i < m" for i
  proof -
    have "i < m \<longleftrightarrow> Suc i \<le> (n + ?k - 1) div ?k" by (auto simp: m_def)
    also have "\<dots> \<longleftrightarrow> Suc i * ?k \<le> n + ?k - 1" using k by (simp add: less_eq_div_iff_mult_less_eq)
    also have "\<dots> \<longleftrightarrow> i * ?k < n" using k by auto
    finally show ?thesis by simp
  qed
  have "\<not> 32 * ?k < n" using blocks_enough [of n] by simp
  then have m32: "m \<le> 32" using iff [of 32] by simp
  then have "thread_ranges n = map (\<lambda>i. [i * ?k ..< min (i * ?k + ?k) n]) [0..<m]"
    by (simp add: thread_ranges_def iff takeWhile_less_upt min_def)
  moreover have "n \<le> m * ?k" using iff [of m] by simp
  ultimately show ?thesis by (simp only: concat_blocks min_absorb2)
qed
section \<open>Independence of the schedule\<close>

text \<open>What the sequential program does with one response, and when parsing throws.\<close>

definition transform_outcome ::
    "(string \<Rightarrow> PartialTableData result) \<Rightarrow> Response \<Rightarrow> Response \<times> table_data" where
  "transform_outcome transform r =
     (if rsp_success r then
        (case transform (rsp_response r) of
           Inr partial \<Rightarrow>
             if ptd_success partial then (r, the (ptd_data partial))
             else (r\<lparr>rsp_success := False, rsp_failure_reason := ptd_failure_reason partial\<rparr>, [])
         | Inl e \<Rightarrow> (r, []))
      else (r, []))"

definition transform_throws :: "(string \<Rightarrow> PartialTableData result) \<Rightarrow> Response \<Rightarrow> bool" where
  "transform_throws transform r \<longleftrightarrow>
     rsp_success r \<and> (case transform (rsp_response r) of Inl _ \<Rightarrow> True | Inr _ \<Rightarrow> False)"

lemma transform_one_throws:
  "transform_throws transform (rs ! i) \<Longrightarrow>
     transform_one transform i (rs, os) = Inl (StdException ''terminate'')"
  by (auto simp: transform_throws_def transform_one_def split: sum.splits)

lemma transform_one_step:
  assumes "\<not> transform_throws transform (rs ! i)" "os ! i = []"
    "i < length rs" "length os = length rs"
  shows "transform_one transform i (rs, os) =
    Inr (rs[i := fst (transform_outcome transform (rs ! i))],
         os[i := snd (transform_outcome transform (rs ! i))])"
proof -
  have "os[i := []] = os" using assms(2) list_update_id [of os i] by simp
  then show ?thesis
    using assms
    by (auto simp: transform_throws_def transform_one_def transform_outcome_def split: sum.splits)
qed

lemma transform_schedule:
  assumes "distinct sched" "\<forall>i \<in> set sched. i < length rs \<and> os ! i = []" "length os = length rs"
  shows "fold_result (transform_one transform) sched (rs, os) =
    (if \<exists>i \<in> set sched. transform_throws transform (rs ! i) then Inl (StdException ''terminate'')
     else Inr (map (\<lambda>i. if i \<in> set sched then fst (transform_outcome transform (rs ! i)) else rs ! i)
                 [0..<length rs],
               map (\<lambda>i. if i \<in> set sched then snd (transform_outcome transform (rs ! i)) else os ! i)
                 [0..<length rs]))"
  using assms
proof (induction sched arbitrary: rs os)
  case Nil
  then show ?case using map_nth [of rs] map_nth [of os] by simp
next
  case (Cons i sched)
  show ?case
  proof (cases "transform_throws transform (rs ! i)")
    case True
    then show ?thesis by (simp add: transform_one_throws)
  next
    case False
    let ?rs = "rs[i := fst (transform_outcome transform (rs ! i))]"
    let ?os = "os[i := snd (transform_outcome transform (rs ! i))]"
    have step: "transform_one transform i (rs, os) = Inr (?rs, ?os)"
      using transform_one_step [OF False] Cons.prems by simp
    have i: "i \<notin> set sched" "i < length rs" "length os = length rs"
      using Cons.prems by auto
    have same: "?rs ! j = rs ! j" "?os ! j = os ! j" if "i \<noteq> j" for j
      using that by simp_all
    have here: "?rs ! i = fst (transform_outcome transform (rs ! i))"
      "?os ! i = snd (transform_outcome transform (rs ! i))"
      using i by simp_all
    have ne: "i \<noteq> j" if "j \<in> set sched" for j using that i(1) by auto
    have ih: "fold_result (transform_one transform) sched (?rs, ?os) =
      (if \<exists>i \<in> set sched. transform_throws transform (?rs ! i) then Inl (StdException ''terminate'')
       else Inr (map (\<lambda>i. if i \<in> set sched then fst (transform_outcome transform (?rs ! i))
                          else ?rs ! i) [0..<length ?rs],
                 map (\<lambda>i. if i \<in> set sched then snd (transform_outcome transform (?rs ! i))
                          else ?os ! i) [0..<length ?rs]))"
    proof (rule Cons.IH)
      show "\<forall>j \<in> set sched. j < length ?rs \<and> ?os ! j = []"
        using Cons.prems(2) ne by (intro ballI) simp
    qed (use Cons.prems in simp_all)
    have throws: "(\<exists>j \<in> set sched. transform_throws transform (?rs ! j)) \<longleftrightarrow>
        (\<exists>j \<in> set (i # sched). transform_throws transform (rs ! j))"
      using ne False by simp
    have "(if j \<in> set sched then fst (transform_outcome transform (?rs ! j)) else ?rs ! j) =
        (if j \<in> set (i # sched) then fst (transform_outcome transform (rs ! j)) else rs ! j)" for j
      using here i(1) ne [of j] by (cases "i = j") (auto simp: same)
    moreover have "(if j \<in> set sched then snd (transform_outcome transform (?rs ! j)) else ?os ! j) =
        (if j \<in> set (i # sched) then snd (transform_outcome transform (rs ! j)) else os ! j)" for j
      using here i(1) ne [of j] by (cases "i = j") (auto simp: same)
    ultimately show ?thesis
      using ih step throws by simp
  qed
qed

lemma transform_parallel_schedule:
  assumes "mset schedule = mset (concat (thread_ranges (length responses)))"
  shows "transformDataParallel transform schedule responses =
    (if \<exists>r \<in> set responses. transform_throws transform r then Inl (StdException ''terminate'')
     else Inr (map (fst \<circ> transform_outcome transform) responses,
               map (snd \<circ> transform_outcome transform) responses))"
proof -
  let ?n = "length responses"
  have sched: "mset schedule = mset [0..<?n]"
    using assms by (simp add: thread_ranges_cover)
  have d: "distinct schedule" and st: "set schedule = {0..<?n}"
    using mset_eq_imp_distinct_iff [OF sched] mset_eq_setD [OF sched] by simp_all
  have "transformDataParallel transform schedule responses =
    (if \<exists>i \<in> set schedule. transform_throws transform (responses ! i)
     then Inl (StdException ''terminate'')
     else Inr (map (\<lambda>i. fst (transform_outcome transform (responses ! i))) [0..<?n],
               map (\<lambda>i. snd (transform_outcome transform (responses ! i))) [0..<?n]))"
    unfolding transformDataParallel_def
    by (subst transform_schedule) (auto simp: d st)
  moreover have "(\<exists>i \<in> set schedule. transform_throws transform (responses ! i)) \<longleftrightarrow>
      (\<exists>r \<in> set responses. transform_throws transform r)"
    unfolding st by (simp add: set_conv_nth Bex_def) blast
  moreover have "map (\<lambda>i. fst (transform_outcome transform (responses ! i))) [0..<?n] =
      map (fst \<circ> transform_outcome transform) responses"
    "map (\<lambda>i. snd (transform_outcome transform (responses ! i))) [0..<?n] =
      map (snd \<circ> transform_outcome transform) responses"
    by (rule nth_equalityI; simp)+
  ultimately show ?thesis by (simp only:)
qed

text \<open>
  \<^bold>\<open>C16.\<close> Parsing in parallel does what parsing the responses one after the other does: for every
  interleaving of the worker threads, if no response makes the parser throw, each response is parsed
  exactly once and its table, or its failure, lands at its own position; if one does, the process is
  terminated.
\<close>

theorem transform_parallel_is_sequential:
  assumes "mset schedule = mset (concat (thread_ranges (length responses)))"
  shows "transformDataParallel transform schedule responses =
    (if \<exists>r \<in> set responses. transform_throws transform r then Inl (StdException ''terminate'')
     else Inr (map (fst \<circ> transform_outcome transform) responses,
               map (snd \<circ> transform_outcome transform) responses))"
  using assms by (rule transform_parallel_schedule)

theorem transform_parallel_is_sequential_witness:
  "transformDataParallel (\<lambda>_. Inr (ptd_failure ''JSON_PARSE_ERROR'')) [1, 0]
     [\<lparr>rsp_response = ''x'', rsp_success = True, rsp_failure_reason = ''''\<rparr>,
      \<lparr>rsp_response = '''', rsp_success = False, rsp_failure_reason = ''14: down''\<rparr>] =
   Inr ([\<lparr>rsp_response = ''x'', rsp_success = False, rsp_failure_reason = ''JSON_PARSE_ERROR''\<rparr>,
         \<lparr>rsp_response = '''', rsp_success = False, rsp_failure_reason = ''14: down''\<rparr>],
        [[], []])"
proof -
  let ?rs = "[\<lparr>rsp_response = ''x'', rsp_success = True, rsp_failure_reason = ''''\<rparr>,
      \<lparr>rsp_response = '''', rsp_success = False, rsp_failure_reason = ''14: down''\<rparr>]"
  have "mset [1, 0] = mset (concat (thread_ranges (length ?rs)))"
    by (simp add: thread_ranges_cover upt_rec)
  from transform_parallel_is_sequential [OF this, of "\<lambda>_. Inr (ptd_failure ''JSON_PARSE_ERROR'')"]
  show ?thesis
    by (simp add: transform_throws_def transform_outcome_def ptd_failure_def)
qed

text \<open>
  \<^bold>\<open>C17.\<close> A response whose type is not \<open>table\<close>, such as the error a server reports for a command
  it cannot run, makes the parser throw, and because the parser runs inside a worker thread the
  whole process is terminated instead of the node being reported as failed.
\<close>

theorem error_response_terminates:
  assumes "mset schedule = mset (concat (thread_ranges (length responses)))"
    and "r \<in> set responses" "rsp_success r" "t \<noteq> ''table''"
    and "jsonParse (rsp_response r) = Some (JSON_OBJECT [(''type'', JSON_STRING t), (''content'', c)])"
  shows "transformDataParallel (transformData JSON_TABLE jsonParse odd_nodes pre cols (init cols))
    schedule responses = Inl (StdException ''terminate'')"
proof -
  have "transform_throws (transformData JSON_TABLE jsonParse odd_nodes pre cols (init cols)) r"
    using assms(3-5) by (simp add: transform_throws_def transformData_def jsonToTableData_def)
  with assms(2) show ?thesis
    unfolding transform_parallel_schedule [OF assms(1)] by auto
qed

theorem error_response_terminates_witness:
  "transformDataParallel (transformData JSON_TABLE
       (\<lambda>_. Some (JSON_OBJECT [(''type'', JSON_STRING ''error''), (''content'', JSON_STRING ''no'')]))
       (\<lambda>_. []) (\<lambda>_ v. v) (getFetchableColumns Streams) (init (getFetchableColumns Streams))) [0]
     [\<lparr>rsp_response = ''x'', rsp_success = True, rsp_failure_reason = ''''\<rparr>] =
   Inl (StdException ''terminate'')"
proof (rule error_response_terminates)
  show "mset [0] = mset (concat (thread_ranges
      (length [\<lparr>rsp_response = ''x'', rsp_success = True, rsp_failure_reason = ''''\<rparr>])))"
    by (simp add: thread_ranges_cover)
  show "\<lparr>rsp_response = ''x'', rsp_success = True, rsp_failure_reason = ''''\<rparr> \<in>
      set [\<lparr>rsp_response = ''x'', rsp_success = True, rsp_failure_reason = ''''\<rparr>]"
    by simp
qed simp_all

end
