(* ===== verification/Admin_Query.thy ===== *)
theory Admin_Query
  imports Admin_Client
begin

text \<open>
  The query side of \<open>AdminCommandTable\<close> (\<open>AdminCommandTable.{h,cpp}\<close>): choosing the nodes to ask
  from the constraints of a query (\<open>selectNodes\<close>), the cache of fetched tables (\<open>refillCache\<close>,
  \<open>newQuery\<close>) and serving a query from the cache through an index (\<open>getData\<close>).

  Parameters, fields of \<open>admin_env\<close>: the gRPC calls, the interleaving of the parser threads, the
  iteration order of \<open>std::unordered_set\<close>, \<open>folly::to<int>\<close>, gason, the virtual functions of a
  concrete table, and of LogDevice's query library the type \<open>'cl\<close> of constraint lists with its
  operations, \<open>numRows\<close>, \<open>preprocessColumn\<close> and the validity of an \<open>entry_with_ttl\<close>, of which
  the model keeps the value and a time stamp \<open>'tm\<close>. Log output and timing are left out, and an
  exception gives its value only, not the state it leaves behind.
\<close>

section \<open>Constraints\<close>

text \<open>The operators the code compares with; \<open>OP_OTHER\<close> is any other SQLite operator.\<close>

datatype constraint_op = OP_EQ | OP_GT | OP_LE | OP_LT | OP_GE | OP_OTHER nat

record Constraint =
  c_op :: constraint_op
  c_expr :: "string option"

type_synonym 'cl ConstraintMap = "(int, 'cl) umap"

record 'cl QueryContext =
  q_constraints :: "'cl ConstraintMap"
  q_used_constraints :: "'cl ConstraintMap"

section \<open>State and environment\<close>

record Data =
  d_data :: table_data
  d_indices :: "(int, (string, nat list) umap) umap"

type_synonym ('cl, 'tm) cache = "('cl ConstraintMap \<times> (Data \<times> 'tm)) list"

record ('cl, 'tm) AdminCommandTable =
  columns_' :: "TableColumn list"
  nameToPosMap_' :: "(string, nat) umap"
  admin_cmd_cache_' :: "('cl, 'tm) cache"
  num_fetches_' :: nat
  cache_ttl_' :: int
  enable_server_side_filtering_' :: bool
  contacted_nodes :: nat                       \<comment> \<open>of \<open>ctx_->activeQueryMetadata\<close>\<close>
  failures :: "(u32, string \<times> string) umap"  \<comment> \<open>address and reason, by node\<close>

record ('cl, 'tm) admin_env =
  env_describeCluster :: "ServerNode list grpc"
  env_SendAdminCommand :: "string \<Rightarrow> string \<Rightarrow> string grpc"
  env_throws :: "Request \<Rightarrow> string option"
  env_schedule :: "nat list"
  env_iter :: "nat list \<Rightarrow> nat list"
  env_to_int :: "string \<Rightarrow> int option"
  env_jsonParse :: "string \<Rightarrow> json option"
  env_odd_nodes :: "json \<Rightarrow> (string \<times> json) list"
  env_pre :: "DataType \<Rightarrow> string option \<Rightarrow> string option"
  env_numRows :: "table_data \<Rightarrow> nat"
  env_columns :: "TableColumn list"
  env_command :: "'cl QueryContext \<Rightarrow> string \<times> 'cl QueryContext"
  env_constraints :: "'cl \<Rightarrow> Constraint list"
  env_cl_new :: 'cl
  env_cl_add :: "Constraint \<Rightarrow> 'cl \<Rightarrow> 'cl"
  env_same :: "'cl ConstraintMap \<Rightarrow> 'cl ConstraintMap \<Rightarrow> bool"
  env_now :: 'tm
  env_isValid :: "int \<Rightarrow> 'tm \<Rightarrow> bool"

text \<open>\<open>init\<close> of the class, and the columns with \<open>node_id\<close> in front, computed once.\<close>

definition table_init ::
    "('cl, 'tm) admin_env \<Rightarrow> ('cl, 'tm) AdminCommandTable \<Rightarrow> ('cl, 'tm) AdminCommandTable" where
  "table_init env st =
     st\<lparr>nameToPosMap_' := init_positions 0 (env_columns env) (nameToPosMap_' st)\<rparr>"

definition getColumnsImpl ::
    "('cl, 'tm) admin_env \<Rightarrow> ('cl, 'tm) AdminCommandTable \<Rightarrow>
     TableColumn list \<times> ('cl, 'tm) AdminCommandTable" where
  "getColumnsImpl env st =
     (let st = (if columns_' st = [] then
                  st\<lparr>columns_' :=
                    column ''node_id'' DT_INTEGER ''Node ID this row is for.'' # env_columns env\<rparr>
                else st)
      in (columns_' st, st))"

definition MAX_FETCHES :: nat where
  "MAX_FETCHES = 5"

definition allowServerSideFiltering :: "('cl, 'tm) AdminCommandTable \<Rightarrow> bool" where
  "allowServerSideFiltering st \<longleftrightarrow>
     enable_server_side_filtering_' st \<and> num_fetches_' st \<le> MAX_FETCHES"

definition enableServerSideFiltering ::
    "bool \<Rightarrow> ('cl, 'tm) AdminCommandTable \<Rightarrow> ('cl, 'tm) AdminCommandTable" where
  "enableServerSideFiltering val st = st\<lparr>enable_server_side_filtering_' := val\<rparr>"

definition setCacheTTL ::
    "int \<Rightarrow> ('cl, 'tm) AdminCommandTable \<Rightarrow> ('cl, 'tm) AdminCommandTable" where
  "setCacheTTL ttl st = st\<lparr>cache_ttl_' := ttl\<rparr>"

definition newQuery ::
    "('cl, 'tm) admin_env \<Rightarrow> ('cl, 'tm) AdminCommandTable \<Rightarrow> ('cl, 'tm) AdminCommandTable" where
  "newQuery env st =
     st\<lparr>admin_cmd_cache_' :=
          filter (\<lambda>e. env_isValid env (cache_ttl_' st) (snd (snd e))) (admin_cmd_cache_' st),
        num_fetches_' := 0\<rparr>"

text \<open>The cache is keyed by constraint maps, compared by the library's equality.\<close>

definition cache_find ::
    "('cl, 'tm) admin_env \<Rightarrow> 'cl ConstraintMap \<Rightarrow> ('cl, 'tm) cache \<Rightarrow> (Data \<times> 'tm) option" where
  "cache_find env k cache = map_option snd (find (\<lambda>e. env_same env (fst e) k) cache)"

definition cache_put ::
    "('cl, 'tm) admin_env \<Rightarrow> 'cl ConstraintMap \<Rightarrow> Data \<times> 'tm \<Rightarrow> ('cl, 'tm) cache \<Rightarrow>
     ('cl, 'tm) cache" where
  "cache_put env k v cache =
     (if cache_find env k cache = None then (k, v) # cache
      else map (\<lambda>e. if env_same env (fst e) k then (fst e, v) else e) cache)"

definition dataIsInCacheForUsedConstraints ::
    "('cl, 'tm) admin_env \<Rightarrow> ('cl, 'tm) AdminCommandTable \<Rightarrow> 'cl ConstraintMap \<Rightarrow> bool" where
  "dataIsInCacheForUsedConstraints env st used \<longleftrightarrow>
     cache_find env used (admin_cmd_cache_' st) \<noteq> None"

section \<open>Selecting nodes\<close>

datatype MatchResult = MATCH | NO_MATCH | UNUSED

text \<open>
  The node id is an unsigned 32-bit number converted to \<open>int32_t\<close>; \<open>folly::to<int>\<close> throws when
  the expression is not a number, whatever the operator.
\<close>

definition nodeMatchesConstraint ::
    "(string \<Rightarrow> int option) \<Rightarrow> i32 \<Rightarrow> Constraint \<Rightarrow> MatchResult result" where
  "nodeMatchesConstraint to_int nid c =
     (case c_expr c of
        None \<Rightarrow> Inr UNUSED
      | Some expr \<Rightarrow>
          (case to_int expr of
             None \<Rightarrow> Inl (StdException ''folly::ConversionError'')
           | Some node_id \<Rightarrow>
               Inr (case c_op c of
                      OP_EQ \<Rightarrow> if sint nid \<noteq> node_id then NO_MATCH else MATCH
                    | OP_LT \<Rightarrow> if sint nid \<ge> node_id then NO_MATCH else MATCH
                    | OP_GT \<Rightarrow> if sint nid \<le> node_id then NO_MATCH else MATCH
                    | OP_LE \<Rightarrow> if sint nid > node_id then NO_MATCH else MATCH
                    | OP_GE \<Rightarrow> if sint nid < node_id then NO_MATCH else MATCH
                    | OP_OTHER _ \<Rightarrow> UNUSED)))"

text \<open>The loop over the constraints for one node: the used constraints and \<open>skip\<close>.\<close>

definition check_constraint ::
    "(string \<Rightarrow> int option) \<Rightarrow> ServerNode \<Rightarrow> nat \<times> Constraint \<Rightarrow> nat list \<times> bool \<Rightarrow>
     (nat list \<times> bool) result" where
  "check_constraint to_int node ic st =
     (case (ic, st) of
        ((i, c), (used, skip)) \<Rightarrow>
          (case nodeMatchesConstraint to_int (sn_id node) c of
             Inl e \<Rightarrow> Inl e
           | Inr res \<Rightarrow>
               Inr (if res \<noteq> UNUSED then List.insert i used else used, skip \<or> res = NO_MATCH)))"

definition select_node ::
    "(string \<Rightarrow> int option) \<Rightarrow> Constraint list option \<Rightarrow> ServerNode \<Rightarrow>
     nat list \<times> ServerNode list \<Rightarrow> (nat list \<times> ServerNode list) result" where
  "select_node to_int constraints node st =
     (case st of
        (used, res) \<Rightarrow>
          (case constraints of
             None \<Rightarrow> Inr (used, res @ [node])
           | Some cs \<Rightarrow>
               (case fold_result (check_constraint to_int node) (enumerate 0 cs) (used, False) of
                  Inl e \<Rightarrow> Inl e
                | Inr (used, skip) \<Rightarrow> Inr (used, if skip then res else res @ [node]))))"

text \<open>\<open>ctx.used_constraints[col_index].add(...)\<close> creates a missing entry.\<close>

definition add_used ::
    "('cl, 'tm) admin_env \<Rightarrow> Constraint list \<Rightarrow> nat \<Rightarrow> 'cl ConstraintMap \<Rightarrow> 'cl ConstraintMap" where
  "add_used env cs i m =
     umap_put 0
       (env_cl_add env (cs ! i) (case map_of m 0 of None \<Rightarrow> env_cl_new env | Some l \<Rightarrow> l)) m"

definition selectNodes ::
    "('cl, 'tm) admin_env \<Rightarrow> ('cl, 'tm) AdminCommandTable \<Rightarrow> ServerNode list \<Rightarrow> 'cl QueryContext \<Rightarrow>
     (ServerNode list \<times> 'cl QueryContext) result" where
  "selectNodes env st nodes ctx =
     (let it_c = map_option (env_constraints env) (map_of (q_constraints ctx) 0);
          active = (if allowServerSideFiltering st then it_c else None)
      in case fold_result (select_node (env_to_int env) active) nodes ([], []) of
           Inl e \<Rightarrow> Inl e
         | Inr (used, res) \<Rightarrow>
             Inr (res, ctx\<lparr>q_used_constraints :=
               fold (add_used env (case it_c of None \<Rightarrow> [] | Some cs \<Rightarrow> cs)) (env_iter env used)
                 (q_used_constraints ctx)\<rparr>))"

section \<open>Filling the cache\<close>

definition node_request :: "string \<Rightarrow> ServerNode \<Rightarrow> Request" where
  "node_request cmd node =
     \<lparr>rq_addr = sn_host node @ '':'' @ to_string (uint (sn_port node)), rq_request = cmd\<rparr>"

text \<open>A table with columns gets the column \<open>node_id\<close>, as long as its first column.\<close>

definition add_node_id :: "ServerNode \<Rightarrow> table_data \<Rightarrow> table_data" where
  "add_node_id node t =
     (if t \<noteq> [] then
        umap_put ''node_id''
          (replicate (length (snd (hd t))) (Some (to_string (uint (sn_id node))))) t
      else t)"

definition record_failure ::
    "ServerNode \<times> Request \<times> Response \<Rightarrow> (u32, string \<times> string) umap \<Rightarrow>
     (u32, string \<times> string) umap" where
  "record_failure nrr m =
     (case nrr of
        (node, req, resp) \<Rightarrow>
          if \<not> rsp_success resp
          then umap_put (sn_id node) (rq_addr req, rsp_failure_reason resp) m else m)"

definition env_transform ::
    "('cl, 'tm) admin_env \<Rightarrow> ('cl, 'tm) AdminCommandTable \<Rightarrow> string \<Rightarrow> PartialTableData result" where
  "env_transform env st =
     transformData JSON_TABLE (env_jsonParse env) (env_odd_nodes env) (env_pre env)
       (env_columns env) (nameToPosMap_' st)"

text \<open>The second half of \<open>refillCache\<close>: ask the nodes, parse, merge, store.\<close>

definition fetch ::
    "('cl, 'tm) admin_env \<Rightarrow> ('cl, 'tm) AdminCommandTable \<Rightarrow> ServerNode list \<Rightarrow> string \<Rightarrow>
     'cl QueryContext \<Rightarrow> ('cl, 'tm) AdminCommandTable result" where
  "fetch env st selected_nodes cmd ctx =
     (let requests = map (node_request cmd) selected_nodes;
          st = st\<lparr>contacted_nodes := contacted_nodes st + length selected_nodes\<rparr>;
          responses = send (env_SendAdminCommand env) (env_throws env) requests
      in if length requests \<noteq> length responses then Inl hs_check_failed
         else case transformDataParallel (env_transform env st) (env_schedule env) responses of
           Inl e \<Rightarrow> Inl e
         | Inr (responses, results) \<Rightarrow>
             if length results \<noteq> length responses then Inl hs_check_failed
             else
               (let results = map2 add_node_id selected_nodes results;
                    st = st\<lparr>failures := fold record_failure
                           (zip selected_nodes (zip requests responses)) (failures st)\<rparr>
                in case aggregate (env_numRows env) results of
                     Inl e \<Rightarrow> Inl e
                   | Inr t \<Rightarrow>
                       Inr (st\<lparr>admin_cmd_cache_' :=
                                 cache_put env (q_used_constraints ctx)
                                   (\<lparr>d_data = t, d_indices = []\<rparr>, env_now env)
                                   (admin_cmd_cache_' st),
                               num_fetches_' := Suc (num_fetches_' st)\<rparr>)))"

text \<open>
  What happens before the request is sent: the command, the context, and whether the cache
  already has the data. The second call of \<open>getCommandToSend\<close> sees the moved-from constraint
  map, which is empty, as the comment there says.
\<close>

definition choose_command ::
    "('cl, 'tm) admin_env \<Rightarrow> ('cl, 'tm) AdminCommandTable \<Rightarrow> 'cl QueryContext \<Rightarrow>
     string \<times> 'cl QueryContext \<times> bool" where
  "choose_command env st ctx =
     (let (cmd, ctx1) = (if allowServerSideFiltering st then env_command env ctx else ('''', ctx))
      in if allowServerSideFiltering st \<and>
            dataIsInCacheForUsedConstraints env st (q_used_constraints ctx1)
         then (cmd, ctx1, True)
         else if \<not> allowServerSideFiltering st \<or> num_fetches_' st > MAX_FETCHES then
           (let (cmd, ctx2) = env_command env
                  (ctx1\<lparr>q_used_constraints := q_used_constraints ctx, q_constraints := []\<rparr>);
                ctx2 = ctx2\<lparr>q_constraints := q_constraints ctx1\<rparr>
            in (cmd, ctx2, dataIsInCacheForUsedConstraints env st (q_used_constraints ctx2)))
         else (cmd, ctx1, False))"

definition refillCache ::
    "('cl, 'tm) admin_env \<Rightarrow> ('cl, 'tm) AdminCommandTable \<Rightarrow> 'cl QueryContext \<Rightarrow>
     (('cl, 'tm) AdminCommandTable \<times> 'cl QueryContext) result" where
  "refillCache env st ctx =
     (case getNodesConfiguration (env_describeCluster env) of
        None \<Rightarrow> Inl (hs_check_failed_msg ''GetNodesConfiguration failed'')
      | Some nodes \<Rightarrow>
          (case selectNodes env st nodes ctx of
             Inl e \<Rightarrow> Inl e
           | Inr (selected_nodes, ctx) \<Rightarrow>
               (case choose_command env st ctx of
                  (cmd, ctx, cached) \<Rightarrow>
                    if cached then Inr (st, ctx)
                    else case fetch env st selected_nodes cmd ctx of
                           Inl e \<Rightarrow> Inl e
                         | Inr st \<Rightarrow> Inr (st, ctx))))"

section \<open>Serving a query\<close>

text \<open>The first equality constraint, in iteration order.\<close>

fun findIndexableConstraint ::
    "('cl \<Rightarrow> Constraint list) \<Rightarrow> 'cl ConstraintMap \<Rightarrow> (int \<times> Constraint) option" where
  "findIndexableConstraint constraints_of [] = None"
| "findIndexableConstraint constraints_of ((col, cl) # m) =
     (case find (\<lambda>c. c_op c = OP_EQ) (constraints_of cl) of
        Some c \<Rightarrow> Some (col, c)
      | None \<Rightarrow> findIndexableConstraint constraints_of m)"

definition index_value ::
    "nat \<times> string option \<Rightarrow> (string, nat list) umap \<Rightarrow> (string, nat list) umap" where
  "index_value iv idx =
     (case iv of
        (i, None) \<Rightarrow> idx
      | (i, Some v) \<Rightarrow>
          umap_put v ((case map_of idx v of None \<Rightarrow> [] | Some l \<Rightarrow> l) @ [i]) idx)"

text \<open>\<open>col < size()\<close> compares as \<open>size_t\<close>, so a negative column fails the check.\<close>

definition buildIndexForConstraint ::
    "TableColumn list \<Rightarrow> Data \<Rightarrow> int \<Rightarrow> Constraint \<Rightarrow> Data result" where
  "buildIndexForConstraint columns data col c =
     (if c_op c \<noteq> OP_EQ then Inl hs_check_failed
      else if \<not> (0 \<le> col \<and> nat col < length columns) then Inl hs_check_failed
      else
        (let old = (case map_of (d_indices data) col of None \<Rightarrow> [] | Some idx \<Rightarrow> idx);
             idx = (case map_of (d_data data) (tc_name (columns ! nat col)) of
                      None \<Rightarrow> old
                    | Some col_vec \<Rightarrow> fold index_value (enumerate 0 col_vec) old)
         in Inr (data\<lparr>d_indices := umap_put col idx (d_indices data)\<rparr>)))"

definition select_rows :: "nat list \<Rightarrow> table_data \<Rightarrow> table_data" where
  "select_rows rows t = map (\<lambda>(name, c). (name, map ((!) c) rows)) t"

definition serve_index :: "Data \<Rightarrow> int \<Rightarrow> string \<Rightarrow> table_data" where
  "serve_index cached col expr =
     (case map_of (d_indices cached) col of
        None \<Rightarrow> []
      | Some idx \<Rightarrow>
          (case map_of idx expr of None \<Rightarrow> [] | Some rows \<Rightarrow> select_rows rows (d_data cached)))"

definition getData ::
    "('cl, 'tm) admin_env \<Rightarrow> ('cl, 'tm) AdminCommandTable \<Rightarrow> 'cl QueryContext \<Rightarrow>
     (table_data \<times> ('cl, 'tm) AdminCommandTable \<times> 'cl QueryContext) result" where
  "getData env st ctx =
     (case refillCache env st ctx of
        Inl e \<Rightarrow> Inl e
      | Inr (st, ctx) \<Rightarrow>
          (case cache_find env (q_used_constraints ctx) (admin_cmd_cache_' st) of
             None \<Rightarrow> Inl hs_check_failed
           | Some (cached, tm) \<Rightarrow>
               (case findIndexableConstraint (env_constraints env) (q_constraints ctx) of
                  None \<Rightarrow> Inr (d_data cached, st, ctx)
                | Some (col, c) \<Rightarrow>
                    (case c_expr c of
                       None \<Rightarrow> Inr (d_data cached, st, ctx)
                     | Some expr \<Rightarrow>
                         if map_of (d_indices cached) col \<noteq> None
                         then Inr (serve_index cached col expr, st, ctx)
                         else
                           (case getColumnsImpl env st of
                              (columns, st) \<Rightarrow>
                                (case buildIndexForConstraint columns cached col c of
                                   Inl e \<Rightarrow> Inl e
                                 | Inr cached \<Rightarrow>
                                     Inr (serve_index cached col expr,
                                       st\<lparr>admin_cmd_cache_' :=
                                         cache_put env (q_used_constraints ctx) (cached, tm)
                                           (admin_cmd_cache_' st)\<rparr>, ctx)))))))"

end
