(* ===== verification/Admin_Select.thy ===== *)
theory Admin_Select
  imports Admin_Query
begin

text \<open>
  What \<open>selectNodes\<close> computes: the nodes that satisfy every constraint on \<open>node_id\<close>, in the order
  of the cluster's reply, and which constraints it reports as used.
\<close>

section \<open>The query library's constraint lists\<close>

text \<open>
  What the code relies on: a new list is empty, \<open>add\<close> appends, and the equality by which the cache
  compares its keys is an equivalence.
\<close>

locale constraint_lists =
  fixes constraints_of :: "'cl \<Rightarrow> Constraint list"
    and cl_new :: 'cl
    and cl_add :: "Constraint \<Rightarrow> 'cl \<Rightarrow> 'cl"
    and same :: "'cl ConstraintMap \<Rightarrow> 'cl ConstraintMap \<Rightarrow> bool"
  assumes new_empty: "constraints_of cl_new = []"
    and add_last: "constraints_of (cl_add c l) = constraints_of l @ [c]"
    and same_refl: "same m m"
    and same_sym: "same m m' \<Longrightarrow> same m' m"
    and same_trans: "same m m' \<Longrightarrow> same m' m'' \<Longrightarrow> same m m''"

text \<open>The plain instance: lists, and hash maps that agree on every key.\<close>

definition cmap_same :: "'cl ConstraintMap \<Rightarrow> 'cl ConstraintMap \<Rightarrow> bool" where
  "cmap_same a b \<longleftrightarrow> list_all (\<lambda>k. map_of a k = map_of b k) (map fst a @ map fst b)"

lemma cmap_same_iff: "cmap_same a b \<longleftrightarrow> map_of a = map_of b"
proof
  assume same: "cmap_same a b"
  show "map_of a = map_of b"
  proof
    fix k
    show "map_of a k = map_of b k"
    proof (cases "k \<in> fst ` set a \<union> fst ` set b")
      case True
      then show ?thesis using same by (auto simp: cmap_same_def list_all_iff)
    next
      case False
      then have "map_of a k = None" "map_of b k = None" by (simp_all add: map_of_eq_None_iff)
      then show ?thesis by simp
    qed
  qed
qed (simp add: cmap_same_def list_all_iff)

interpretation plain_lists: constraint_lists "\<lambda>l. l" "[]" "\<lambda>c l. l @ [c]" cmap_same
  by unfold_locales (simp_all add: cmap_same_iff)

section \<open>One constraint\<close>

text \<open>A constraint the code can use, and what it demands of a node id.\<close>

definition usable :: "Constraint \<Rightarrow> bool" where
  "usable c \<longleftrightarrow> c_expr c \<noteq> None \<and> c_op c \<in> {OP_EQ, OP_GT, OP_LE, OP_LT, OP_GE}"

definition numeric :: "(string \<Rightarrow> int option) \<Rightarrow> Constraint \<Rightarrow> bool" where
  "numeric to_int c \<longleftrightarrow> (case c_expr c of None \<Rightarrow> True | Some e \<Rightarrow> to_int e \<noteq> None)"

fun op_holds :: "constraint_op \<Rightarrow> int \<Rightarrow> int \<Rightarrow> bool" where
  "op_holds OP_EQ a b \<longleftrightarrow> a = b"
| "op_holds OP_GT a b \<longleftrightarrow> a > b"
| "op_holds OP_LE a b \<longleftrightarrow> a \<le> b"
| "op_holds OP_LT a b \<longleftrightarrow> a < b"
| "op_holds OP_GE a b \<longleftrightarrow> a \<ge> b"
| "op_holds (OP_OTHER _) a b \<longleftrightarrow> True"

definition node_satisfies :: "(string \<Rightarrow> int option) \<Rightarrow> ServerNode \<Rightarrow> Constraint \<Rightarrow> bool" where
  "node_satisfies to_int node c \<longleftrightarrow>
     (case c_expr c of None \<Rightarrow> True | Some e \<Rightarrow> op_holds (c_op c) (sint (sn_id node)) (the (to_int e)))"

lemma nodeMatchesConstraint_numeric:
  assumes "numeric to_int c"
  shows "nodeMatchesConstraint to_int (sn_id node) c =
    Inr (if \<not> usable c then UNUSED else if node_satisfies to_int node c then MATCH else NO_MATCH)"
  using assms
  by (cases "c_op c")
    (auto simp: nodeMatchesConstraint_def numeric_def usable_def node_satisfies_def split: option.splits)

lemma unusable_satisfied: "\<not> usable c \<Longrightarrow> node_satisfies to_int node c"
  by (cases "c_op c") (auto simp: usable_def node_satisfies_def split: option.splits)

lemma check_constraint_numeric:
  assumes "numeric to_int c"
  shows "check_constraint to_int node (i, c) (used, skip) =
    Inr (if usable c then List.insert i used else used, skip \<or> \<not> node_satisfies to_int node c)"
  using unusable_satisfied [of c to_int node]
  by (auto simp: check_constraint_def nodeMatchesConstraint_numeric [OF assms])

section \<open>The loops\<close>

definition usable_indices :: "nat \<Rightarrow> Constraint list \<Rightarrow> nat list" where
  "usable_indices k cs = map fst (filter (usable \<circ> snd) (enumerate k cs))"

lemma usable_indices_simps [simp]:
  "usable_indices k [] = []"
  "usable_indices k (c # cs) =
     (if usable c then k # usable_indices (Suc k) cs else usable_indices (Suc k) cs)"
  by (simp_all add: usable_indices_def)

lemma check_loop:
  assumes "list_all (numeric to_int) cs"
  shows "fold_result (check_constraint to_int node) (enumerate k cs) (used, skip) =
    Inr (fold List.insert (usable_indices k cs) used,
         skip \<or> \<not> list_all (node_satisfies to_int node) cs)"
  using assms
  by (induction cs arbitrary: k used skip) (auto simp: check_constraint_numeric)

lemma fold_insert_again: "set xs \<subseteq> set used \<Longrightarrow> fold List.insert xs used = used"
  by (induction xs) auto

lemma fold_insert_set: "set (fold List.insert xs used) = set xs \<union> set used"
  by (induction xs arbitrary: used) auto

lemma fold_insert_distinct: "distinct used \<Longrightarrow> distinct (fold List.insert xs used)"
  by (induction xs arbitrary: used) auto

lemma usable_indices_bounds: "i \<in> set (usable_indices k cs) \<Longrightarrow> k \<le> i \<and> i < k + length cs"
  by (induction cs arbitrary: k) (fastforce split: if_splits)+

lemma usable_indices_distinct: "distinct (usable_indices k cs)"
  by (induction cs arbitrary: k) (auto dest: usable_indices_bounds)

lemma select_loop:
  assumes "list_all (numeric to_int) cs"
    and "set used \<subseteq> set (usable_indices 0 cs)"
  shows "fold_result (select_node to_int (Some cs)) nodes (used, res) =
    Inr (if nodes = [] then used else fold List.insert (usable_indices 0 cs) used,
         res @ filter (\<lambda>n. list_all (node_satisfies to_int n) cs) nodes)"
  using assms(2)
proof (induction nodes arbitrary: used res)
  case Nil
  then show ?case by simp
next
  case (Cons n nodes)
  let ?used = "fold List.insert (usable_indices 0 cs) used"
  have sub: "set (usable_indices 0 cs) \<subseteq> set ?used" and sup: "set ?used \<subseteq> set (usable_indices 0 cs)"
    using Cons.prems by (auto simp: fold_insert_set)
  show ?case
    using Cons.IH [OF sup] fold_insert_again [OF sub]
    by (simp add: select_node_def check_loop [OF assms(1)])
qed

lemma select_all:
  "fold_result (select_node to_int None) nodes (used, res) = Inr (used, res @ nodes)"
  by (induction nodes arbitrary: res) (auto simp: select_node_def)

lemma nth_usable_indices: "map (\<lambda>i. cs ! i) (usable_indices 0 cs) = filter usable cs"
proof -
  have "map (\<lambda>i. cs ! (i - k)) (usable_indices k cs) = filter usable cs" for k
  proof (induction cs arbitrary: k)
    case (Cons c cs)
    have "map (\<lambda>i. (c # cs) ! (i - k)) (usable_indices (Suc k) cs) =
        map (\<lambda>i. cs ! (i - Suc k)) (usable_indices (Suc k) cs)"
      by (rule map_cong) (auto dest!: usable_indices_bounds simp: nth_Cons')
    with Cons.IH [of "Suc k"] show ?case by simp
  qed simp
  from this [of 0] show ?thesis by simp
qed

section \<open>The constraints reported as used\<close>

definition used_at ::
    "('cl, 'tm) admin_env \<Rightarrow> 'cl ConstraintMap \<Rightarrow> Constraint list" where
  "used_at env m = (case map_of m 0 of None \<Rightarrow> [] | Some l \<Rightarrow> env_constraints env l)"

abbreviation library_ok :: "('cl, 'tm) admin_env \<Rightarrow> bool" where
  "library_ok env \<equiv>
     constraint_lists (env_constraints env) (env_cl_new env) (env_cl_add env) (env_same env)"

lemma add_used_at:
  assumes "library_ok env"
  shows "used_at env (add_used env cs i m) = used_at env m @ [cs ! i]"
proof -
  note laws = constraint_lists.new_empty [OF assms] constraint_lists.add_last [OF assms]
  show ?thesis by (auto simp: used_at_def add_used_def laws split: option.split)
qed

lemma add_used_other: "k \<noteq> 0 \<Longrightarrow> map_of (fold (add_used env cs) is' m) k = map_of m k"
  by (induction is' arbitrary: m) (auto simp: add_used_def)

lemma fold_add_used:
  assumes "library_ok env"
  shows "used_at env (fold (add_used env cs) is' m) = used_at env m @ map (\<lambda>i. cs ! i) is'"
  by (induction is' arbitrary: m) (simp_all add: add_used_at [OF assms])

lemma selectNodes_filters:
  assumes "allowServerSideFiltering st" "map_of (q_constraints ctx) 0 = Some cl"
    and "list_all (numeric (env_to_int env)) (env_constraints env cl)"
  shows "selectNodes env st nodes ctx =
    Inr (filter (\<lambda>n. list_all (node_satisfies (env_to_int env) n) (env_constraints env cl)) nodes,
         ctx\<lparr>q_used_constraints :=
           fold (add_used env (env_constraints env cl))
             (env_iter env (if nodes = [] then []
                            else fold List.insert (usable_indices 0 (env_constraints env cl)) []))
             (q_used_constraints ctx)\<rparr>)"
  using assms select_loop [OF assms(3), of "[]" nodes "[]"]
  by (simp add: selectNodes_def)

text \<open>
  \<^bold>\<open>C13.\<close> Selecting nodes is filtering: when server-side filtering is allowed and every
  expression compared with \<open>node_id\<close> is a number, exactly the nodes whose id, read as a signed
  32-bit number, satisfies all comparisons are asked, in their order. The constraints added to the
  used ones are exactly the comparisons the code understands, each once, whatever the iteration
  order of the set they are collected in, and nothing else of the query changes.
\<close>

theorem selectNodes_correct:
  assumes "library_ok env"
    and "\<And>xs. mset (env_iter env xs) = mset xs"
    and "allowServerSideFiltering st" "nodes \<noteq> []"
    and "map_of (q_constraints ctx) 0 = Some cl"
    and "list_all (numeric (env_to_int env)) (env_constraints env cl)"
  shows "\<exists>ctx'. selectNodes env st nodes ctx =
      Inr (filter (\<lambda>n. list_all (node_satisfies (env_to_int env) n) (env_constraints env cl)) nodes, ctx') \<and>
    mset (used_at env (q_used_constraints ctx')) =
      mset (used_at env (q_used_constraints ctx)) + mset (filter usable (env_constraints env cl)) \<and>
    (\<forall>k. k \<noteq> 0 \<longrightarrow> map_of (q_used_constraints ctx') k = map_of (q_used_constraints ctx) k) \<and>
    q_constraints ctx' = q_constraints ctx"
proof -
  let ?cs = "env_constraints env cl"
  let ?used = "fold List.insert (usable_indices 0 ?cs) []"
  have "mset ?used = mset (usable_indices 0 ?cs)"
    by (simp add: set_eq_iff_mset_eq_distinct [symmetric] fold_insert_distinct fold_insert_set
        usable_indices_distinct)
  then have "mset (env_iter env ?used) = mset (usable_indices 0 ?cs)"
    by (simp add: assms(2))
  then have "mset (map (\<lambda>i. ?cs ! i) (env_iter env ?used)) = mset (filter usable ?cs)"
    by (simp add: nth_usable_indices [symmetric])
  then show ?thesis
    using selectNodes_filters [OF assms(3,5,6), of nodes] assms(4)
    by (simp add: fold_add_used [OF assms(1)] add_used_other)
qed

text \<open>A concrete environment: two nodes, each replying with one row, and plain constraint lists.\<close>

definition sample_nodes :: "ServerNode list" where
  "sample_nodes =
     [\<lparr>sn_id = 1, sn_host = ''a'', sn_port = 6570\<rparr>, \<lparr>sn_id = 2, sn_host = ''b'', sn_port = 6570\<rparr>]"

definition sample_reply :: json where
  "sample_reply = JSON_OBJECT
     [(''type'', JSON_STRING ''table''),
      (''content'', JSON_OBJECT
         [(''headers'', JSON_ARRAY [JSON_STRING ''name'']),
          (''rows'', JSON_ARRAY [JSON_ARRAY [JSON_STRING ''s'']])])]"

definition sample_env :: "(Constraint list, unit) admin_env" where
  "sample_env =
     \<lparr>env_describeCluster = Grpc_ok sample_nodes,
      env_SendAdminCommand = (\<lambda>_ _. Grpc_ok ''r''),
      env_throws = (\<lambda>_. None),
      env_schedule = [0],
      env_iter = rev,
      env_to_int = (\<lambda>s. if s = ''2'' then Some 2 else None),
      env_jsonParse = (\<lambda>_. Some sample_reply),
      env_odd_nodes = (\<lambda>_. []),
      env_pre = (\<lambda>_ v. v),
      env_numRows = first_column_rows,
      env_columns = [column ''name'' DT_TEXT ''Name''],
      env_command = (\<lambda>ctx. (''cmd'', ctx)),
      env_constraints = (\<lambda>l. l),
      env_cl_new = [],
      env_cl_add = (\<lambda>c l. l @ [c]),
      env_same = cmap_same,
      env_now = (),
      env_isValid = (\<lambda>_ _. True)\<rparr>"

definition sample_table :: "(Constraint list, unit) AdminCommandTable" where
  "sample_table =
     \<lparr>columns_' = [], nameToPosMap_' = init (env_columns sample_env), admin_cmd_cache_' = [],
      num_fetches_' = 0, cache_ttl_' = 0, enable_server_side_filtering_' = True,
      contacted_nodes = 0, failures = []\<rparr>"

definition sample_query :: "string \<Rightarrow> Constraint list QueryContext" where
  "sample_query e =
     \<lparr>q_constraints = [(0, [\<lparr>c_op = OP_EQ, c_expr = Some e\<rparr>])], q_used_constraints = []\<rparr>"

lemma sample_library: "library_ok sample_env"
  unfolding sample_env_def by (simp add: plain_lists.constraint_lists_axioms)

theorem selectNodes_correct_witness:
  "\<exists>ctx'. selectNodes sample_env sample_table sample_nodes (sample_query ''2'') =
      Inr ([\<lparr>sn_id = 2, sn_host = ''b'', sn_port = 6570\<rparr>], ctx') \<and>
    used_at sample_env (q_used_constraints ctx') = [\<lparr>c_op = OP_EQ, c_expr = Some ''2''\<rparr>]"
proof -
  have m: "map_of (q_constraints (sample_query ''2'')) 0 =
      Some [\<lparr>c_op = OP_EQ, c_expr = Some ''2''\<rparr>]"
    by (simp add: sample_query_def)
  have "mset (env_iter sample_env xs) = mset xs" for xs by (simp add: sample_env_def)
  moreover have "allowServerSideFiltering sample_table" "sample_nodes \<noteq> []"
    by (simp_all add: allowServerSideFiltering_def sample_table_def sample_nodes_def)
  moreover have "list_all (numeric (env_to_int sample_env))
      (env_constraints sample_env [\<lparr>c_op = OP_EQ, c_expr = Some ''2''\<rparr>])"
    by (simp add: numeric_def sample_env_def)
  ultimately obtain ctx' where
    "selectNodes sample_env sample_table sample_nodes (sample_query ''2'') =
      Inr (filter (\<lambda>n. list_all (node_satisfies (env_to_int sample_env) n)
        (env_constraints sample_env [\<lparr>c_op = OP_EQ, c_expr = Some ''2''\<rparr>])) sample_nodes, ctx')"
    "mset (used_at sample_env (q_used_constraints ctx')) =
      mset (used_at sample_env (q_used_constraints (sample_query ''2''))) +
      mset (filter usable (env_constraints sample_env [\<lparr>c_op = OP_EQ, c_expr = Some ''2''\<rparr>]))"
    using selectNodes_correct [OF sample_library _ _ _ m] by blast
  moreover have "used_at sample_env (q_used_constraints (sample_query ''2'')) = []"
    by (simp add: used_at_def sample_query_def)
  ultimately show ?thesis
    by (simp add: sample_env_def sample_nodes_def node_satisfies_def usable_def)
qed

lemma check_loop_throws:
  "\<not> list_all (numeric to_int) cs \<Longrightarrow>
     fold_result (check_constraint to_int node) (enumerate k cs) st =
       Inl (StdException ''folly::ConversionError'')"
proof (induction cs arbitrary: k st)
  case (Cons c cs)
  show ?case
  proof (cases "numeric to_int c")
    case True
    with Cons show ?thesis by (cases st) (simp add: check_constraint_numeric)
  next
    case False
    then show ?thesis
      by (cases st)
        (auto simp: check_constraint_def nodeMatchesConstraint_def numeric_def split: option.splits)
  qed
qed simp

text \<open>
  \<^bold>\<open>C18.\<close> A query that compares \<open>node_id\<close> with something that is no number throws
  \<open>folly::ConversionError\<close> out of \<open>getData\<close> as soon as the cluster has a node, whatever the
  operator of the comparison, even one the code would not use.
\<close>

theorem getData_conversion_error:
  assumes "allowServerSideFiltering st" "env_describeCluster env = Grpc_ok (n # nodes)"
    and "map_of (q_constraints ctx) 0 = Some cl"
    and "\<not> list_all (numeric (env_to_int env)) (env_constraints env cl)"
  shows "getData env st ctx = Inl (StdException ''folly::ConversionError'')"
proof -
  have "selectNodes env st (n # nodes) ctx = Inl (StdException ''folly::ConversionError'')"
    using assms check_loop_throws [OF assms(4), of n 0 "([], False)"]
    by (simp add: selectNodes_def select_node_def)
  then show ?thesis
    using assms(2) by (simp add: getData_def refillCache_def getNodesConfiguration_def)
qed

theorem getData_conversion_error_witness:
  "getData sample_env sample_table (sample_query ''abc'') =
     Inl (StdException ''folly::ConversionError'')"
  by (rule getData_conversion_error [where n = "sample_nodes ! 0" and nodes = "[sample_nodes ! 1]"
        and cl = "[\<lparr>c_op = OP_EQ, c_expr = Some ''abc''\<rparr>]"])
    (simp_all add: allowServerSideFiltering_def sample_table_def sample_env_def sample_nodes_def
      sample_query_def numeric_def)

end
