(* ===== verification/Admin_Cache.thy ===== *)
theory Admin_Cache
  imports Admin_Select
begin

text \<open>
  The cache of an \<open>AdminCommandTable\<close>: its invariant in every state the public operations can reach,
  what \<open>getData\<close> answers from it, and how many times one query asks the cluster.
\<close>

section \<open>Looking up and storing\<close>

context constraint_lists
begin

lemma same_cong: "same k k' \<Longrightarrow> same a k \<longleftrightarrow> same a k'"
  using same_sym same_trans by blast

end

lemma cache_find_put:
  assumes "library_ok env"
  shows "cache_find env k (cache_put env k v cache) = Some v"
proof (cases "cache_find env k cache")
  case None
  then show ?thesis
    using constraint_lists.same_refl [OF assms] by (simp add: cache_find_def cache_put_def)
next
  case (Some w)
  then have "\<exists>e \<in> set cache. env_same env (fst e) k"
    unfolding cache_find_def by (induction cache) (auto split: if_splits)
  then have "map_option snd (find (\<lambda>e. env_same env (fst e) k)
      (map (\<lambda>e. if env_same env (fst e) k then (fst e, v) else e) cache)) = Some v"
    by (induction cache) (auto, metis surj_pair)
  with Some show ?thesis by (auto simp: cache_find_def cache_put_def)
qed

lemma cache_find_put_other:
  assumes "cache_find env k cache \<noteq> None"
  shows "cache_find env k (cache_put env k' v cache) \<noteq> None"
proof -
  have "map_option snd (find (\<lambda>e. env_same env (fst e) k)
      (map (\<lambda>e. if env_same env (fst e) k' then (fst e, v) else e) cache)) \<noteq> None"
    using assms unfolding cache_find_def by (induction cache) (auto split: if_splits)
  with assms show ?thesis by (auto simp: cache_find_def cache_put_def)
qed

lemma cache_find_in: "cache_find env k cache = Some v \<Longrightarrow> \<exists>k'. (k', v) \<in> set cache"
  by (auto simp: cache_find_def find_Some_iff in_set_conv_nth) (metis prod.collapse)

lemma cache_put_subset: "set (cache_put env k v cache) \<subseteq> set cache \<union> UNIV \<times> {v}"
  by (auto simp: cache_put_def)

section \<open>Indices\<close>

definition matching_rows :: "TableColumn list \<Rightarrow> table_data \<Rightarrow> int \<Rightarrow> string \<Rightarrow> nat list" where
  "matching_rows columns t col v =
     (case map_of t (tc_name (columns ! nat col)) of
        None \<Rightarrow> []
      | Some c \<Rightarrow> filter (\<lambda>i. c ! i = Some v) [0..<length c])"

definition index_ok ::
    "TableColumn list \<Rightarrow> table_data \<Rightarrow> int \<Rightarrow> (string, nat list) umap \<Rightarrow> bool" where
  "index_ok columns t col idx \<longleftrightarrow>
     (\<forall>v. map_of idx v =
       (if matching_rows columns t col v = [] then None else Some (matching_rows columns t col v)))"

definition data_ok :: "TableColumn list \<Rightarrow> Data \<Rightarrow> bool" where
  "data_ok columns d \<longleftrightarrow>
     umap_wf (d_data d) \<and> (\<exists>n. rectangular n (d_data d)) \<and>
     (\<forall>col idx. map_of (d_indices d) col = Some idx \<longrightarrow> index_ok columns (d_data d) col idx)"

definition rows_from :: "nat \<Rightarrow> column_data \<Rightarrow> string \<Rightarrow> nat list" where
  "rows_from k c v = map fst (filter (\<lambda>(i, x). x = Some v) (enumerate k c))"

lemma rows_from_simps [simp]:
  "rows_from k [] v = []"
  "rows_from k (x # c) v = (if x = Some v then k # rows_from (Suc k) c v else rows_from (Suc k) c v)"
  by (simp_all add: rows_from_def)

lemma rows_from_filter: "rows_from k c v = filter (\<lambda>i. c ! (i - k) = Some v) [k..<k + length c]"
proof (induction c arbitrary: k)
  case Nil
  then show ?case by simp
next
  case (Cons x c)
  have "filter (\<lambda>i. (x # c) ! (i - k) = Some v) [Suc k..<k + Suc (length c)] =
      filter (\<lambda>i. c ! (i - Suc k) = Some v) [Suc k..<k + Suc (length c)]"
    by (rule filter_cong) (auto simp: nth_Cons')
  moreover have "[k..<k + length (x # c)] = k # [Suc k..<Suc k + length c]"
    by (simp add: upt_conv_Cons del: upt_Suc)
  ultimately show ?case
    using Cons.IH [of "Suc k"] by (cases "x = Some v") (simp_all del: upt_Suc)
qed

lemma index_value_lookup:
  "map_of (index_value (i, x) idx) v =
     (if x = Some v then Some ((case map_of idx v of None \<Rightarrow> [] | Some l \<Rightarrow> l) @ [i]) else map_of idx v)"
  by (cases x) (auto simp: index_value_def)

lemma index_values_lookup:
  "map_of (fold index_value (enumerate k c) idx) v =
     (case map_of idx v of
        None \<Rightarrow> if rows_from k c v = [] then None else Some (rows_from k c v)
      | Some l \<Rightarrow> Some (l @ rows_from k c v))"
proof (induction c arbitrary: k idx)
  case Nil
  then show ?case by (simp split: option.split)
next
  case (Cons x c)
  show ?case
    by (simp add: Cons.IH index_value_lookup split: option.split)
qed

lemma buildIndex_ok:
  assumes "buildIndexForConstraint columns d col c = Inr d'" "data_ok columns d"
    and "map_of (d_indices d) col = None"
  shows "data_ok columns d' \<and> d_data d' = d_data d \<and> map_of (d_indices d') col \<noteq> None"
proof -
  let ?idx = "case map_of (d_data d) (tc_name (columns ! nat col)) of
      None \<Rightarrow> [] | Some col_vec \<Rightarrow> fold index_value (enumerate 0 col_vec) []"
  have d': "d' = d\<lparr>d_indices := umap_put col ?idx (d_indices d)\<rparr>"
    using assms(1,3) by (simp add: buildIndexForConstraint_def split: if_splits)
  have "index_ok columns (d_data d) col ?idx"
    by (auto simp: index_ok_def matching_rows_def index_values_lookup rows_from_filter
        split: option.split)
  with assms(2) show ?thesis by (auto simp: d' data_ok_def)
qed

section \<open>The answer to a query\<close>

text \<open>
  What a query gets from a table: all of it, or, when it has an equality constraint with a value,
  the rows whose cell equals the value.
\<close>

definition answer ::
    "('cl \<Rightarrow> Constraint list) \<Rightarrow> TableColumn list \<Rightarrow> table_data \<Rightarrow> 'cl ConstraintMap \<Rightarrow> table_data" where
  "answer constraints_of columns t m =
     (case findIndexableConstraint constraints_of m of
        None \<Rightarrow> t
      | Some (col, c) \<Rightarrow>
          (case c_expr c of
             None \<Rightarrow> t
           | Some v \<Rightarrow>
               if matching_rows columns t col v = [] then []
               else select_rows (matching_rows columns t col v) t))"

lemma serve_index_answer:
  assumes "data_ok columns d" "map_of (d_indices d) col \<noteq> None"
  shows "serve_index d col v =
    (if matching_rows columns (d_data d) col v = [] then []
     else select_rows (matching_rows columns (d_data d) col v) (d_data d))"
proof -
  from assms obtain idx where "map_of (d_indices d) col = Some idx"
    "index_ok columns (d_data d) col idx"
    by (auto simp: data_ok_def)
  then show ?thesis by (simp add: serve_index_def index_ok_def)
qed

section \<open>Aggregated tables are rectangular\<close>

lemma fold_result_inv:
  "fold_result f xs a = Inr b \<Longrightarrow> P a \<Longrightarrow> (\<And>x a b. P a \<Longrightarrow> f x a = Inr b \<Longrightarrow> P b) \<Longrightarrow> P b"
  by (induction xs arbitrary: a) (auto split: sum.splits)

lemma aggregate_table_wf:
  assumes "aggregate_table src st = Inr st'" "umap_wf (fst st)"
  shows "umap_wf (fst st')"
proof -
  from assms(1) obtain result rows where
    loop: "fold_result (aggregate_column (snd st)) src (fst st, 0) = Inr (result, rows)"
    and st': "fst st' = result"
    by (auto simp: aggregate_table_def split: prod.splits sum.splits)
  have "umap_wf (fst (result, rows))"
    by (rule fold_result_inv [OF loop, where P = "\<lambda>s. umap_wf (fst s)"])
      (use assms(2) in \<open>auto simp: aggregate_column_def Let_def split: prod.splits if_splits\<close>)
  then show ?thesis by (simp add: st')
qed

lemma aggregate_rectangular:
  assumes "aggregate numRows srcs = Inr t"
  shows "umap_wf t \<and> rectangular (\<Sum>src \<leftarrow> srcs. numRows src) t"
proof -
  from assms obtain result rows where
    loop: "fold_result aggregate_table srcs ([], 0) = Inr (result, rows)"
    and t: "t = map (\<lambda>(name, c). (name, resize_column (\<Sum>src \<leftarrow> srcs. numRows src) c)) result"
    by (auto simp: aggregate_def Let_def split: sum.splits if_splits)
  have "umap_wf (fst (result, rows))"
    by (rule fold_result_inv [OF loop, where P = "\<lambda>s. umap_wf (fst s)"])
      (auto dest: aggregate_table_wf)
  then show ?thesis
    by (auto simp: t comp_def case_prod_unfold rectangular_def)
qed

section \<open>Refilling\<close>

lemma fetch_stores:
  assumes "fetch env st selected cmd ctx = Inr st'"
  shows "\<exists>t n cn fl. umap_wf t \<and> rectangular n t \<and>
    st' = st\<lparr>contacted_nodes := cn, failures := fl,
      admin_cmd_cache_' := cache_put env (q_used_constraints ctx)
        (\<lparr>d_data = t, d_indices = []\<rparr>, env_now env) (admin_cmd_cache_' st),
      num_fetches_' := Suc (num_fetches_' st)\<rparr>"
proof -
  let ?reqs = "map (node_request cmd) selected"
  let ?st = "st\<lparr>contacted_nodes := contacted_nodes st + length selected\<rparr>"
  from assms obtain rs outs where
    "transformDataParallel (env_transform env ?st) (env_schedule env)
       (send (env_SendAdminCommand env) (env_throws env) ?reqs) = Inr (rs, outs)"
    by (auto simp: fetch_def Let_def split: if_splits sum.splits)
  with assms obtain t where t: "aggregate (env_numRows env) (map2 add_node_id selected outs) = Inr t"
    "st' = ?st\<lparr>failures := fold record_failure (zip selected (zip ?reqs rs)) (failures st),
      admin_cmd_cache_' := cache_put env (q_used_constraints ctx)
        (\<lparr>d_data = t, d_indices = []\<rparr>, env_now env) (admin_cmd_cache_' st),
      num_fetches_' := Suc (num_fetches_' st)\<rparr>"
    by (auto simp: fetch_def Let_def split: if_splits sum.splits)
  with aggregate_rectangular [OF t(1)] show ?thesis by auto
qed

text \<open>What \<open>refillCache\<close> does to the table: nothing, or one fetch stored under the used constraints.\<close>

lemma refillCache_cases:
  assumes "refillCache env st ctx = Inr (st', ctx')"
  obtains (hit) "st' = st" "cache_find env (q_used_constraints ctx') (admin_cmd_cache_' st) \<noteq> None"
  | (fetched) selected cmd where "fetch env st selected cmd ctx' = Inr st'"
      "cache_find env (q_used_constraints ctx') (admin_cmd_cache_' st) = None"
proof -
  from assms obtain nodes selected ctx1 where
    "getNodesConfiguration (env_describeCluster env) = Some nodes"
    "selectNodes env st nodes ctx = Inr (selected, ctx1)"
    by (auto simp: refillCache_def split: option.splits sum.splits)
  with assms obtain cmd cached where ch: "choose_command env st ctx1 = (cmd, ctx', cached)"
    and res: "if cached then st' = st else fetch env st selected cmd ctx' = Inr st'"
    by (auto simp: refillCache_def split: prod.splits sum.splits if_splits)
  have "cached \<longleftrightarrow> cache_find env (q_used_constraints ctx') (admin_cmd_cache_' st) \<noteq> None"
    using ch
    by (auto simp: choose_command_def dataIsInCacheForUsedConstraints_def
        allowServerSideFiltering_def Let_def split: prod.splits if_splits)
  with res that show ?thesis by metis
qed

lemma refillCache_columns:
  "refillCache env st ctx = Inr (st', ctx') \<Longrightarrow> columns_' st' = columns_' st"
  by (auto elim!: refillCache_cases dest: fetch_stores)

lemma refillCache_present:
  assumes "library_ok env" "refillCache env st ctx = Inr (st', ctx')"
  shows "cache_find env (q_used_constraints ctx') (admin_cmd_cache_' st') \<noteq> None"
  using assms(2)
proof (cases rule: refillCache_cases)
  case hit
  then show ?thesis by simp
next
  case (fetched selected cmd)
  from fetch_stores [OF this(1)] show ?thesis
    by (auto simp: cache_find_put [OF assms(1)])
qed

section \<open>Reachable tables\<close>

text \<open>A new table: the member initialisers of the class.\<close>

definition new_AdminCommandTable :: "('cl, 'tm) AdminCommandTable" where
  "new_AdminCommandTable =
     \<lparr>columns_' = [], nameToPosMap_' = [], admin_cmd_cache_' = [], num_fetches_' = 0,
      cache_ttl_' = 0, enable_server_side_filtering_' = True, contacted_nodes = 0, failures = []\<rparr>"

text \<open>
  The public operations, each in an environment of its own: the cluster, the clock and the
  interleaving change from call to call, the columns of the table do not. The query library resets
  the metadata of the active query. An exception out of \<open>getData\<close> leaves behind at most changes of
  the metadata and of the memoised columns, which the rules \<open>metadata\<close> and \<open>columns\<close> make too.
\<close>

inductive table_reachable :: "TableColumn list \<Rightarrow> ('cl, 'tm) AdminCommandTable \<Rightarrow> bool" for cols where
  fresh: "table_reachable cols new_AdminCommandTable"
| init: "table_reachable cols st \<Longrightarrow> env_columns env = cols \<Longrightarrow> table_reachable cols (table_init env st)"
| new_query: "table_reachable cols st \<Longrightarrow> table_reachable cols (newQuery env st)"
| set_ttl: "table_reachable cols st \<Longrightarrow> table_reachable cols (setCacheTTL ttl st)"
| filtering: "table_reachable cols st \<Longrightarrow> table_reachable cols (enableServerSideFiltering b st)"
| metadata: "table_reachable cols st \<Longrightarrow>
    table_reachable cols (st\<lparr>contacted_nodes := n, failures := f\<rparr>)"
| columns: "table_reachable cols st \<Longrightarrow> env_columns env = cols \<Longrightarrow>
    table_reachable cols (snd (getColumnsImpl env st))"
| get_data: "table_reachable cols st \<Longrightarrow> env_columns env = cols \<Longrightarrow> library_ok env \<Longrightarrow>
    getData env st ctx = Inr (t, st', ctx') \<Longrightarrow> table_reachable cols st'"

abbreviation all_columns :: "TableColumn list \<Rightarrow> TableColumn list" where
  "all_columns cols \<equiv> column ''node_id'' DT_INTEGER ''Node ID this row is for.'' # cols"

definition table_inv :: "TableColumn list \<Rightarrow> ('cl, 'tm) AdminCommandTable \<Rightarrow> bool" where
  "table_inv cols st \<longleftrightarrow>
     columns_' st \<in> {[], all_columns cols} \<and>
     (\<forall>e \<in> set (admin_cmd_cache_' st). data_ok (all_columns cols) (fst (snd e)))"

lemma getColumnsImpl_inv:
  assumes "table_inv (env_columns env) st"
  shows "getColumnsImpl env st =
    (all_columns (env_columns env), st\<lparr>columns_' := all_columns (env_columns env)\<rparr>)"
proof (cases "columns_' st = []")
  case True
  then show ?thesis by (simp add: getColumnsImpl_def)
next
  case False
  with assms have "columns_' st = all_columns (env_columns env)" by (simp add: table_inv_def)
  moreover from this have "st\<lparr>columns_' := all_columns (env_columns env)\<rparr> = st" by simp
  ultimately show ?thesis by (simp add: getColumnsImpl_def)
qed

lemma cache_put_inv:
  assumes "table_inv cols st" "data_ok (all_columns cols) d"
  shows "table_inv cols (st\<lparr>admin_cmd_cache_' :=
    cache_put env k (d, tm) (admin_cmd_cache_' st)\<rparr>)"
  using assms cache_put_subset [of env k "(d, tm)" "admin_cmd_cache_' st"]
  by (auto simp: table_inv_def)

lemma refillCache_inv:
  assumes "refillCache env st ctx = Inr (st', ctx')" "table_inv cols st"
  shows "table_inv cols st'"
  using assms(1)
proof (cases rule: refillCache_cases)
  case hit
  with assms(2) show ?thesis by simp
next
  case (fetched selected cmd)
  obtain t n cn fl where t: "umap_wf t" "rectangular n t"
    and st': "st' = st\<lparr>contacted_nodes := cn, failures := fl,
      admin_cmd_cache_' := cache_put env (q_used_constraints ctx')
        (\<lparr>d_data = t, d_indices = []\<rparr>, env_now env) (admin_cmd_cache_' st),
      num_fetches_' := Suc (num_fetches_' st)\<rparr>"
    using fetch_stores [OF fetched(1)] by blast
  have "data_ok (all_columns cols) \<lparr>d_data = t, d_indices = []\<rparr>"
    using t by (auto simp: data_ok_def)
  from cache_put_inv [OF assms(2) this] show ?thesis
    by (simp add: st' table_inv_def)
qed

text \<open>The answer of \<open>getData\<close> and the invariant, in one step.\<close>

lemma getData_step:
  assumes "getData env st ctx = Inr (t, st', ctx')" "table_inv (env_columns env) st" "library_ok env"
  shows "table_inv (env_columns env) st' \<and>
    (\<exists>d tm. cache_find env (q_used_constraints ctx') (admin_cmd_cache_' st') = Some (d, tm) \<and>
       t = answer (env_constraints env) (all_columns (env_columns env)) (d_data d) (q_constraints ctx'))"
proof -
  let ?cols = "all_columns (env_columns env)"
  from assms(1) obtain st1 where refill: "refillCache env st ctx = Inr (st1, ctx')"
    by (auto simp: getData_def Let_def split: sum.splits prod.splits option.splits if_splits)
  have inv: "table_inv (env_columns env) st1"
    by (rule refillCache_inv [OF refill assms(2)])
  obtain d tm where found: "cache_find env (q_used_constraints ctx') (admin_cmd_cache_' st1) = Some (d, tm)"
    using refillCache_present [OF assms(3) refill] by auto
  then have d: "data_ok ?cols d"
    using inv by (auto simp: table_inv_def dest!: cache_find_in)
  note get = assms(1) [unfolded getData_def refill, simplified, unfolded found, simplified]
  show ?thesis
  proof (cases "findIndexableConstraint (env_constraints env) (q_constraints ctx')")
    case None
    with get inv found show ?thesis by (auto simp: answer_def)
  next
    case (Some cc)
    obtain col c where cc: "cc = (col, c)" by (cases cc)
    show ?thesis
    proof (cases "c_expr c")
      case None
      with Some cc get inv found show ?thesis by (auto simp: answer_def)
    next
      case (Some v)
      note here = \<open>findIndexableConstraint _ _ = Some cc\<close> [unfolded cc] Some
      show ?thesis
      proof (cases "map_of (d_indices d) col")
        case None
        with get here obtain d' where d': "buildIndexForConstraint ?cols d col c = Inr d'"
          and t: "t = serve_index d' col v"
          and st': "st' = st1\<lparr>columns_' := ?cols, admin_cmd_cache_' :=
            cache_put env (q_used_constraints ctx') (d', tm) (admin_cmd_cache_' st1)\<rparr>"
          by (auto simp: getColumnsImpl_inv [OF inv] split: sum.splits)
        note ok = buildIndex_ok [OF d' d None]
        then have "t = answer (env_constraints env) ?cols (d_data d') (q_constraints ctx')"
          using serve_index_answer [of ?cols d' col v] by (simp add: t answer_def here)
        moreover have "table_inv (env_columns env) st'"
          using cache_put_inv [OF inv, of d' env "q_used_constraints ctx'" tm] ok
          by (simp add: st' table_inv_def)
        ultimately show ?thesis
          by (auto simp: st' cache_find_put [OF assms(3)])
      next
        case (Some idx)
        with get here inv found serve_index_answer [OF d, of col v] show ?thesis
          by (auto simp: answer_def)
      qed
    qed
  qed
qed

lemma table_reachable_inv: "table_reachable cols st \<Longrightarrow> table_inv cols st"
proof (induction rule: table_reachable.induct)
  case fresh
  show ?case by (simp add: table_inv_def new_AdminCommandTable_def)
next
  case (columns st env)
  then show ?case using getColumnsImpl_inv [of env st] by (auto simp: table_inv_def)
next
  case (get_data st env ctx t st' ctx')
  then show ?case using getData_step [OF get_data(4)] by auto
qed (auto simp: table_inv_def table_init_def newQuery_def setCacheTTL_def
    enableServerSideFiltering_def)

text \<open>
  \<^bold>\<open>C10.\<close> In every state a table can reach, every cached table is rectangular with distinct
  columns, and every index of it lists, for each value, exactly the rows whose cell has that value,
  in order, and has no entry for other values.
\<close>

theorem cache_invariant:
  assumes "table_reachable cols st" "(k, (d, tm)) \<in> set (admin_cmd_cache_' st)"
  shows "umap_wf (d_data d) \<and> (\<exists>n. rectangular n (d_data d)) \<and>
    (\<forall>col idx v. map_of (d_indices d) col = Some idx \<longrightarrow>
       map_of idx v =
         (let rows = matching_rows (all_columns cols) (d_data d) col v
          in if rows = [] then None else Some rows))"
proof -
  have "data_ok (all_columns cols) d"
    using table_reachable_inv [OF assms(1)] assms(2) by (auto simp: table_inv_def)
  then show ?thesis by (simp add: data_ok_def index_ok_def Let_def)
qed


section \<open>How often a query asks the cluster\<close>

text \<open>
  A table whose command does not depend on the query, as that of every registered table. Fetches of
  one query stay bounded: filtered fetches stop after \<open>MAX_FETCHES\<close>, and the one full fetch that
  follows is found in the cache from then on.
\<close>

definition fetches_ok :: "('cl, 'tm) admin_env \<Rightarrow> ('cl, 'tm) AdminCommandTable \<Rightarrow> bool" where
  "fetches_ok env st \<longleftrightarrow>
     num_fetches_' st \<le> MAX_FETCHES + 1 \<or>
     num_fetches_' st = MAX_FETCHES + 2 \<and> cache_find env [] (admin_cmd_cache_' st) \<noteq> None"

lemma selectNodes_unfiltered:
  "\<not> allowServerSideFiltering st \<Longrightarrow> env_iter env [] = [] \<Longrightarrow>
     selectNodes env st nodes ctx = Inr (nodes, ctx)"
  by (simp add: selectNodes_def select_all)

lemma refillCache_unfiltered:
  assumes "\<not> allowServerSideFiltering st" "env_iter env [] = []"
    and "env_command env = (\<lambda>ctx. (cmd, ctx))" "q_used_constraints ctx = []"
    and "refillCache env st ctx = Inr (st', ctx')"
  shows "q_used_constraints ctx' = []"
  using assms
  by (auto simp: refillCache_def selectNodes_unfiltered choose_command_def Let_def
      split: option.splits sum.splits if_splits)

lemma refillCache_fetches:
  assumes "fetches_ok env st" "library_ok env" "env_iter env [] = []"
    and "env_command env = (\<lambda>ctx. (cmd, ctx))" "q_used_constraints ctx = []"
    and "refillCache env st ctx = Inr (st', ctx')"
  shows "fetches_ok env st'"
  using assms(6)
proof (cases rule: refillCache_cases)
  case hit
  with assms(1) show ?thesis by simp
next
  case (fetched selected cmd')
  note st' = fetch_stores [OF fetched(1)]
  have n: "num_fetches_' st' = Suc (num_fetches_' st)" using st' by auto
  show ?thesis
  proof (cases "allowServerSideFiltering st")
    case True
    with n show ?thesis by (simp add: allowServerSideFiltering_def fetches_ok_def)
  next
    case False
    then have used: "q_used_constraints ctx' = []"
      by (rule refillCache_unfiltered [OF _ assms(3-6)])
    have "num_fetches_' st \<le> MAX_FETCHES + 1"
      using assms(1) fetched(2) by (auto simp: fetches_ok_def used)
    moreover have "cache_find env [] (admin_cmd_cache_' st') \<noteq> None"
      using refillCache_present [OF assms(2,6)] by (simp add: used)
    ultimately show ?thesis by (auto simp: fetches_ok_def n)
  qed
qed

lemma getData_fetches:
  assumes "getData env st ctx = Inr (t, st', ctx')" "fetches_ok env st" "library_ok env"
    and "env_iter env [] = []" "env_command env = (\<lambda>ctx. (cmd, ctx))" "q_used_constraints ctx = []"
  shows "fetches_ok env st'"
proof -
  from assms(1) obtain st1 where refill: "refillCache env st ctx = Inr (st1, ctx')"
    by (auto simp: getData_def Let_def split: sum.splits prod.splits option.splits if_splits)
  have rest: "num_fetches_' st' = num_fetches_' st1 \<and>
    (admin_cmd_cache_' st' = admin_cmd_cache_' st1 \<or>
     (\<exists>d tm. admin_cmd_cache_' st' =
        cache_put env (q_used_constraints ctx') (d, tm) (admin_cmd_cache_' st1)))"
    using assms(1) refill
    by (auto simp: getData_def getColumnsImpl_def Let_def
        split: sum.splits prod.splits option.splits if_splits) blast+
  then have "cache_find env [] (admin_cmd_cache_' st1) \<noteq> None \<Longrightarrow>
      cache_find env [] (admin_cmd_cache_' st') \<noteq> None"
    using cache_find_put_other [of env "[]" "admin_cmd_cache_' st1"] by metis
  with rest refillCache_fetches [OF assms(2-6) refill] show ?thesis
    unfolding fetches_ok_def by metis
qed

text \<open>The calls of \<open>getData\<close> one SQL query makes.\<close>

fun run_fetches ::
    "('cl, 'tm) admin_env \<Rightarrow> ('cl, 'tm) AdminCommandTable \<Rightarrow> 'cl QueryContext list \<Rightarrow>
     ('cl, 'tm) AdminCommandTable result" where
  "run_fetches env st [] = Inr st"
| "run_fetches env st (ctx # ctxs) =
     (case getData env st ctx of
        Inl e \<Rightarrow> Inl e
      | Inr (t, st, ctx) \<Rightarrow> run_fetches env st ctxs)"

lemma run_fetches_ok:
  "run_fetches env st ctxs = Inr st' \<Longrightarrow> fetches_ok env st \<Longrightarrow> library_ok env \<Longrightarrow>
     env_iter env [] = [] \<Longrightarrow> env_command env = (\<lambda>ctx. (cmd, ctx)) \<Longrightarrow>
     \<forall>ctx \<in> set ctxs. q_used_constraints ctx = [] \<Longrightarrow> fetches_ok env st'"
proof (induction ctxs arbitrary: st)
  case (Cons ctx ctxs)
  then obtain t st1 ctx1 where g: "getData env st ctx = Inr (t, st1, ctx1)"
    and rest: "run_fetches env st1 ctxs = Inr st'"
    by (auto split: sum.splits)
  have "fetches_ok env st1"
    by (rule getData_fetches [OF g Cons.prems(2-5)]) (use Cons.prems(6) in simp)
  then show ?case by (rule Cons.IH [OF rest _ Cons.prems(3-5)]) (use Cons.prems(6) in simp)
qed simp


section \<open>Queries succeed\<close>

text \<open>
  A reply the parser can take: no JSON at all, which marks the node as failed, or a table response
  with one string or null per header in each row and no two headers for the same column.
\<close>

definition reply_ok :: "('cl, 'tm) admin_env \<Rightarrow> string \<Rightarrow> bool" where
  "reply_ok env s \<longleftrightarrow>
     env_jsonParse env s = None \<or>
     (\<exists>headers rows. env_jsonParse env s = Some (table_response headers rows) \<and>
        present_distinct (map (header_column (env_columns env)) headers) \<and>
        (\<forall>r \<in> set rows. cells_ok r \<and> length r = length headers))"

lemma reply_ok_outcome:
  assumes "reply_ok env (rsp_response r)" "distinct (map tc_name (env_columns env))"
    and "nameToPosMap_' st = init (env_columns env)"
  shows "\<not> transform_throws (env_transform env st) r \<and>
    umap_wf (snd (transform_outcome (env_transform env st) r)) \<and>
    (\<exists>n. rectangular n (snd (transform_outcome (env_transform env st) r)))"
proof (cases "env_jsonParse env (rsp_response r)")
  case None
  then show ?thesis
    by (auto simp: transform_throws_def transform_outcome_def env_transform_def transformData_def
        jsonToTableData_def ptd_failure_def rectangular_def)
next
  case (Some v)
  with assms(1) obtain headers rows where
    "env_jsonParse env (rsp_response r) = Some (table_response headers rows)"
    "present_distinct (map (header_column (env_columns env)) headers)"
    "\<forall>r \<in> set rows. cells_ok r \<and> length r = length headers"
    by (auto simp: reply_ok_def)
  from jsonToTableData_response [where jsonParse = "env_jsonParse env" and response = "rsp_response r",
      OF assms(2) this, of "env_odd_nodes env" "env_pre env"]
  obtain t where "env_transform env st (rsp_response r) =
      Inr \<lparr>ptd_data = Some t, ptd_success = True, ptd_failure_reason = ''''\<rparr>"
    "umap_wf t" "rectangular (length rows) t"
    by (auto simp: env_transform_def transformData_def assms(3))
  then show ?thesis
    by (auto simp: transform_throws_def transform_outcome_def rectangular_def)
qed

lemma add_node_id_ok:
  assumes "table_rows numRows" "umap_wf t" "rectangular n t"
  shows "table_ok numRows (add_node_id node t)"
proof (cases "t = []")
  case True
  then show ?thesis by (simp add: table_ok_def add_node_id_def rectangular_def)
next
  case False
  let ?v = "replicate (length (snd (hd t))) (Some (to_string (uint (sn_id node))))"
  have "length ?v = n" using False assms(3) by (simp add: rectangular_def)
  moreover have "set (umap_put ''node_id'' ?v t) \<subseteq> insert (''node_id'', ?v) (set t)"
    by (rule umap_put_subset)
  ultimately have "rectangular n (umap_put ''node_id'' ?v t)"
    using assms(3) by (fastforce simp: rectangular_def)
  moreover have "umap_put ''node_id'' ?v t \<noteq> []" by (cases t) auto
  ultimately show ?thesis
    using False assms(2) table_rows.rows_of_rectangular [OF assms(1)]
    by (simp add: table_ok_def add_node_id_def)
qed

lemma send_length [simp]: "length (send SendAdminCommand throws rs) = length rs"
  by (simp add: send_def asyncSend_def)

lemma send_responses:
  assumes "r \<in> set (send SendAdminCommand throws rs)" "rsp_success r"
  shows "\<exists>q \<in> set rs. SendAdminCommand (rq_addr q) (rq_request q) = Grpc_ok (rsp_response r)"
  using assms
  by (auto simp: send_def asyncSend_def sendAdminCommand_def split: option.splits grpc.splits)

lemma unsuccessful_outcome:
  "\<not> rsp_success r \<Longrightarrow> \<not> transform_throws f r \<and> snd (transform_outcome f r) = []"
  by (simp add: transform_throws_def transform_outcome_def)

lemma fetch_succeeds:
  assumes "table_rows (env_numRows env)" "distinct (map tc_name (env_columns env))"
    and "nameToPosMap_' st = init (env_columns env)"
    and "mset (env_schedule env) = mset (concat (thread_ranges (length selected)))"
    and "\<forall>addr cmd s. env_SendAdminCommand env addr cmd = Grpc_ok s \<longrightarrow> reply_ok env s"
  shows "\<exists>st'. fetch env st selected cmd ctx = Inr st'"
proof -
  let ?reqs = "map (node_request cmd) selected"
  let ?rs = "send (env_SendAdminCommand env) (env_throws env) ?reqs"
  let ?st = "st\<lparr>contacted_nodes := contacted_nodes st + length selected\<rparr>"
  let ?f = "transform_outcome (env_transform env ?st)"
  have ok: "\<not> transform_throws (env_transform env ?st) r \<and> umap_wf (snd (?f r)) \<and>
      (\<exists>n. rectangular n (snd (?f r)))" if r: "r \<in> set ?rs" for r
  proof (cases "rsp_success r")
    case True
    then have "reply_ok env (rsp_response r)" using send_responses [OF r] assms(5) by blast
    then show ?thesis by (rule reply_ok_outcome) (simp_all add: assms(2,3))
  next
    case False
    from unsuccessful_outcome [OF this] show ?thesis by (simp add: rectangular_def)
  qed
  have tr: "transformDataParallel (env_transform env ?st) (env_schedule env) ?rs =
      Inr (map (fst \<circ> ?f) ?rs, map (snd \<circ> ?f) ?rs)"
    using transform_parallel_schedule [of "env_schedule env" ?rs "env_transform env ?st"] assms(4) ok
    by auto
  have "\<forall>src \<in> set (map2 add_node_id selected (map (snd \<circ> ?f) ?rs)). table_ok (env_numRows env) src"
  proof
    fix src assume "src \<in> set (map2 add_node_id selected (map (snd \<circ> ?f) ?rs))"
    then obtain node r where "src = add_node_id node (snd (?f r))" "r \<in> set ?rs"
      by (auto dest!: set_zip_rightD)
    with ok [of r] show "table_ok (env_numRows env) src"
      by (auto intro: add_node_id_ok [OF assms(1)])
  qed
  then obtain t where
    "aggregate (env_numRows env) (map2 add_node_id selected (map (snd \<circ> ?f) ?rs)) = Inr t"
    using table_rows.aggregate_stacks [OF assms(1)] by blast
  then show ?thesis by (simp add: fetch_def Let_def tr)
qed

lemma buildIndex_succeeds:
  "c_op c = OP_EQ \<Longrightarrow> 0 \<le> col \<Longrightarrow> nat col < length columns \<Longrightarrow>
     \<exists>d'. buildIndexForConstraint columns d col c = Inr d'"
  by (simp add: buildIndexForConstraint_def Let_def)

lemma findIndexable_op: "findIndexableConstraint f m = Some (col, c) \<Longrightarrow> c_op c = OP_EQ \<and> col \<in> fst ` set m"
  by (induction f m rule: findIndexableConstraint.induct)
    (auto split: option.splits simp: find_Some_iff)

lemma refillCache_succeeds:
  assumes "table_rows (env_numRows env)" "distinct (map tc_name (env_columns env))"
    and "nameToPosMap_' st = init (env_columns env)"
    and "env_describeCluster env = Grpc_ok nodes" "selectNodes env st nodes ctx = Inr (selected, ctx1)"
    and "mset (env_schedule env) = mset (concat (thread_ranges (length selected)))"
    and "\<forall>addr cmd s. env_SendAdminCommand env addr cmd = Grpc_ok s \<longrightarrow> reply_ok env s"
  shows "\<exists>st' ctx'. refillCache env st ctx = Inr (st', ctx')"
proof -
  obtain cmd ctx2 cached where ch: "choose_command env st ctx1 = (cmd, ctx2, cached)"
    by (metis prod_cases3)
  obtain st' where "fetch env st selected cmd ctx2 = Inr st'"
    using fetch_succeeds [OF assms(1-3,6,7)] by blast
  then show ?thesis
    by (cases cached) (simp_all add: refillCache_def getNodesConfiguration_def assms(4,5) ch)
qed

lemma getData_after_refill:
  assumes "refillCache env st ctx = Inr (st1, ctx1)" "library_ok env"
    and "table_inv (env_columns env) st"
    and "\<And>col. col \<in> fst ` set (q_constraints ctx1) \<Longrightarrow> 0 \<le> col \<and> nat col \<le> length (env_columns env)"
  shows "\<exists>t st' ctx'. getData env st ctx = Inr (t, st', ctx')"
proof -
  obtain d tm where found: "cache_find env (q_used_constraints ctx1) (admin_cmd_cache_' st1) = Some (d, tm)"
    using refillCache_present [OF assms(2,1)] by auto
  have inv: "table_inv (env_columns env) st1" by (rule refillCache_inv [OF assms(1,3)])
  have "\<exists>d'. buildIndexForConstraint (all_columns (env_columns env)) d col c = Inr d'"
    if "findIndexableConstraint (env_constraints env) (q_constraints ctx1) = Some (col, c)" for col c
    using findIndexable_op [OF that] assms(4) [of col] by (intro buildIndex_succeeds) auto
  then show ?thesis
    by (fastforce simp: getData_def assms(1) found getColumnsImpl_inv [OF inv]
        split: option.split prod.split)
qed


section \<open>A query on the sample table\<close>

definition sample_data :: table_data where
  "sample_data = [(''name'', [Some ''s'']), (''node_id'', [Some ''2''])]"

definition sample_used :: "Constraint list ConstraintMap" where
  "sample_used = [(0, [\<lparr>c_op = OP_EQ, c_expr = Some ''2''\<rparr>])]"

definition sample_after :: "(Constraint list, unit) AdminCommandTable" where
  "sample_after = sample_table\<lparr>
     columns_' := all_columns (env_columns sample_env), contacted_nodes := 1, num_fetches_' := 1,
     admin_cmd_cache_' :=
       [(sample_used, (\<lparr>d_data = sample_data, d_indices = [(0, [(''2'', [0])])]\<rparr>, ()))]\<rparr>"

lemma sample_select:
  "selectNodes sample_env sample_table sample_nodes (sample_query ''2'') =
     Inr ([\<lparr>sn_id = 2, sn_host = ''b'', sn_port = 6570\<rparr>],
          (sample_query ''2'')\<lparr>q_used_constraints := sample_used\<rparr>)"
  by (simp add: selectNodes_def sample_query_def sample_env_def sample_nodes_def sample_table_def
      allowServerSideFiltering_def select_node_def check_constraint_def nodeMatchesConstraint_def
      add_used_def sample_used_def)

lemma sample_transform:
  "env_transform sample_env (sample_table\<lparr>contacted_nodes := n\<rparr>) r =
     Inr \<lparr>ptd_data = Some [(''name'', [Some ''s''])], ptd_success = True, ptd_failure_reason = ''''\<rparr>"
proof -
  have [simp]: "normalize ''name'' = ''name''" by code_simp
  show ?thesis
    by (simp add: env_transform_def sample_env_def sample_table_def transformData_def
        jsonToTableData_def sample_reply_def json_nodes_def parse_headers_def init_def
        touch_column_def parse_rows_def parse_row_def push_cell_def Let_def)
qed

lemma sample_fetch:
  "fetch sample_env sample_table [\<lparr>sn_id = 2, sn_host = ''b'', sn_port = 6570\<rparr>] cmd ctx =
     Inr (sample_table\<lparr>contacted_nodes := 1, num_fetches_' := 1,
       admin_cmd_cache_' :=
         [(q_used_constraints ctx, (\<lparr>d_data = sample_data, d_indices = []\<rparr>, ()))]\<rparr>)"
proof -
  have [simp]: "decimal 2 = ''2''" by code_simp
  have env: "env_numRows sample_env = first_column_rows"
    "env_SendAdminCommand sample_env = (\<lambda>_ _. Grpc_ok ''r'')"
    "env_throws sample_env = (\<lambda>_. None)" "env_schedule sample_env = [0]"
    by (simp_all add: sample_env_def)
  have st: "contacted_nodes sample_table = 0" "failures sample_table = []"
    "num_fetches_' sample_table = 0" "admin_cmd_cache_' sample_table = []"
    by (simp_all add: sample_table_def)
  show ?thesis
    by (simp add: fetch_def Let_def env st send_def asyncSend_def sendAdminCommand_def
        node_request_def transformDataParallel_def transform_one_def sample_transform
        add_node_id_def to_string_def record_failure_def aggregate_def first_column_rows_def
        aggregate_table_def aggregate_column_def resize_column_def cache_put_def cache_find_def
        sample_data_def)
qed

lemma sample_refill:
  "refillCache sample_env sample_table (sample_query ''2'') =
     Inr (sample_table\<lparr>contacted_nodes := 1, num_fetches_' := 1,
            admin_cmd_cache_' := [(sample_used, (\<lparr>d_data = sample_data, d_indices = []\<rparr>, ()))]\<rparr>,
          (sample_query ''2'')\<lparr>q_used_constraints := sample_used\<rparr>)"
proof -
  have env: "env_describeCluster sample_env = Grpc_ok sample_nodes"
    "env_command sample_env = (\<lambda>ctx. (''cmd'', ctx))"
    by (simp_all add: sample_env_def)
  have st: "allowServerSideFiltering sample_table" "num_fetches_' sample_table = 0"
    "admin_cmd_cache_' sample_table = []"
    by (simp_all add: sample_table_def allowServerSideFiltering_def)
  show ?thesis
    by (simp add: refillCache_def getNodesConfiguration_def env sample_select choose_command_def st
        dataIsInCacheForUsedConstraints_def cache_find_def sample_fetch)
qed

lemma sample_get:
  "getData sample_env sample_table (sample_query ''2'') =
     Inr (sample_data, sample_after, (sample_query ''2'')\<lparr>q_used_constraints := sample_used\<rparr>)"
proof -
  have env: "env_constraints sample_env = (\<lambda>l. l)" "env_same sample_env = cmap_same"
    by (simp_all add: sample_env_def)
  have c: "columns_' sample_table = []" by (simp add: sample_table_def)
  have q: "q_constraints (sample_query ''2'') = sample_used"
    by (simp add: sample_query_def sample_used_def)
  show ?thesis
    by (simp add: getData_def sample_refill cache_find_def cache_put_def env c q sample_used_def
        getColumnsImpl_def buildIndexForConstraint_def serve_index_def
        select_rows_def sample_data_def sample_after_def index_value_def cmap_same_def)
qed

lemma sample_reachable: "table_reachable [column ''name'' DT_TEXT ''Name''] sample_table"
proof -
  have "sample_table = table_init sample_env new_AdminCommandTable"
    by (simp add: sample_table_def table_init_def new_AdminCommandTable_def init_def)
  then show ?thesis
    using table_reachable.init [OF table_reachable.fresh, of sample_env]
    by (simp add: sample_env_def)
qed

lemma sample_after_reachable: "table_reachable [column ''name'' DT_TEXT ''Name''] sample_after"
  by (rule table_reachable.get_data [OF sample_reachable _ sample_library sample_get])
    (simp add: sample_env_def)

theorem cache_invariant_witness:
  "rectangular 1 sample_data \<and>
   map_of [(''2'', [0])] ''2'' =
     Some (matching_rows (all_columns [column ''name'' DT_TEXT ''Name'']) sample_data 0 ''2'')"
proof -
  have "(sample_used, (\<lparr>d_data = sample_data, d_indices = [(0, [(''2'', [0])])]\<rparr>, ())) \<in>
      set (admin_cmd_cache_' sample_after)"
    by (simp add: sample_after_def)
  from cache_invariant [OF sample_after_reachable this] show ?thesis
    by (simp add: rectangular_def sample_data_def matching_rows_def)
qed



lemma sample_reply_ok: "reply_ok sample_env s"
proof -
  have "header_column (env_columns sample_env) ''name'' = Some (''name'', DT_TEXT)"
    unfolding sample_env_def by code_simp
  then have "present_distinct (map (header_column (env_columns sample_env)) [''name''])"
    by (simp add: present_distinct_def)
  moreover have "env_jsonParse sample_env s = Some (table_response [''name''] [[JSON_STRING ''s'']])"
    by (simp add: sample_env_def sample_reply_def table_response_def)
  ultimately show ?thesis
    unfolding reply_ok_def by (intro disjI2 exI conjI) (auto simp: cells_ok_def)
qed


end
