(* ===== verification/Admin_Typing.thy ===== *)
theory Admin_Typing
  imports Admin_Cache
begin

text \<open>
  The types of admin tables: every column of a parsed, merged, cached or answered table is one the
  table declares, and every cell is null or was converted to the type of its column.
\<close>

section \<open>Typed tables\<close>

text \<open>
  \<open>pre\<close> is \<open>preprocessColumn\<close>, which turns the text of a cell into a value of the column's type. The
  cells of \<open>node_id\<close> are numbers the client adds.
\<close>

definition cell_typed ::
    "(DataType \<Rightarrow> string option \<Rightarrow> string option) \<Rightarrow> TableColumn list \<Rightarrow> string \<Rightarrow> string option \<Rightarrow> bool" where
  "cell_typed pre cols name v \<longleftrightarrow>
     v = None \<or> (name = ''node_id'' \<and> (\<exists>nid. v = Some (to_string nid))) \<or>
     (\<exists>col \<in> set cols. tc_name col = name \<and> (\<exists>s. v = pre (tc_type col) (Some s)))"

definition table_typed ::
    "(DataType \<Rightarrow> string option \<Rightarrow> string option) \<Rightarrow> TableColumn list \<Rightarrow> table_data \<Rightarrow> bool" where
  "table_typed pre cols t \<longleftrightarrow>
     (\<forall>e \<in> set t. fst e \<in> tc_name ` set (all_columns cols) \<and> (\<forall>v \<in> set (snd e). cell_typed pre cols (fst e) v))"

lemma cell_typed_None [simp]: "cell_typed pre cols name None"
  by (simp add: cell_typed_def)

lemma table_typed_Nil [simp]: "table_typed pre cols []"
  by (simp add: table_typed_def)

lemma table_typed_put:
  assumes "table_typed pre cols t" "name \<in> tc_name ` set (all_columns cols)"
    and "\<And>v. v \<in> set c \<Longrightarrow> cell_typed pre cols name v"
  shows "table_typed pre cols (umap_put name c t)"
  using assms umap_put_subset [of name c t] unfolding table_typed_def by fastforce

lemma table_typed_lookup:
  "table_typed pre cols t \<Longrightarrow> map_of t name = Some c \<Longrightarrow> v \<in> set c \<Longrightarrow> cell_typed pre cols name v"
  by (force simp: table_typed_def dest: map_of_SomeD)

section \<open>Parsing\<close>

definition present_typed :: "TableColumn list \<Rightarrow> columns_present \<Rightarrow> bool" where
  "present_typed cols present \<longleftrightarrow>
     (\<forall>name ty. Some (name, ty) \<in> set present \<longrightarrow> (\<exists>col \<in> set cols. tc_name col = name \<and> tc_type col = ty))"

lemma push_cell_typed:
  assumes "table_typed pre cols t" "name \<in> tc_name ` set (all_columns cols)" "cell_typed pre cols name v"
  shows "table_typed pre cols (push_cell name v t)"
  unfolding push_cell_def
proof (rule table_typed_put [OF assms(1,2)])
  fix x
  assume "x \<in> set ((case map_of t name of None \<Rightarrow> [] | Some c \<Rightarrow> c) @ [v])"
  then show "cell_typed pre cols name x"
    using assms(3) table_typed_lookup [OF assms(1), of name] by (cases "map_of t name") auto
qed

lemma parse_header_loop_typed:
  assumes "parse_header_loop cols pos hs present t = Inr (Some (present', t'))"
    and "present_typed cols present" "table_typed pre cols t"
  shows "present_typed cols present' \<and> table_typed pre cols t'"
  using assms
proof (induction cols pos hs present t rule: parse_header_loop.induct)
  case (2 cols pos h hs present t)
  from "2.prems"(1) obtain raw where h: "h = JSON_STRING raw" by (cases h) auto
  show ?case
  proof (cases "map_of pos (normalize raw)")
    case None
    with 2 h show ?thesis by (auto simp: present_typed_def)
  next
    case (Some i)
    with "2.prems"(1) h have i: "i < length cols" "tc_name (cols ! i) = normalize raw"
      by (auto simp: Let_def split: if_splits)
    then have col: "cols ! i \<in> set cols" by simp
    have "present_typed cols (present @ [Some (normalize raw, tc_type (cols ! i))])"
      using "2.prems"(2) i(2) col by (auto simp: present_typed_def)
    moreover have "normalize raw \<in> tc_name ` set (all_columns cols)"
      using i(2) col by force
    then have "table_typed pre cols (touch_column (normalize raw) t)"
      using "2.prems"(3) table_typed_put [of pre cols t "normalize raw" "[]"]
      by (simp add: touch_column_def split: option.split)
    ultimately show ?thesis using 2 h Some i by (auto simp: Let_def)
  qed
qed auto

lemma parse_cells_typed:
  assumes "parse_cells pre present vs col t = Some (col', t')"
    and "present_typed cols present" "table_typed pre cols t"
  shows "table_typed pre cols t'"
  using assms
proof (induction pre present vs col t rule: parse_cells.induct)
  case (2 pre present v vs col t)
  show ?case
  proof (cases "col < length present \<and> present ! col \<noteq> None")
    case True
    then obtain name ty where p: "present ! col = Some (name, ty)" and lt: "col < length present" by auto
    then obtain c where c: "c \<in> set cols" "tc_name c = name" "tc_type c = ty"
      using "2.prems"(2) nth_mem [OF lt] by (auto simp: present_typed_def)
    then have name: "name \<in> tc_name ` set (all_columns cols)" by auto
    have "cell_typed pre cols name (pre ty (Some s))" for s
      using c by (auto simp: cell_typed_def)
    with 2 lt p name show ?thesis
      by (auto simp: push_cell_typed split: json.splits)
  next
    case False
    with 2 show ?thesis by (cases "col < length present"; cases "present ! col") auto
  qed
qed auto

lemma parse_row_typed:
  "parse_row pre present r t = Some t' \<Longrightarrow> present_typed cols present \<Longrightarrow> table_typed pre cols t \<Longrightarrow>
   table_typed pre cols t'"
  by (auto simp: parse_row_def dest: parse_cells_typed split: json.splits option.splits if_splits)

lemma parse_row_loop_typed:
  "parse_row_loop pre present rs t = Some t' \<Longrightarrow> present_typed cols present \<Longrightarrow> table_typed pre cols t \<Longrightarrow>
   table_typed pre cols t'"
  by (induction pre present rs t rule: parse_row_loop.induct)
    (auto dest: parse_row_typed split: option.splits)

lemma jsonToTableData_typed:
  assumes "jsonToTableData jsonParse odd_nodes pre cols pos s = Inr p" "ptd_success p"
  shows "table_typed pre cols (the (ptd_data p))"
proof -
  from assms obtain headers rows present t0 t where
    h: "parse_headers cols pos headers = Inr (Some (present, t0))"
    and r: "parse_rows pre present rows t0 = Some t" and p: "ptd_data p = Some t"
    by (auto simp: jsonToTableData_def ptd_failure_def split: option.splits json.splits sum.splits prod.splits)
  from h have "present_typed cols present \<and> table_typed pre cols t0"
    by (auto simp: parse_headers_def present_typed_def split: json.splits dest!: parse_header_loop_typed)
  then show ?thesis
    using r p by (auto simp: parse_rows_def dest: parse_row_loop_typed split: json.splits)
qed

section \<open>Merging\<close>

lemma transformDataParallel_typed:
  assumes "transformDataParallel transform schedule responses = Inr (rs, outs)"
    and "\<And>s p. transform s = Inr p \<Longrightarrow> ptd_success p \<Longrightarrow> table_typed pre cols (the (ptd_data p))"
    and "out \<in> set outs"
  shows "table_typed pre cols out"
proof -
  have "\<forall>out \<in> set (snd (rs, outs)). table_typed pre cols out"
  proof (rule fold_result_inv [OF assms(1) [unfolded transformDataParallel_def],
        where P = "\<lambda>st. \<forall>out \<in> set (snd st). table_typed pre cols out"])
    fix i st st'
    assume typed: "\<forall>out \<in> set (snd st). table_typed pre cols out" and step: "transform_one transform i st = Inr st'"
    obtain qs os where st: "st = (qs, os)" by (cases st)
    have upd: "\<forall>out \<in> set (os[i := the (ptd_data p)]). table_typed pre cols out"
      if "transform s = Inr p" "ptd_success p" for s p
      using typed assms(2) [OF that] set_update_subset_insert [of os i "the (ptd_data p)"] by (auto simp: st)
    show "\<forall>out \<in> set (snd st'). table_typed pre cols out"
      using step typed upd by (auto simp: st transform_one_def split: if_splits sum.splits)
  qed auto
  with assms(3) show ?thesis by simp
qed

lemma add_node_id_typed: "table_typed pre cols t \<Longrightarrow> table_typed pre cols (add_node_id node t)"
  unfolding add_node_id_def by (auto simp: cell_typed_def intro!: table_typed_put)

lemma set_resize_column: "set (resize_column n c) \<subseteq> insert None (set c)"
  by (auto simp: resize_column_def dest: in_set_takeD)

lemma aggregate_column_typed:
  assumes "aggregate_column k e st = Inr st'" "table_typed pre cols (fst st)"
    and "fst e \<in> tc_name ` set (all_columns cols)" "\<forall>v \<in> set (snd e). cell_typed pre cols (fst e) v"
  shows "table_typed pre cols (fst st')"
proof -
  obtain name c result rows where [simp]: "e = (name, c)" "st = (result, rows)" by (cases e, cases st) auto
  let ?res = "case map_of result name of None \<Rightarrow> [] | Some res \<Rightarrow> res"
  have "cell_typed pre cols name v" if "v \<in> set (resize_column k ?res @ c)" for v
    using that assms(2,4) set_resize_column [of k ?res]
    by (auto dest: table_typed_lookup split: option.splits)
  then have "table_typed pre cols (umap_put name (resize_column k ?res @ c) result)"
    using assms(2,3) by (intro table_typed_put) auto
  then show ?thesis using assms(1) by (auto simp: aggregate_column_def Let_def split: if_splits)
qed

lemma aggregate_table_typed:
  assumes "aggregate_table src st = Inr st'" "table_typed pre cols (fst st)" "table_typed pre cols src"
  shows "table_typed pre cols (fst st')"
proof -
  from assms(1) obtain result rows where
    loop: "fold_result (aggregate_column (snd st)) src (fst st, 0) = Inr (result, rows)"
    and st': "fst st' = result"
    by (auto simp: aggregate_table_def split: prod.splits sum.splits)
  have "table_typed pre cols (fst (result, rows))"
  proof (rule fold_result_inv_set [OF loop, where P = "\<lambda>s. table_typed pre cols (fst s)"])
    fix e a b
    assume e: "e \<in> set src" and a: "table_typed pre cols (fst a)" and b: "aggregate_column (snd st) e a = Inr b"
    from assms(3) e have "fst e \<in> tc_name ` set (all_columns cols)" "\<forall>v \<in> set (snd e). cell_typed pre cols (fst e) v"
      unfolding table_typed_def by blast+
    then show "table_typed pre cols (fst b)" by (rule aggregate_column_typed [OF b a])
  qed (simp add: assms(2))
  then show ?thesis by (simp add: st')
qed

lemma aggregate_typed:
  assumes "aggregate numRows srcs = Inr t" "\<And>src. src \<in> set srcs \<Longrightarrow> table_typed pre cols src"
  shows "table_typed pre cols t"
proof -
  from assms(1) obtain result rows where
    run: "fold_result aggregate_table srcs ([], 0) = Inr (result, rows)"
    and t: "t = map (\<lambda>(name, c). (name, resize_column (\<Sum>src \<leftarrow> srcs. numRows src) c)) result"
    by (auto simp: aggregate_def Let_def split: sum.splits if_splits)
  have "table_typed pre cols (fst (result, rows))"
    by (rule fold_result_inv_set [OF run, where P = "\<lambda>s. table_typed pre cols (fst s)"])
      (auto intro: aggregate_table_typed assms(2))
  then show ?thesis
    using set_resize_column by (fastforce simp: t table_typed_def)
qed

section \<open>The cache and the answers\<close>

definition cache_typed ::
    "(DataType \<Rightarrow> string option \<Rightarrow> string option) \<Rightarrow> TableColumn list \<Rightarrow> ('cl, 'tm) AdminCommandTable \<Rightarrow> bool" where
  "cache_typed pre cols st \<longleftrightarrow>
     (\<forall>e \<in> set (admin_cmd_cache_' st). table_typed pre cols (d_data (fst (snd e))))"

lemma cache_typed_put:
  assumes "cache_typed pre cols st" "table_typed pre cols (d_data d)"
    and "admin_cmd_cache_' st' = cache_put env k (d, tm) (admin_cmd_cache_' st)"
  shows "cache_typed pre cols st'"
  using assms cache_put_subset [of env k "(d, tm)" "admin_cmd_cache_' st"]
  by (auto simp: cache_typed_def)

lemma fetch_typed:
  assumes "fetch env st selected cmd ctx = Inr st'" "cache_typed (env_pre env) (env_columns env) st"
  shows "cache_typed (env_pre env) (env_columns env) st'"
proof -
  let ?st = "st\<lparr>contacted_nodes := contacted_nodes st + length selected\<rparr>"
  let ?reqs = "map (node_request cmd) selected"
  from assms(1) obtain rs outs where
    tr: "transformDataParallel (env_transform env ?st) (env_schedule env)
       (send (env_SendAdminCommand env) (env_throws env) ?reqs) = Inr (rs, outs)"
    by (auto simp: fetch_def Let_def split: if_splits sum.splits)
  with assms(1) obtain t where t: "aggregate (env_numRows env) (map2 add_node_id selected outs) = Inr t"
    and st': "admin_cmd_cache_' st' = cache_put env (q_used_constraints ctx)
        (\<lparr>d_data = t, d_indices = []\<rparr>, env_now env) (admin_cmd_cache_' st)"
    by (auto simp: fetch_def Let_def split: if_splits sum.splits)
  have out: "table_typed (env_pre env) (env_columns env) out" if "out \<in> set outs" for out
    by (rule transformDataParallel_typed [OF tr _ that])
      (simp add: env_transform_def transformData_def jsonToTableData_typed)
  have "table_typed (env_pre env) (env_columns env) t"
    by (rule aggregate_typed [OF t]) (auto dest!: set_zip_rightD intro: add_node_id_typed [OF out])
  then show ?thesis using cache_typed_put [OF assms(2) _ st'] by simp
qed

lemma refillCache_typed:
  assumes "refillCache env st ctx = Inr (st', ctx')" "cache_typed (env_pre env) (env_columns env) st"
  shows "cache_typed (env_pre env) (env_columns env) st'"
  using assms(1)
proof (cases rule: refillCache_cases)
  case hit
  with assms(2) show ?thesis by simp
next
  case (fetched selected cmd)
  from fetch_typed [OF this(1) assms(2)] show ?thesis .
qed

lemma getData_typed:
  assumes "getData env st ctx = Inr (t, st', ctx')" "cache_typed (env_pre env) (env_columns env) st"
  shows "cache_typed (env_pre env) (env_columns env) st'"
proof -
  from assms(1) obtain st1 where refill: "refillCache env st ctx = Inr (st1, ctx')"
    by (auto simp: getData_def Let_def split: sum.splits prod.splits option.splits if_splits)
  note typed = refillCache_typed [OF refill assms(2)]
  from assms(1) refill obtain d tm where
    found: "cache_find env (q_used_constraints ctx') (admin_cmd_cache_' st1) = Some (d, tm)"
    by (auto simp: getData_def split: option.splits)
  then have d: "table_typed (env_pre env) (env_columns env) (d_data d)"
    using typed by (auto simp: cache_typed_def dest!: cache_find_in)
  have cols: "admin_cmd_cache_' (snd (getColumnsImpl env st1)) = admin_cmd_cache_' st1"
    by (simp add: getColumnsImpl_def Let_def)
  have idx: "d_data d' = d_data d" if "buildIndexForConstraint columns d col c = Inr d'" for columns col c d'
    using that by (auto simp: buildIndexForConstraint_def Let_def split: if_splits)
  have "st' = st1 \<or> (\<exists>d'. d_data d' = d_data d \<and>
      admin_cmd_cache_' st' = cache_put env (q_used_constraints ctx') (d', tm) (admin_cmd_cache_' st1))"
    using assms(1) refill found cols
    by (auto simp: getData_def split: option.splits prod.splits if_splits sum.splits dest: idx)
  then show ?thesis
    using typed d cache_typed_put [OF typed] by metis
qed

lemma matching_rows_bound:
  "rectangular n t \<Longrightarrow> i \<in> set (matching_rows columns t col v) \<Longrightarrow> i < n"
  by (cases "map_of t (tc_name (columns ! nat col))")
    (auto simp: matching_rows_def rectangular_def dest!: map_of_SomeD)

lemma rectangular_Nil: "rectangular n []"
  by (simp add: rectangular_def)

lemma answer_typed:
  assumes "table_typed pre cols t" "umap_wf t" "rectangular n t"
  shows "table_typed pre cols (answer constraints_of columns t m) \<and> umap_wf (answer constraints_of columns t m) \<and>
    (\<exists>k. rectangular k (answer constraints_of columns t m))"
proof -
  have sel: "table_typed pre cols (select_rows rows t) \<and> umap_wf (select_rows rows t) \<and>
      rectangular (length rows) (select_rows rows t)" if "\<And>i. i \<in> set rows \<Longrightarrow> i < n" for rows
    using assms that
    by (fastforce simp: select_rows_def table_typed_def rectangular_def comp_def case_prod_unfold)
  have "table_typed pre cols (select_rows (matching_rows columns t col v) t) \<and>
      umap_wf (select_rows (matching_rows columns t col v) t) \<and>
      (\<exists>k. rectangular k (select_rows (matching_rows columns t col v) t))" for col v
    using sel [of "matching_rows columns t col v"] matching_rows_bound [OF assms(3)] by blast
  then show ?thesis
    using assms by (auto simp: answer_def rectangular_Nil split: option.split)
qed

text \<open>
  \<^bold>\<open>C11.\<close> Queries are well typed. A new table is typed, and whenever a query on a reachable and typed
  table returns, the table stays typed and the answer has distinct columns of equal length, all of
  them declared by the table, with every cell null or converted to the type of its column.
\<close>

theorem getData_well_typed:
  assumes "table_reachable cols st" "env_columns env = cols" "library_ok env"
    and "cache_typed (env_pre env) cols st" "getData env st ctx = Inr (t, st', ctx')"
  shows "cache_typed (env_pre env) cols (new_AdminCommandTable :: ('cl, 'tm) AdminCommandTable) \<and>
    cache_typed (env_pre env) cols st' \<and> umap_wf t \<and> (\<exists>n. rectangular n t) \<and>
    (\<forall>(name, c) \<in> set t. name \<in> tc_name ` set (all_columns cols) \<and>
       (\<forall>v \<in> set c. cell_typed (env_pre env) cols name v))"
proof -
  have step: "table_inv cols st'" and ex: "\<exists>d tm. cache_find env (q_used_constraints ctx') (admin_cmd_cache_' st') = Some (d, tm) \<and>
       t = answer (env_constraints env) (all_columns cols) (d_data d) (q_constraints ctx')"
    using getData_step [OF assms(5)] table_reachable_inv [OF assms(1)] assms(2,3) by auto
  have typed: "cache_typed (env_pre env) cols st'"
    using getData_typed [OF assms(5)] assms(2,4) by simp
  from ex obtain d tm k where entry: "(k, (d, tm)) \<in> set (admin_cmd_cache_' st')"
    and t: "t = answer (env_constraints env) (all_columns cols) (d_data d) (q_constraints ctx')"
    by (auto dest!: cache_find_in)
  have "table_typed (env_pre env) cols (d_data d)" using typed entry by (auto simp: cache_typed_def)
  moreover have "umap_wf (d_data d) \<and> (\<exists>n. rectangular n (d_data d))"
  proof -
    have "data_ok (all_columns cols) d" using step entry by (auto simp: table_inv_def)
    then show ?thesis by (simp add: data_ok_def)
  qed
  ultimately have "table_typed (env_pre env) cols t \<and> umap_wf t \<and> (\<exists>n. rectangular n t)"
    unfolding t using answer_typed by blast
  moreover have "cache_typed (env_pre env) cols (new_AdminCommandTable :: ('cl, 'tm) AdminCommandTable)"
    by (simp add: cache_typed_def new_AdminCommandTable_def)
  ultimately show ?thesis
    using typed unfolding table_typed_def case_prod_unfold by blast
qed

theorem getData_well_typed_witness:
  "getData sample_env sample_table (sample_query ''2'') =
     Inr (sample_data, sample_after, (sample_query ''2'')\<lparr>q_used_constraints := sample_used\<rparr>) \<and>
   cache_typed (env_pre sample_env) [column ''name'' DT_TEXT ''Name''] sample_after"
proof -
  have "env_columns sample_env = [column ''name'' DT_TEXT ''Name'']" by (simp add: sample_env_def)
  moreover have "cache_typed (env_pre sample_env) [column ''name'' DT_TEXT ''Name''] sample_table"
    by (simp add: cache_typed_def sample_table_def)
  ultimately show ?thesis
    using getData_well_typed [OF sample_reachable _ sample_library _ sample_get] sample_get by blast
qed

end
