(* ===== verification/Query_Ffi.thy ===== *)
theory Query_Ffi
  imports Query_Tables
begin

text \<open>
  The C interface of the admin query tool, \<open>common/hstream/cbits/query.cpp\<close>: listing tables and
  columns, running a query and reading its results as arrays. The class \<open>QueryBase\<close> belongs to
  LogDevice's query library: the tables it has registered, the outcome of a query and the text of
  a column type are parameters.

  An out-parameter that a function leaves unset is \<open>None\<close>; the vectors allocated for Haskell are
  their contents.
\<close>

section \<open>Tables and columns\<close>

record TableMetadata =
  tm_name :: string
  tm_description :: string
  tm_columns :: "TableColumn list"

text \<open>The length and the two arrays.\<close>

definition query_show_tables ::
    "TableMetadata list \<Rightarrow> nat \<times> (string list \<times> string list) option" where
  "query_show_tables tables =
     (if tables \<noteq> [] then
        (let names = map tm_name tables; descriptions = map tm_description tables
         in (length names, Some (names, descriptions)))
      else (0, None))"

definition query_show_table_columns ::
    "(DataType \<Rightarrow> string) \<Rightarrow> TableMetadata list \<Rightarrow> string \<Rightarrow>
     nat \<times> (string list \<times> string list \<times> string list) option" where
  "query_show_table_columns type_as_string tables table_name =
     (case find (\<lambda>t. tm_name t = table_name) tables of
        Some t \<Rightarrow>
          (let names = map tc_name (tm_columns t)
           in (length names,
               Some (names, map (type_as_string \<circ> tc_type) (tm_columns t),
                     map tc_description (tm_columns t))))
      | None \<Rightarrow> (0, None))"

section \<open>Running a query\<close>

record QueryMetadata =
  qm_failures :: "(int \<times> string \<times> string) list"   \<comment> \<open>node, address, reason\<close>
  qm_contacted_nodes :: u64
  qm_latency :: u64

record QueryResult =
  qr_headers :: "string list"
  qr_rows :: "string list list"
  qr_cols_max_size :: "u64 list"
  qr_metadata :: QueryMetadata

datatype query_exception =
    Ex_ToHs string
  | Ex_LDQueryError string
  | Ex_other string

text \<open>What Haskell gets, or the exception that leaves the function.\<close>

datatype run_outcome =
    Ran nat "QueryResult list option" "string option"   \<comment> \<open>length, results, \<open>exinfo\<close>\<close>
  | Escaped string

definition run_query :: "query_exception + QueryResult list \<Rightarrow> run_outcome" where
  "run_query query =
     (case query of
        Inr results \<Rightarrow>
          if results \<noteq> [] then Ran (length results) (Some results) None else Ran 0 None None
      | Inl (Ex_ToHs what) \<Rightarrow> Ran 0 None (Some what)
      | Inl (Ex_LDQueryError what) \<Rightarrow> Ran 0 None (Some what)
      | Inl (Ex_other what) \<Rightarrow> Escaped what)"

section \<open>Reading results\<close>

text \<open>The accessors do not check the index: out of range their result is undefined.\<close>

definition queryResults__headers :: "QueryResult list \<Rightarrow> nat \<Rightarrow> (nat \<times> string list) option" where
  "queryResults__headers datas i =
     (if i < length datas then Some (length (qr_headers (datas ! i)), qr_headers (datas ! i)) else None)"

definition queryResults__cols_max_size :: "QueryResult list \<Rightarrow> nat \<Rightarrow> (nat \<times> u64 list) option" where
  "queryResults__cols_max_size datas i =
     (if i < length datas then Some (length (qr_cols_max_size (datas ! i)), qr_cols_max_size (datas ! i))
      else None)"

definition queryResults__rows_len :: "QueryResult list \<Rightarrow> nat \<Rightarrow> nat option" where
  "queryResults__rows_len datas i =
     (if i < length datas then Some (length (qr_rows (datas ! i))) else None)"

definition queryResults__rows_val :: "QueryResult list \<Rightarrow> nat \<Rightarrow> nat \<Rightarrow> (nat \<times> string list) option" where
  "queryResults__rows_val datas i row =
     (if i < length datas \<and> row < length (qr_rows (datas ! i))
      then (let data = qr_rows (datas ! i) ! row in Some (length data, data)) else None)"

definition queryResults__metadata_contacted_nodes :: "QueryResult list \<Rightarrow> nat \<Rightarrow> u64 option" where
  "queryResults__metadata_contacted_nodes datas i =
     (if i < length datas then Some (qm_contacted_nodes (qr_metadata (datas ! i))) else None)"

definition queryResults__metadata_latency :: "QueryResult list \<Rightarrow> nat \<Rightarrow> u64 option" where
  "queryResults__metadata_latency datas i =
     (if i < length datas then Some (qm_latency (qr_metadata (datas ! i))) else None)"

definition queryResults__metadata_failures ::
    "QueryResult list \<Rightarrow> nat \<Rightarrow> (nat \<times> (int list \<times> string list \<times> string list) option) option" where
  "queryResults__metadata_failures datas i =
     (if i < length datas then
        (let data = qm_failures (qr_metadata (datas ! i))
         in if data \<noteq> [] then
              Some (length data, Some (map fst data, map (fst \<circ> snd) data, map (snd \<circ> snd) data))
            else Some (0, None))
      else None)"

section \<open>The arrays carry everything\<close>

lemma zip3_maps: "zip (map fst xs) (zip (map (fst \<circ> snd) xs) (map (snd \<circ> snd) xs)) = xs"
  by (induction xs) auto

text \<open>
  Haskell can rebuild what a query returned from the arrays: reading every row of every
  result by the accessors gives the rows back, and the three parallel arrays of failures have the
  reported length and zip to the failures.
\<close>

theorem query_results_roundtrip:
  assumes "run_query (Inr results) = Ran n (Some datas) ex" "i < n"
  shows "n = length results \<and> datas = results \<and> ex = None \<and>
    (\<exists>k. queryResults__rows_len datas i = Some k \<and>
       map (\<lambda>r. snd (the (queryResults__rows_val datas i r))) [0..<k] = qr_rows (results ! i)) \<and>
    (\<exists>k arrays. queryResults__metadata_failures datas i = Some (k, arrays) \<and>
       (case arrays of
          None \<Rightarrow> k = 0 \<and> qm_failures (qr_metadata (results ! i)) = []
        | Some (ks, as, rs) \<Rightarrow> length ks = k \<and> length as = k \<and> length rs = k \<and>
            zip ks (zip as rs) = qm_failures (qr_metadata (results ! i))))"
proof -
  have r: "n = length results" "datas = results" "ex = None"
    using assms(1) by (auto simp: run_query_def split: if_splits)
  have "map (\<lambda>k. snd (the (queryResults__rows_val results i k))) [0..<length (qr_rows (results ! i))] =
      qr_rows (results ! i)"
    using assms(2) r by (intro nth_equalityI) (simp_all add: queryResults__rows_val_def Let_def)
  then show ?thesis
    using assms(2) r
    by (auto simp: queryResults__rows_len_def queryResults__metadata_failures_def Let_def zip3_maps)
qed

definition sample_result :: QueryResult where
  "sample_result =
     \<lparr>qr_headers = [''name''], qr_rows = [[''s1''], [''s2'']], qr_cols_max_size = [4],
      qr_metadata = \<lparr>qm_failures = [(2, ''b:6570'', ''14: down'')], qm_contacted_nodes = 2,
        qm_latency = 3\<rparr>\<rparr>"

theorem query_results_roundtrip_witness:
  "run_query (Inr [sample_result]) = Ran 1 (Some [sample_result]) None \<and>
   map (\<lambda>r. snd (the (queryResults__rows_val [sample_result] 0 r))) [0..<2] = [[''s1''], [''s2'']]"
proof -
  have run: "run_query (Inr [sample_result]) = Ran 1 (Some [sample_result]) None"
    by (simp add: run_query_def)
  from query_results_roundtrip [OF this, of 0] have
    "\<exists>k. queryResults__rows_len [sample_result] 0 = Some k \<and>
       map (\<lambda>r. snd (the (queryResults__rows_val [sample_result] 0 r))) [0..<k] =
         qr_rows sample_result"
    by simp
  with run show ?thesis
    by (simp add: queryResults__rows_len_def sample_result_def numeral_2_eq_2)
qed

end
