(* ===== verification/Query_Context.thy ===== *)
theory Query_Context
  imports Query_Tables
begin

text \<open>
  The object behind an admin query (\<open>Query.cpp\<close>, \<open>Table.h\<close>): its constructor, and the context its tables
  share, which makes one client for the server it asks. LogDevice's \<open>attachTables\<close> is a parameter.
\<close>

record AdminCommandClient =
  base_addr :: string
  num_threads :: nat

definition new_AdminCommandClient :: "string \<Rightarrow> AdminCommandClient" where
  "new_AdminCommandClient addr = \<lparr>base_addr = addr, num_threads = 4\<rparr>"

text \<open>
  \<open>Context\<close>, behind one \<open>shared_ptr\<close> for the query and all its tables. The pointer to the client is its
  number among the clients made so far.
\<close>

record query_context =
  addr_' :: string
  adminCommandClient_' :: "nat option"

definition getClient ::
    "query_context \<times> AdminCommandClient list \<Rightarrow> nat \<times> query_context \<times> AdminCommandClient list" where
  "getClient st =
     (case st of (ctx, made) \<Rightarrow>
        (case adminCommandClient_' ctx of
           Some c \<Rightarrow> (c, ctx, made)
         | None \<Rightarrow> (length made, ctx\<lparr>adminCommandClient_' := Some (length made)\<rparr>,
                    made @ [new_AdminCommandClient (addr_' ctx)])))"

record Query =
  q_addr_' :: string
  q_ctx_' :: query_context
  table_registry_' :: "admin_table list"
  q_cache_ttl :: int

definition new_Query :: "(admin_table list \<Rightarrow> int) \<Rightarrow> int \<Rightarrow> string \<Rightarrow> Query result" where
  "new_Query attachTables cache_ttl addr =
     (let ctx = \<lparr>addr_' = addr, adminCommandClient_' = None\<rparr>
      in if attachTables registerTables \<noteq> 0 then Inl (StdException ''ConstructorFailed'')
         else Inr \<lparr>q_addr_' = addr, q_ctx_' = ctx, table_registry_' = registerTables, q_cache_ttl = cache_ttl\<rparr>)"

text \<open>The clients that the tables get when they refill their caches, one call for each refill.\<close>

fun refill_clients ::
    "nat \<Rightarrow> query_context \<times> AdminCommandClient list \<Rightarrow> nat list \<times> query_context \<times> AdminCommandClient list" where
  "refill_clients 0 st = ([], st)"
| "refill_clients (Suc n) st =
     (let (c, st) = getClient st; (cs, st) = refill_clients n st in (c # cs, st))"

lemma refill_clients_made:
  "adminCommandClient_' ctx = Some c \<Longrightarrow> refill_clients n (ctx, made) = (replicate n c, ctx, made)"
  by (induction n) (simp_all add: getClient_def)

text \<open>
  However often the tables of a query refill their caches, one client is made, for the address the
  query was opened with, and every table uses it.
\<close>

theorem one_client_per_query:
  assumes "new_Query attachTables ttl addr = Inr q" "0 < n"
  shows "\<exists>ctx. refill_clients n (q_ctx_' q, made) =
    (replicate n (length made), ctx, made @ [new_AdminCommandClient addr])"
proof -
  obtain m where n: "n = Suc m" using assms(2) gr0_conv_Suc by blast
  have "addr_' (q_ctx_' q) = addr" "adminCommandClient_' (q_ctx_' q) = None"
    using assms(1) by (auto simp: new_Query_def Let_def split: if_splits)
  then show ?thesis
    by (simp add: n getClient_def refill_clients_made)
qed

text \<open>A query exists only with all of its tables attached.\<close>

lemma new_Query_tables:
  "(\<exists>q. new_Query attachTables ttl addr = Inr q \<and> table_registry_' q = registerTables) \<longleftrightarrow>
   attachTables registerTables = 0"
  by (auto simp: new_Query_def Let_def)

end
