(* ===== verification/Kafka_Server.thy ===== *)
theory Kafka_Server
  imports HS_Prelude
begin

text \<open>
  The network layer of the Kafka server, \<open>hstream-kafka/cbits/hs_kafka_server.cpp\<close>: message framing
  with a big-endian length, the loop that serves one connection, the round-robin pool of event loops
  and the entry points called from Haskell.

  A connection is seen from the server: the bytes the client sends before it stops sending, the
  bytes the server writes, and the state \<open>'h\<close> of the Haskell handler. The Haskell callback, whether
  the socket is still open when it returns and whether a write succeeds are parameters; allocating
  the message buffer succeeds for every length a vector can have.
\<close>

unbundle bit_operations_syntax

section \<open>Big-endian lengths\<close>

text \<open>\<open>value >> n\<close> on \<open>int32_t\<close> is an arithmetic shift; \<open>bytes[i] << n\<close> is on promoted \<open>int\<close>s.\<close>

definition writeBE :: "i32 \<Rightarrow> u8 \<times> u8 \<times> u8 \<times> u8" where
  "writeBE value =
     (ucast (signed_drop_bit 24 value AND 0xFF),
      ucast (signed_drop_bit 16 value AND 0xFF),
      ucast (signed_drop_bit 8 value AND 0xFF),
      ucast (value AND 0xFF))"

definition readBE :: "u8 \<times> u8 \<times> u8 \<times> u8 \<Rightarrow> i32" where
  "readBE bytes =
     (case bytes of
        (b0, b1, b2, b3) \<Rightarrow>
          push_bit 24 (ucast b0) OR push_bit 16 (ucast b1) OR push_bit 8 (ucast b2) OR ucast b3)"

lemma low_byte: "(0xFF :: i32) = mask 8"
  by (simp add: mask_eq_exp_minus_1)

lemma bit_readBE:
  "bit (readBE (b0, b1, b2, b3)) n \<longleftrightarrow>
     (if n < 8 then bit b3 n else if n < 16 then bit b2 (n - 8)
      else if n < 24 then bit b1 (n - 16) else n < 32 \<and> bit b0 (n - 24))"
  by (auto simp: readBE_def bit_simps dest: bit_imp_le_length)

lemma readBE_writeBE: "readBE (writeBE v) = v"
proof (rule bit_eqI)
  fix n
  show "bit (readBE (writeBE v)) n = bit v n"
    unfolding writeBE_def bit_readBE low_byte
    by (auto simp: bit_simps dest: bit_imp_le_length)
qed

lemma writeBE_readBE: "writeBE (readBE bs) = bs"
proof -
  obtain b0 b1 b2 b3 where bs: "bs = (b0, b1, b2, b3)" by (cases bs)
  show ?thesis
    unfolding bs writeBE_def low_byte
    by (auto simp: bit_simps bit_readBE intro!: bit_eqI)
qed

section \<open>One connection\<close>

text \<open>
  The environment of a connection. The Haskell callback gets the message and, by the time it
  releases the lock, has changed its state and left a response or the initial null pointer. Whether
  the socket is still open then and whether the write succeeds may differ for every message.
\<close>

record 'h conn_env =
  ce_callback :: "'h \<Rightarrow> u8 list \<Rightarrow> 'h \<times> u8 list option"
  ce_is_open :: "nat \<Rightarrow> bool"
  ce_write_ok :: "nat \<Rightarrow> bool"

record 'h conn =
  cn_input :: "u8 list"
  cn_output :: "u8 list"
  cn_hs :: 'h
  cn_handled :: nat     \<comment> \<open>messages passed to Haskell\<close>
  cn_allocated :: nat   \<comment> \<open>response buffers Haskell handed over\<close>
  cn_freed :: nat       \<comment> \<open>response buffers freed\<close>
  cn_stopped :: bool    \<comment> \<open>\<open>stop()\<close> was called\<close>

datatype handler_end =
    Read_failed              \<comment> \<open>no further length prefix\<close>
  | Server_close             \<comment> \<open>null response\<close>
  | Socket_closed            \<comment> \<open>the socket was closed meanwhile\<close>
  | Session_exception string

datatype 'h iteration = Continue "'h conn" | Finished handler_end "'h conn"

definition new_conn :: "u8 list \<Rightarrow> 'h \<Rightarrow> 'h conn" where
  "new_conn input h =
     \<lparr>cn_input = input, cn_output = [], cn_hs = h, cn_handled = 0, cn_allocated = 0, cn_freed = 0,
      cn_stopped = False\<rparr>"

definition frame_header :: "nat \<Rightarrow> u8 list" where
  "frame_header data_size = (case writeBE (of_nat data_size) of (b0, b1, b2, b3) \<Rightarrow> [b0, b1, b2, b3])"

text \<open>After the callback: write the framed response, or close, or give up.\<close>

definition respond :: "'h conn_env \<Rightarrow> 'h conn \<Rightarrow> u8 list option \<Rightarrow> 'h iteration" where
  "respond env c response =
     (let k = cn_handled c - 1
      in if ce_is_open env k then
           (case response of
              Some data \<Rightarrow>
                if ce_write_ok env k then
                  Continue (c\<lparr>cn_output := cn_output c @ frame_header (length data) @ data,
                              cn_freed := Suc (cn_freed c)\<rparr>)
                else Finished (Session_exception ''async_write'') (c\<lparr>cn_stopped := True\<rparr>)
            | None \<Rightarrow> Finished Server_close (c\<lparr>cn_stopped := True\<rparr>))
         else Finished Socket_closed c)"

text \<open>
  One round of the loop. A negative length becomes a huge \<open>size_t\<close>, which the constructor of
  \<open>std::vector\<close> refuses with \<open>std::length_error\<close>.
\<close>

definition handler_iteration :: "'h conn_env \<Rightarrow> 'h conn \<Rightarrow> 'h iteration" where
  "handler_iteration env c =
     (case cn_input c of
        b0 # b1 # b2 # b3 # rest \<Rightarrow>
          (let len = sint (readBE (b0, b1, b2, b3))
           in if len < 0 then
                Finished (Session_exception ''std::length_error'')
                  (c\<lparr>cn_input := rest, cn_stopped := True\<rparr>)
              else if length rest < nat len then
                Finished (Session_exception ''async_read'') (c\<lparr>cn_input := [], cn_stopped := True\<rparr>)
              else
                (case ce_callback env (cn_hs c) (take (nat len) rest) of
                   (h, response) \<Rightarrow>
                     respond env
                       (c\<lparr>cn_input := drop (nat len) rest, cn_hs := h,
                          cn_handled := Suc (cn_handled c),
                          cn_allocated := cn_allocated c + (if response = None then 0 else 1)\<rparr>)
                       response))
      | _ \<Rightarrow> Finished Read_failed (c\<lparr>cn_input := []\<rparr>))"

lemma respond_Continue:
  "respond env c response = Continue c' \<Longrightarrow>
     \<exists>data. response = Some data \<and>
       c' = c\<lparr>cn_output := cn_output c @ frame_header (length data) @ data,
              cn_freed := Suc (cn_freed c)\<rparr>"
  by (auto simp: respond_def Let_def split: if_splits option.splits)

lemma handler_iteration_decreases:
  "handler_iteration env c = Continue c' \<Longrightarrow> length (cn_input c') < length (cn_input c)"
  by (auto simp: handler_iteration_def Let_def split: list.splits if_splits prod.splits
      dest!: respond_Continue)

function handler :: "'h conn_env \<Rightarrow> 'h conn \<Rightarrow> handler_end \<times> 'h conn" where
  "handler env c =
     (case handler_iteration env c of
        Finished e c' \<Rightarrow> (e, c')
      | Continue c' \<Rightarrow> handler env c')"
  by pat_completeness auto

termination
  by (relation "measure (\<lambda>(env, c). length (cn_input c))")
    (auto dest: handler_iteration_decreases)

declare handler.simps [simp del]

text \<open>The destructor gives the connection's stable pointer back, once.\<close>

definition delete_ServerHandler :: "'sp option \<times> 'sp list \<Rightarrow> 'sp option \<times> 'sp list" where
  "delete_ServerHandler st =
     (case st of (sp_, freed) \<Rightarrow> (case sp_ of None \<Rightarrow> st | Some sp \<Rightarrow> (None, freed @ [sp])))"

section \<open>The pool of event loops\<close>

record io_context_pool =
  io_contexts_' :: "bool list"      \<comment> \<open>per event loop: stopped\<close>
  work_' :: "nat list"              \<comment> \<open>the loops held alive by a work guard\<close>
  next_io_context_' :: nat

definition new_io_context_pool :: "nat \<Rightarrow> io_context_pool result" where
  "new_io_context_pool pool_size =
     (if pool_size = 0 then Inl (StdException ''io_context_pool size is 0'')
      else Inr \<lparr>io_contexts_' = replicate pool_size False, work_' = [0..<pool_size],
                next_io_context_' = 0\<rparr>)"

definition get_io_context :: "io_context_pool \<Rightarrow> nat \<times> io_context_pool" where
  "get_io_context p =
     (let i = next_io_context_' p;
          next = Suc i
      in (i, p\<lparr>next_io_context_' := if next = length (io_contexts_' p) then 0 else next\<rparr>))"

definition pool_stop :: "io_context_pool \<Rightarrow> io_context_pool" where
  "pool_stop p = p\<lparr>io_contexts_' := map (\<lambda>_. True) (io_contexts_' p)\<rparr>"

text \<open>The accept loop: the event loop of each of \<open>n\<close> accepted connections.\<close>

fun listener :: "nat \<Rightarrow> io_context_pool \<Rightarrow> nat list \<times> io_context_pool" where
  "listener 0 p = ([], p)"
| "listener (Suc n) p =
     (let (i, p) = get_io_context p;
          (is', p) = listener n p
      in (i # is', p))"

text \<open>Notifying an event descriptor: the bytes written, if any.\<close>

definition hs_event_notify :: "int \<Rightarrow> (int \<times> u64) list" where
  "hs_event_notify fd = (if fd = -1 then [] else [(fd, 1)])"

record server_run =
  sr_acceptor :: nat             \<comment> \<open>event loop of the acceptor\<close>
  sr_listener :: nat             \<comment> \<open>event loop of the accept loop\<close>
  sr_connections :: "nat list"   \<comment> \<open>event loops of the connections\<close>
  sr_notified :: "(int \<times> u64) list"

definition run_kafka_server :: "io_context_pool \<Rightarrow> int \<Rightarrow> nat \<Rightarrow> server_run \<times> io_context_pool" where
  "run_kafka_server p fd_on_started n =
     (let (acc, p) = get_io_context p;
          (lis, p) = get_io_context p;
          (cs, p) = listener n p
      in (\<lparr>sr_acceptor = acc, sr_listener = lis, sr_connections = cs,
           sr_notified = hs_event_notify fd_on_started\<rparr>, p))"

definition new_kafka_server :: "nat \<Rightarrow> io_context_pool result" where
  "new_kafka_server io_context_pool_size = new_io_context_pool io_context_pool_size"

definition stop_kafka_server :: "io_context_pool \<Rightarrow> io_context_pool" where
  "stop_kafka_server p = pool_stop p"

section \<open>Framing\<close>

definition frame :: "u8 list \<Rightarrow> u8 list" where
  "frame data = frame_header (length data) @ data"

lemma sint_of_nat_small: "n < 2 ^ 31 \<Longrightarrow> sint (of_nat n :: i32) = int n"
  by (simp add: signed_of_nat signed_take_bit_int_eq_self)

lemma frame_header_read:
  assumes "n < 2 ^ 31"
  shows "\<exists>b0 b1 b2 b3. frame_header n = [b0, b1, b2, b3] \<and> sint (readBE (b0, b1, b2, b3)) = int n"
proof -
  obtain b0 b1 b2 b3 where bs: "writeBE (of_nat n) = (b0, b1, b2, b3)" by (metis prod_cases4)
  moreover have "readBE (b0, b1, b2, b3) = of_nat n" by (simp add: bs [symmetric] readBE_writeBE)
  ultimately show ?thesis using sint_of_nat_small [OF assms] by (simp add: frame_header_def)
qed

text \<open>The messages the framing can carry.\<close>

abbreviation message_ok :: "u8 list \<Rightarrow> bool" where
  "message_ok data \<equiv> length data < 2 ^ 31"

lemma iteration_frame:
  assumes "message_ok r" "cn_input c = frame r @ rest"
  shows "handler_iteration env c =
    (case ce_callback env (cn_hs c) r of
       (h, response) \<Rightarrow>
         respond env (c\<lparr>cn_input := rest, cn_hs := h, cn_handled := Suc (cn_handled c),
           cn_allocated := cn_allocated c + (if response = None then 0 else 1)\<rparr>) response)"
proof -
  obtain b0 b1 b2 b3 where "frame_header (length r) = [b0, b1, b2, b3]"
    "sint (readBE (b0, b1, b2, b3)) = int (length r)"
    using frame_header_read [OF assms(1)] by blast
  with assms(2) show ?thesis by (simp add: handler_iteration_def frame_def)
qed

lemma iteration_short:
  "length (cn_input c) < 4 \<Longrightarrow> handler_iteration env c = Finished Read_failed (c\<lparr>cn_input := []\<rparr>)"
  by (auto simp: handler_iteration_def split: list.split)

section \<open>What a connection does\<close>

text \<open>The protocol: requests are answered one by one until the handler has no answer.\<close>

fun serve ::
    "('h \<Rightarrow> u8 list \<Rightarrow> 'h \<times> u8 list option) \<Rightarrow> 'h \<Rightarrow> u8 list list \<Rightarrow> u8 list list \<times> 'h \<times> handler_end" where
  "serve cb h [] = ([], h, Read_failed)"
| "serve cb h (r # rs) =
     (case cb h r of
        (h', None) \<Rightarrow> ([], h', Server_close)
      | (h', Some d) \<Rightarrow> (case serve cb h' rs of (ds, h'', e) \<Rightarrow> (d # ds, h'', e)))"

lemma handler_serves:
  assumes "\<forall>k. ce_is_open env k \<and> ce_write_ok env k"
  shows "list_all message_ok reqs \<Longrightarrow> length rest < 4 \<Longrightarrow>
    cn_input c = concat (map frame reqs) @ rest \<Longrightarrow> cn_allocated c = cn_freed c \<Longrightarrow>
    serve (ce_callback env) (cn_hs c) reqs = (ds, h', e) \<Longrightarrow>
    \<exists>c'. handler env c = (e, c') \<and> cn_output c' = cn_output c @ concat (map frame ds) \<and>
      cn_hs c' = h' \<and> cn_allocated c' = cn_freed c' \<and>
      cn_stopped c' = (cn_stopped c \<or> e = Server_close)"
proof (induction reqs arbitrary: c ds)
  case Nil
  then show ?case by (simp add: handler.simps [of env c] iteration_short)
next
  case (Cons r reqs)
  obtain h1 resp where cb: "ce_callback env (cn_hs c) r = (h1, resp)" by fastforce
  have it: "handler_iteration env c = respond env
      (c\<lparr>cn_input := concat (map frame reqs) @ rest, cn_hs := h1, cn_handled := Suc (cn_handled c),
         cn_allocated := cn_allocated c + (if resp = None then 0 else 1)\<rparr>) resp"
    using iteration_frame [of r c "concat (map frame reqs) @ rest" env] Cons.prems by (simp add: cb)
  show ?case
  proof (cases resp)
    case None
    then show ?thesis
      using Cons.prems it assms
      by (simp add: handler.simps [of env c] cb respond_def)
  next
    case (Some d)
    obtain ds1 where ds: "serve (ce_callback env) h1 reqs = (ds1, h', e)" "ds = d # ds1"
      using Cons.prems(5) by (auto simp: cb Some split: prod.splits)
    let ?c = "c\<lparr>cn_input := concat (map frame reqs) @ rest, cn_hs := h1,
      cn_handled := Suc (cn_handled c), cn_allocated := Suc (cn_allocated c),
      cn_output := cn_output c @ frame d, cn_freed := Suc (cn_freed c)\<rparr>"
    have "handler_iteration env c = Continue ?c"
      unfolding it using assms by (simp add: Some respond_def frame_def)
    then have "handler env c = handler env ?c" by (simp add: handler.simps [of env c])
    moreover have "\<exists>c'. handler env ?c = (e, c') \<and>
        cn_output c' = cn_output ?c @ concat (map frame ds1) \<and> cn_hs c' = h' \<and>
        cn_allocated c' = cn_freed c' \<and> cn_stopped c' = (cn_stopped ?c \<or> e = Server_close)"
      by (rule Cons.IH) (use Cons.prems ds in simp_all)
    ultimately show ?thesis by (simp add: ds(2))
  qed
qed


text \<open>A handler that counts its requests, echoes them and closes on an empty one.\<close>

definition echo_env :: "nat conn_env" where
  "echo_env =
     \<lparr>ce_callback = (\<lambda>n r. (Suc n, if r = [] then None else Some r)),
      ce_is_open = (\<lambda>_. True), ce_write_ok = (\<lambda>_. True)\<rparr>"


section \<open>Malformed lengths and lost buffers\<close>

text \<open>
  A length prefix with the sign bit set ends the connection without a call of the handler
  and without a byte of output, whatever follows it.
\<close>

theorem negative_length_rejected:
  assumes "sint (readBE (b0, b1, b2, b3)) < 0"
  shows "handler env (new_conn (b0 # b1 # b2 # b3 # rest) h) =
    (Session_exception ''std::length_error'', (new_conn rest h)\<lparr>cn_stopped := True\<rparr>)"
  using assms by (simp add: handler.simps [of env] handler_iteration_def new_conn_def)

theorem negative_length_rejected_witness:
  "handler echo_env (new_conn [0xFF, 0xFF, 0xFF, 0xFF, 1, 2] 0) =
     (Session_exception ''std::length_error'', (new_conn [1, 2] 0)\<lparr>cn_stopped := True\<rparr>)"
proof (rule negative_length_rejected)
  show "sint (readBE (0xFF, 0xFF, 0xFF, 0xFF)) < 0" by (simp add: readBE_def)
qed

lemma respond_buffers:
  "cn_allocated c = cn_freed c + (if response = None then 0 else 1) \<Longrightarrow>
     respond env c response = Finished e c' \<Longrightarrow>
     cn_allocated c' = cn_freed c' + (if response \<noteq> None \<and>
       (e = Session_exception ''async_write'' \<or> e = Socket_closed) then 1 else 0) \<and>
     (e = Session_exception ''async_write'' \<longrightarrow> response \<noteq> None)"
  by (auto simp: respond_def Let_def split: if_splits option.splits)

definition buffers_at_end :: "handler_end \<Rightarrow> 'h conn \<Rightarrow> bool" where
  "buffers_at_end e c \<longleftrightarrow>
     cn_freed c \<le> cn_allocated c \<and> cn_allocated c \<le> Suc (cn_freed c) \<and>
     (e = Session_exception ''async_write'' \<longrightarrow> cn_allocated c = Suc (cn_freed c)) \<and>
     (e \<noteq> Session_exception ''async_write'' \<and> e \<noteq> Socket_closed \<longrightarrow> cn_allocated c = cn_freed c)"

lemma iteration_buffers:
  assumes "cn_allocated c = cn_freed c"
  shows "handler_iteration env c = Continue c' \<Longrightarrow> cn_allocated c' = cn_freed c'"
    and "handler_iteration env c = Finished e c' \<Longrightarrow> buffers_at_end e c'"
proof -
  assume "handler_iteration env c = Continue c'"
  then show "cn_allocated c' = cn_freed c'"
    using assms
    by (auto simp: handler_iteration_def Let_def split: list.splits if_splits prod.splits
        dest!: respond_Continue)
next
  assume it: "handler_iteration env c = Finished e c'"
  then show "buffers_at_end e c'"
    using assms
    by (auto simp: handler_iteration_def Let_def respond_def buffers_at_end_def
        split: list.splits if_splits prod.splits option.splits)
qed

lemma handler_buffers:
  "cn_allocated c = cn_freed c \<Longrightarrow> handler env c = (e, c') \<Longrightarrow> buffers_at_end e c'"
proof (induction env c rule: handler.induct)
  case (1 env c)
  show ?case
  proof (cases "handler_iteration env c")
    case (Continue c1)
    with 1 iteration_buffers(1) [OF 1(2) Continue] show ?thesis
      by (simp add: handler.simps [of env c])
  next
    case (Finished e1 c1)
    with 1 iteration_buffers(2) [OF 1(2) Finished] show ?thesis
      by (simp add: handler.simps [of env c])
  qed
qed

text \<open>
  \<^bold>\<open>C34.\<close> Response buffers over the life of a connection, for every input and every behaviour of
  the socket: at most one buffer is never freed, none when the connection ends normally, and always
  exactly one when a write fails, because the exception skips \<open>free(response.data)\<close>.
\<close>

theorem response_buffer_lost_on_write_error:
  assumes "handler env (new_conn input h) = (e, c)"
  shows "cn_freed c \<le> cn_allocated c \<and> cn_allocated c \<le> Suc (cn_freed c) \<and>
    (e = Session_exception ''async_write'' \<longrightarrow> cn_allocated c = Suc (cn_freed c)) \<and>
    (e \<notin> {Session_exception ''async_write'', Socket_closed} \<longrightarrow> cn_allocated c = cn_freed c)"
  using handler_buffers [OF _ assms] by (simp add: new_conn_def buffers_at_end_def)

theorem response_buffer_lost_on_write_error_witness:
  "\<exists>c. handler (echo_env\<lparr>ce_write_ok := (\<lambda>_. False)\<rparr>) (new_conn (frame [7]) 0) =
       (Session_exception ''async_write'', c) \<and>
     cn_allocated c = 1 \<and> cn_freed c = 0"
proof -
  let ?env = "echo_env\<lparr>ce_write_ok := (\<lambda>_. False)\<rparr>" and ?c = "new_conn (frame [7]) (0::nat)"
  have "handler_iteration ?env ?c = Finished (Session_exception ''async_write'')
      (?c\<lparr>cn_input := [], cn_hs := 1, cn_handled := 1, cn_allocated := 1, cn_stopped := True\<rparr>)"
    using iteration_frame [of "[7]" ?c "[]" ?env]
    by (simp add: new_conn_def echo_env_def respond_def)
  then have run: "handler ?env ?c = (Session_exception ''async_write'',
      ?c\<lparr>cn_input := [], cn_hs := 1, cn_handled := 1, cn_allocated := 1, cn_stopped := True\<rparr>)"
    by (simp add: handler.simps [of ?env])
  from response_buffer_lost_on_write_error [OF this] run show ?thesis
    by (simp add: new_conn_def)
qed

section \<open>Round robin\<close>

text \<open>
  Length prefixes survive the wire: reading what was written gives the value back, negative
  values included, and every four bytes are the encoding of the value they are read as.
\<close>

theorem length_prefix_roundtrip: "readBE (writeBE v) = v \<and> writeBE (readBE bs) = bs"
  by (simp add: readBE_writeBE writeBE_readBE)

lemma get_io_context_next:
  assumes "next_io_context_' p < length (io_contexts_' p)"
  shows "get_io_context p = (next_io_context_' p,
    p\<lparr>next_io_context_' := Suc (next_io_context_' p) mod length (io_contexts_' p)\<rparr>)"
  using assms by (auto simp: get_io_context_def Let_def)

lemma listener_round_robin:
  assumes "next_io_context_' p < length (io_contexts_' p)"
  shows "fst (listener n p) =
    map (\<lambda>k. (next_io_context_' p + k) mod length (io_contexts_' p)) [0..<n]"
  using assms
proof (induction n arbitrary: p)
  case 0
  then show ?case by simp
next
  case (Suc n)
  let ?s = "length (io_contexts_' p)"
  let ?p = "p\<lparr>next_io_context_' := Suc (next_io_context_' p) mod ?s\<rparr>"
  have "0 < ?s" using Suc.prems by linarith
  then have "fst (listener n ?p) = map (\<lambda>k. (Suc (next_io_context_' p) mod ?s + k) mod ?s) [0..<n]"
    using Suc.IH [of ?p] by simp
  also have "\<dots> = map (\<lambda>k. (next_io_context_' p + k) mod ?s) [1..<Suc n]"
    by (rule nth_equalityI) (simp_all del: upt_Suc add: mod_add_left_eq)
  finally have "fst (listener (Suc n) p) =
      next_io_context_' p # map (\<lambda>k. (next_io_context_' p + k) mod ?s) [1..<Suc n]"
    using get_io_context_next [OF Suc.prems] by (simp del: upt_Suc add: case_prod_unfold)
  moreover have "[0..<Suc n] = 0 # [1..<Suc n]" by (simp add: upt_conv_Cons del: upt_Suc)
  ultimately show ?case using Suc.prems by (simp del: upt_Suc)
qed

text \<open>Among \<open>n\<close> consecutive numbers every residue occurs \<open>n div s\<close> or one more time.\<close>

definition residues :: "nat \<Rightarrow> nat \<Rightarrow> nat \<Rightarrow> nat \<Rightarrow> nat set" where
  "residues s i a n = {k \<in> {a..<a + n}. k mod s = i}"

lemma finite_residues [simp]: "finite (residues s i a n)"
  by (simp add: residues_def)

lemma residues_of_block:
  assumes "n \<le> s"
  shows "card (residues s i a n) \<le> 1"
proof -
  have "k = k'" if "k \<in> residues s i a n" "k' \<in> residues s i a n" "k \<le> k'" for k k'
  proof -
    have "k mod s = k' mod s" using that by (simp add: residues_def)
    then have "s dvd k' - k" using that(3) by (metis mod_eq_dvd_iff_nat)
    moreover have "k' - k < s" using that assms by (auto simp: residues_def)
    ultimately show ?thesis using that(3) by (auto dest: nat_dvd_not_less)
  qed
  then have "k = k'" if "k \<in> residues s i a n" "k' \<in> residues s i a n" for k k'
    using that nat_le_linear by blast
  then show ?thesis by (simp add: card_le_Suc0_iff_eq)
qed

lemma residue_in_block:
  assumes "i < s"
  shows "card (residues s i a s) = 1"
proof -
  define k where "k = a + (i + s - a mod s) mod s"
  have "k mod s = (a mod s + (i + s - a mod s)) mod s"
    by (simp add: k_def mod_simps)
  also have "a mod s + (i + s - a mod s) = i + s"
    using mod_less_divisor [of s a] assms by linarith
  finally have "k mod s = i" using assms by simp
  moreover have "k \<in> {a..<a + s}" using assms by (simp add: k_def)
  ultimately have "residues s i a s \<noteq> {}" by (auto simp: residues_def)
  then have "0 < card (residues s i a s)" by (simp add: card_gt_0_iff)
  with residues_of_block [OF order_refl, of s i a] show ?thesis by linarith
qed

lemma residue_count:
  assumes "i < s"
  shows "n div s \<le> card (residues s i a n) \<and> card (residues s i a n) \<le> Suc (n div s)"
proof (induction n arbitrary: a rule: less_induct)
  case (less n)
  show ?case
  proof (cases "n < s")
    case True
    with residues_of_block [of n s i a] show ?thesis by simp
  next
    case False
    then have "residues s i a n = residues s i a s \<union> residues s i (a + s) (n - s)"
      "residues s i a s \<inter> residues s i (a + s) (n - s) = {}"
      by (auto simp: residues_def)
    then have "card (residues s i a n) = Suc (card (residues s i (a + s) (n - s)))"
      by (simp add: card_Un_disjoint residue_in_block [OF assms])
    moreover have "n div s = Suc ((n - s) div s)"
      using False assms by (simp add: le_div_geq)
    ultimately show ?thesis using less [of "n - s" "a + s"] False assms by simp
  qed
qed

lemma count_list_residues:
  "count_list (map (\<lambda>k. (k + a) mod s) [0..<n]) i = card (residues s i a n)"
proof (induction n)
  case 0
  then show ?case by (simp add: residues_def)
next
  case (Suc n)
  have "residues s i a (Suc n) =
      (if (n + a) mod s = i then insert (n + a) (residues s i a n) else residues s i a n)"
    by (auto simp: residues_def less_Suc_eq add.commute)
  moreover have "n + a \<notin> residues s i a n" by (simp add: residues_def)
  ultimately show ?case using Suc by simp
qed

text \<open>
  A server with \<open>s > 0\<close> event loops spreads its connections evenly: the \<open>k\<close>-th accepted
  connection runs on loop \<open>(k + 2) mod s\<close>, after the acceptor and the accept loop took the first
  two turns, and after \<open>n\<close> connections each loop has \<open>n div s\<close> of them or one more.
\<close>

theorem connections_round_robin:
  assumes "new_kafka_server s = Inr p" "run_kafka_server p fd n = (r, p')"
  shows "sr_connections r = map (\<lambda>k. (k + 2) mod s) [0..<n] \<and>
    (\<forall>i < s. n div s \<le> count_list (sr_connections r) i \<and>
             count_list (sr_connections r) i \<le> Suc (n div s))"
proof -
  have s: "0 < s" and p: "length (io_contexts_' p) = s" "next_io_context_' p = 0"
    using assms(1) by (auto simp: new_kafka_server_def new_io_context_pool_def split: if_splits)
  let ?p1 = "p\<lparr>next_io_context_' := Suc 0 mod s\<rparr>"
  let ?p2 = "p\<lparr>next_io_context_' := Suc (Suc 0 mod s) mod s\<rparr>"
  have "get_io_context p = (0, ?p1)" "get_io_context ?p1 = (Suc 0 mod s, ?p2)"
    using get_io_context_next [of p] get_io_context_next [of ?p1] s p by simp_all
  then have "sr_connections r = fst (listener n ?p2)"
    using assms(2) by (auto simp: run_kafka_server_def Let_def split: prod.splits)
  also have "\<dots> = map (\<lambda>k. (Suc (Suc 0 mod s) mod s + k) mod s) [0..<n]"
    using listener_round_robin [of ?p2 n] s p by simp
  also have "\<dots> = map (\<lambda>k. (k + 2) mod s) [0..<n]"
    by (rule map_cong) (simp_all add: mod_simps add.commute)
  finally have c: "sr_connections r = map (\<lambda>k. (k + 2) mod s) [0..<n]" .
  show ?thesis
    unfolding c count_list_residues using residue_count [of _ s n 2] by blast
qed

theorem connections_round_robin_witness:
  "sr_connections (fst (run_kafka_server
     \<lparr>io_contexts_' = [False, False, False], work_' = [0, 1, 2], next_io_context_' = 0\<rparr> (-1) 4)) =
   [2, 0, 1, 2]"
proof -
  let ?p = "\<lparr>io_contexts_' = [False, False, False], work_' = [0, 1, 2], next_io_context_' = 0\<rparr>"
  have "new_kafka_server 3 = Inr ?p"
    by (simp add: new_kafka_server_def new_io_context_pool_def numeral_3_eq_3 upt_rec)
  from connections_round_robin [OF this prod.collapse [symmetric], of "-1" 4] show ?thesis
    by (simp add: upt_rec)
qed

end
