(* ===== verification/Kafka_Session.thy ===== *)
theory Kafka_Session
  imports Kafka_Server
begin

text \<open>
  A connection of the Kafka server together with the Haskell threads it calls. The coroutine
  \<open>ServerHandler::handler\<close> hands each request to a thread that Haskell forks, and waits on a channel, the
  lock of the request, until that thread calls \<open>ka_release_lock\<close>. \<open>Kafka_Server\<close> treats the call and the
  wait as one step; here all steps of the coroutine, of the Haskell threads and of the event loop
  interleave, and the one-step view is proved to be right.

  The lock, the request and the response are local variables of one round of the coroutine: Haskell
  reaches them by pointers, which dangle when the round is over or the server has been deleted. The
  Haskell side is \<open>processorCallback\<close>, seen through what it does with these pointers.
\<close>

section \<open>Locks\<close>

text \<open>
  \<open>CoroLock\<close>, a channel of asio that carries an error code and a flag. A send or receive completes, or
  waits (\<^const>\<open>None\<close>). The code relies on a channel of capacity 1 having room for one message.
\<close>

record 'ch channel_lib =
  ch_new :: "nat \<Rightarrow> 'ch"
  ch_send :: "int \<times> bool \<Rightarrow> 'ch \<Rightarrow> (int \<times> 'ch) option"
  ch_receive :: "'ch \<Rightarrow> ((int \<times> bool) \<times> 'ch) option"

locale coro_lock =
  fixes lib :: "'ch channel_lib"
  assumes new_waits: "ch_receive lib (ch_new lib 1) = None"
    and send_buffers: "\<exists>ch. ch_send lib v (ch_new lib 1) = Some (0, ch) \<and> ch_receive lib ch \<noteq> None"
begin

text \<open>Whatever is sent first is there for the receiver, and the sender is told so.\<close>

lemma first_send:
  obtains ch where "ch_send lib v (ch_new lib 1) = Some (0, ch)" "ch_receive lib ch \<noteq> None"
  using send_buffers by blast

end

text \<open>
  \<open>ka_release_lock\<close>: the channel afterwards and the completion handlers that become ready, each with
  the error code it stores before it wakes the Haskell thread.
\<close>

definition ka_release_lock :: "'ch channel_lib \<Rightarrow> 'ch option \<Rightarrow> 'ch option \<times> int list" where
  "ka_release_lock lib channel =
     (case channel of
        None \<Rightarrow> (None, [])
      | Some ch \<Rightarrow>
          (case ch_send lib (0, True) ch of
             None \<Rightarrow> (Some ch, [])
           | Some (ec, ch) \<Rightarrow> (Some ch, [ec])))"

section \<open>Sessions\<close>

record 'ch server_request =
  kr_data :: "u8 list"
  kr_lock :: 'ch

record server_response =
  kp_data :: "u8 list option"

datatype co_state = Reading | Receiving | Responding | Done handler_end

text \<open>
  A Haskell thread between the calls that touch C++ memory, with the number of the round whose
  variables its pointers address.
\<close>

datatype worker =
    Forked nat
  | Working nat "u8 list"
  | Handled nat "u8 list option"
  | Poked nat

record ('h, 'ch) session =
  se_conn :: "'h conn"
  se_co :: co_state
  se_locals :: "(nat \<times> 'ch server_request \<times> server_response) option"
  se_workers :: "worker list"
  se_completions :: "int list"   \<comment> \<open>completion handlers ready to run\<close>
  se_rets :: "int list"          \<comment> \<open>return codes of Haskell threads that were woken\<close>
  se_stopped :: bool             \<comment> \<open>\<open>io_context::stop\<close> was called\<close>

datatype 'a access = Valid 'a | Dangling

text \<open>Access to the variables of a round.\<close>

definition locals_of ::
    "nat \<Rightarrow> ('h, 'ch) session \<Rightarrow> ('ch server_request \<times> server_response) option" where
  "locals_of i s =
     (case se_locals s of Some (j, vars) \<Rightarrow> if i = j then Some vars else None | None \<Rightarrow> None)"

text \<open>The coroutine up to the call of Haskell: the two reads of \<open>handler\<close>.\<close>

definition read_request :: "'h conn \<Rightarrow> 'h conn \<times> (handler_end + u8 list)" where
  "read_request c =
     (case cn_input c of
        b0 # b1 # b2 # b3 # rest \<Rightarrow>
          (let len = sint (readBE (b0, b1, b2, b3))
           in if len < 0 then
                (c\<lparr>cn_input := rest, cn_stopped := True\<rparr>, Inl (Session_exception ''std::length_error''))
              else if length rest < nat len then
                (c\<lparr>cn_input := [], cn_stopped := True\<rparr>, Inl (Session_exception ''async_read''))
              else
                (c\<lparr>cn_input := drop (nat len) rest, cn_handled := Suc (cn_handled c)\<rparr>,
                 Inr (take (nat len) rest)))
      | _ \<Rightarrow> (c\<lparr>cn_input := []\<rparr>, Inl Read_failed))"

text \<open>The callback forks a Haskell thread and returns; the coroutine then waits for the lock.\<close>

definition co_read :: "'ch channel_lib \<Rightarrow> ('h, 'ch) session \<Rightarrow> ('h, 'ch) session" where
  "co_read lib s =
     (case read_request (se_conn s) of
        (c, Inl e) \<Rightarrow> s\<lparr>se_conn := c, se_co := Done e\<rparr>
      | (c, Inr msg) \<Rightarrow>
          s\<lparr>se_conn := c, se_co := Receiving,
            se_locals := Some (cn_handled c, \<lparr>kr_data = msg, kr_lock = ch_new lib 1\<rparr>, \<lparr>kp_data = None\<rparr>),
            se_workers := se_workers s @ [Forked (cn_handled c)]\<rparr>)"

text \<open>The end of a round destroys its variables.\<close>

definition co_respond ::
    "'h conn_env \<Rightarrow> u8 list option \<Rightarrow> ('h, 'ch) session \<Rightarrow> ('h, 'ch) session" where
  "co_respond env response s =
     (case respond env (se_conn s) response of
        Continue c \<Rightarrow> s\<lparr>se_conn := c, se_co := Reading, se_locals := None\<rparr>
      | Finished e c \<Rightarrow> s\<lparr>se_conn := c, se_co := Done e, se_locals := None\<rparr>)"

text \<open>One step of the Haskell thread \<open>k\<close>.\<close>

definition hs_step ::
    "'h conn_env \<Rightarrow> 'ch channel_lib \<Rightarrow> nat \<Rightarrow> ('h, 'ch) session \<Rightarrow> ('h, 'ch) session access" where
  "hs_step env lib k s =
     (let ws = se_workers s; c = se_conn s in
      case ws ! k of
        Forked i \<Rightarrow>
          (case locals_of i s of
             None \<Rightarrow> Dangling
           | Some (rq, rp) \<Rightarrow> Valid (s\<lparr>se_workers := ws[k := Working i (kr_data rq)]\<rparr>))
      | Working i msg \<Rightarrow>
          (case ce_callback env (cn_hs c) msg of
             (h, response) \<Rightarrow> Valid (s\<lparr>se_conn := c\<lparr>cn_hs := h\<rparr>, se_workers := ws[k := Handled i response]\<rparr>))
      | Handled i response \<Rightarrow>
          (case locals_of i s of
             None \<Rightarrow> Dangling
           | Some (rq, rp) \<Rightarrow>
               Valid (s\<lparr>se_conn := c\<lparr>cn_allocated := cn_allocated c + (if response = None then 0 else 1)\<rparr>,
                        se_locals := Some (i, rq, rp\<lparr>kp_data := response\<rparr>),
                        se_workers := ws[k := Poked i]\<rparr>))
      | Poked i \<Rightarrow>
          (case locals_of i s of
             None \<Rightarrow> Dangling
           | Some (rq, rp) \<Rightarrow>
               (case ka_release_lock lib (Some (kr_lock rq)) of
                  (ch, ready) \<Rightarrow>
                    Valid (s\<lparr>se_locals := Some (i, rq\<lparr>kr_lock := the ch\<rparr>, rp),
                             se_workers := take k ws @ drop (Suc k) ws,
                             se_completions := se_completions s @ ready\<rparr>))))"

text \<open>
  All interleavings. The event loop runs the coroutine and the completion handlers until it is
  stopped. Deleting the server destroys the event loop with the coroutines suspended in it; \<open>del\<close>
  says whether that may happen.
\<close>

inductive session_step ::
    "bool \<Rightarrow> 'h conn_env \<Rightarrow> 'ch channel_lib \<Rightarrow> ('h, 'ch) session \<Rightarrow> ('h, 'ch) session access \<Rightarrow> bool"
  for del :: bool and env :: "'h conn_env" and lib :: "'ch channel_lib" where
  reads: "\<not> se_stopped s \<Longrightarrow> se_co s = Reading \<Longrightarrow> session_step del env lib s (Valid (co_read lib s))"
| receives: "\<not> se_stopped s \<Longrightarrow> se_co s = Receiving \<Longrightarrow> se_locals s = Some (i, rq, rp) \<Longrightarrow>
    ch_receive lib (kr_lock rq) = Some (v, ch) \<Longrightarrow>
    session_step del env lib s (Valid (s\<lparr>se_co := Responding, se_locals := Some (i, rq\<lparr>kr_lock := ch\<rparr>, rp)\<rparr>))"
| responds: "\<not> se_stopped s \<Longrightarrow> se_co s = Responding \<Longrightarrow> se_locals s = Some (i, rq, rp) \<Longrightarrow>
    session_step del env lib s (Valid (co_respond env (kp_data rp) s))"
| works: "k < length (se_workers s) \<Longrightarrow> session_step del env lib s (hs_step env lib k s)"
| completes: "\<not> se_stopped s \<Longrightarrow> se_completions s = ec # es \<Longrightarrow>
    session_step del env lib s (Valid (s\<lparr>se_completions := es, se_rets := se_rets s @ [ec]\<rparr>))"
| stops: "\<not> se_stopped s \<Longrightarrow> session_step del env lib s (Valid (s\<lparr>se_stopped := True\<rparr>))"
| deletes: "del \<Longrightarrow>
    session_step del env lib s (Valid (s\<lparr>se_stopped := True, se_locals := None, se_completions := []\<rparr>))"

text \<open>\<open>ServerHandler::start\<close> spawns the coroutine.\<close>

definition ServerHandler_start :: "'h conn \<Rightarrow> ('h, 'ch) session" where
  "ServerHandler_start c =
     \<lparr>se_conn = c, se_co = Reading, se_locals = None, se_workers = [], se_completions = [], se_rets = [],
      se_stopped = False\<rparr>"

inductive session_reach ::
    "bool \<Rightarrow> 'h conn_env \<Rightarrow> 'ch channel_lib \<Rightarrow> 'h conn \<Rightarrow> ('h, 'ch) session \<Rightarrow> bool"
  for del :: bool and env :: "'h conn_env" and lib :: "'ch channel_lib" and c0 :: "'h conn" where
  start: "session_reach del env lib c0 (ServerHandler_start c0)"
| step: "session_reach del env lib c0 s \<Longrightarrow> session_step del env lib s (Valid s') \<Longrightarrow>
    session_reach del env lib c0 s'"

section \<open>Interleavings do not show\<close>

text \<open>What the sequential \<open>handler\<close> makes of the rest of a round.\<close>

definition finish :: "'h conn_env \<Rightarrow> 'h iteration \<Rightarrow> handler_end \<times> 'h conn" where
  "finish env it = (case it of Continue c \<Rightarrow> handler env c | Finished e c \<Rightarrow> (e, c))"

definition add_buffer :: "u8 list option \<Rightarrow> 'h conn \<Rightarrow> 'h conn" where
  "add_buffer response c = c\<lparr>cn_allocated := cn_allocated c + (if response = None then 0 else 1)\<rparr>"

definition call_and_respond :: "'h conn_env \<Rightarrow> u8 list \<Rightarrow> 'h conn \<Rightarrow> 'h iteration" where
  "call_and_respond env msg c =
     (case ce_callback env (cn_hs c) msg of
        (h, response) \<Rightarrow> respond env (add_buffer response (c\<lparr>cn_hs := h\<rparr>)) response)"

lemma handler_finish: "handler env c = finish env (handler_iteration env c)"
  by (subst handler.simps) (simp add: finish_def split: iteration.split)

lemma iteration_read:
  "handler_iteration env c =
     (case read_request c of (c', Inl e) \<Rightarrow> Finished e c' | (c', Inr msg) \<Rightarrow> call_and_respond env msg c')"
  by (cases c)
    (auto simp: handler_iteration_def read_request_def call_and_respond_def add_buffer_def Let_def
      split: list.split prod.split)

definition worker_inv ::
    "'h conn_env \<Rightarrow> 'ch channel_lib \<Rightarrow> handler_end \<times> 'h conn \<Rightarrow> nat \<Rightarrow> 'ch server_request \<Rightarrow> server_response
       \<Rightarrow> 'h conn \<Rightarrow> worker list \<Rightarrow> bool" where
  "worker_inv env lib r i rq rp c ws \<longleftrightarrow>
     (case ws of
        [] \<Rightarrow> ch_receive lib (kr_lock rq) \<noteq> None \<and> finish env (respond env c (kp_data rp)) = r
      | w # ws' \<Rightarrow> ws' = [] \<and> kr_lock rq = ch_new lib 1 \<and>
          (case w of
             Forked j \<Rightarrow> j = i \<and> finish env (call_and_respond env (kr_data rq) c) = r
           | Working j msg \<Rightarrow> j = i \<and> finish env (call_and_respond env msg c) = r
           | Handled j response \<Rightarrow> j = i \<and> finish env (respond env (add_buffer response c) response) = r
           | Poked j \<Rightarrow> j = i \<and> finish env (respond env c (kp_data rp)) = r))"

definition co_inv ::
    "'h conn_env \<Rightarrow> 'ch channel_lib \<Rightarrow> handler_end \<times> 'h conn \<Rightarrow> ('h, 'ch) session \<Rightarrow> bool" where
  "co_inv env lib r s \<longleftrightarrow>
     (case se_co s of
        Reading \<Rightarrow> se_workers s = [] \<and> se_locals s = None \<and> handler env (se_conn s) = r
      | Receiving \<Rightarrow>
          (case se_locals s of
             None \<Rightarrow> False
           | Some (i, rq, rp) \<Rightarrow> worker_inv env lib r i rq rp (se_conn s) (se_workers s))
      | Responding \<Rightarrow> se_workers s = [] \<and>
          (case se_locals s of
             None \<Rightarrow> False
           | Some (i, rq, rp) \<Rightarrow> finish env (respond env (se_conn s) (kp_data rp)) = r)
      | Done e \<Rightarrow> se_workers s = [] \<and> se_locals s = None \<and> (e, se_conn s) = r)"

lemma co_inv_update [simp]:
  "co_inv env lib r (s\<lparr>se_completions := es\<rparr>) = co_inv env lib r s"
  "co_inv env lib r (s\<lparr>se_rets := es\<rparr>) = co_inv env lib r s"
  "co_inv env lib r (s\<lparr>se_stopped := b\<rparr>) = co_inv env lib r s"
  by (simp_all add: co_inv_def cong: co_state.case_cong option.case_cong prod.case_cong)

text \<open>Every request passed to Haskell is with its thread, or being acknowledged, or acknowledged.\<close>

definition wake_inv :: "nat \<Rightarrow> ('h, 'ch) session \<Rightarrow> bool" where
  "wake_inv n s \<longleftrightarrow>
     set (se_completions s) \<subseteq> {0} \<and> set (se_rets s) \<subseteq> {0} \<and>
     cn_handled (se_conn s) =
       n + length (se_rets s) + length (se_completions s) + length (se_workers s)"

lemma hs_step_stopped: "hs_step env lib k s = Valid s' \<Longrightarrow> se_stopped s' = se_stopped s"
  by (cases "se_workers s ! k")
    (auto simp: hs_step_def Let_def split: option.splits prod.splits)

lemma respond_handled:
  "respond env c response = Continue c' \<Longrightarrow> cn_handled c' = cn_handled c"
  "respond env c response = Finished e c' \<Longrightarrow> cn_handled c' = cn_handled c"
  by (auto simp: respond_def Let_def split: if_splits option.splits)

lemma read_request_handled:
  "read_request c = (c', Inl e) \<Longrightarrow> cn_handled c' = cn_handled c"
  "read_request c = (c', Inr msg) \<Longrightarrow> cn_handled c' = Suc (cn_handled c)"
  by (auto simp: read_request_def Let_def split: list.splits if_splits)

context coro_lock
begin

lemma co_read_inv:
  assumes "co_inv env lib r s" "wake_inv n s" "se_co s = Reading"
  shows "co_inv env lib r (co_read lib s) \<and> wake_inv n (co_read lib s)"
proof -
  obtain c o' where rd: "read_request (se_conn s) = (c, o')" by fastforce
  have r: "r = finish env (handler_iteration env (se_conn s))" and ws: "se_workers s = []" and ls: "se_locals s = None"
    using assms(1,3) by (simp_all add: co_inv_def handler_finish)
  show ?thesis
  proof (cases o')
    case (Inl e)
    then have "r = (e, c)" using r rd by (simp add: iteration_read finish_def)
    then show ?thesis
      using assms(2) rd Inl ws ls read_request_handled(1) [of "se_conn s" c e]
      by (simp add: co_read_def co_inv_def wake_inv_def)
  next
    case (Inr msg)
    then have "r = finish env (call_and_respond env msg c)" using r rd by (simp add: iteration_read)
    then show ?thesis
      using assms(2) rd Inr ws ls read_request_handled(2) [of "se_conn s" c msg]
      by (simp add: co_read_def co_inv_def worker_inv_def wake_inv_def)
  qed
qed

lemma co_respond_inv:
  assumes "co_inv env lib r s" "wake_inv n s" "se_co s = Responding" "se_locals s = Some (i, rq, rp)"
  shows "co_inv env lib r (co_respond env (kp_data rp) s) \<and> wake_inv n (co_respond env (kp_data rp) s)"
  using assms respond_handled [of env "se_conn s" "kp_data rp"]
  by (cases "respond env (se_conn s) (kp_data rp)")
    (auto simp: co_respond_def co_inv_def wake_inv_def finish_def)

text \<open>A thread that works belongs to the current round, and its pointers are valid.\<close>

lemma working_round:
  assumes "co_inv env lib r s" "k < length (se_workers s)"
  obtains i rq rp where "k = 0" "se_co s = Receiving" "se_locals s = Some (i, rq, rp)"
    "worker_inv env lib r i rq rp (se_conn s) (se_workers s)" "se_workers s = [se_workers s ! 0]"
    "kr_lock rq = ch_new lib 1"
proof -
  have co: "se_co s = Receiving" using assms by (auto simp: co_inv_def split: co_state.splits)
  then obtain i rq rp where ls: "se_locals s = Some (i, rq, rp)"
    and w: "worker_inv env lib r i rq rp (se_conn s) (se_workers s)"
    using assms(1) by (auto simp: co_inv_def split: option.splits)
  then obtain w' where "se_workers s = [w']" "kr_lock rq = ch_new lib 1"
    using assms(2) by (cases "se_workers s") (auto simp: worker_inv_def)
  then show ?thesis using that [OF _ co ls w] assms(2) by simp
qed

lemma hs_step_inv:
  assumes inv: "co_inv env lib r s" "wake_inv n s" and k: "k < length (se_workers s)"
  obtains s' where "hs_step env lib k s = Valid s'" "co_inv env lib r s'" "wake_inv n s'"
proof -
  obtain i rq rp where k0: "k = 0" and co: "se_co s = Receiving" and ls: "se_locals s = Some (i, rq, rp)"
    and w: "worker_inv env lib r i rq rp (se_conn s) (se_workers s)" and ws: "se_workers s = [se_workers s ! 0]"
    and lock: "kr_lock rq = ch_new lib 1"
    by (rule working_round [OF inv(1) k])
  define w0 where "w0 = se_workers s ! 0"
  have ws0: "se_workers s = [w0]" using ws by (simp add: w0_def)
  note facts = k0 co ls ws0 lock
  show ?thesis
  proof (cases w0)
    case (Forked j)
    then show ?thesis
      using w inv(2) facts
      by (intro that [of "s\<lparr>se_workers := [Working i (kr_data rq)]\<rparr>"])
        (auto simp: hs_step_def locals_of_def worker_inv_def co_inv_def wake_inv_def)
  next
    case (Working j msg)
    obtain h response where cb: "ce_callback env (cn_hs (se_conn s)) msg = (h, response)" by fastforce
    show ?thesis
      using w inv(2) facts Working cb
      by (intro that [of "s\<lparr>se_conn := (se_conn s)\<lparr>cn_hs := h\<rparr>, se_workers := [Handled i response]\<rparr>"])
        (auto simp: hs_step_def worker_inv_def co_inv_def wake_inv_def call_and_respond_def)
  next
    case (Handled j response)
    then show ?thesis
      using w inv(2) facts
      by (intro that [of "s\<lparr>se_conn := add_buffer response (se_conn s),
          se_locals := Some (i, rq, rp\<lparr>kp_data := response\<rparr>), se_workers := [Poked i]\<rparr>"])
        (auto simp: hs_step_def locals_of_def worker_inv_def co_inv_def wake_inv_def add_buffer_def Let_def)
  next
    case (Poked j)
    obtain ch where ch: "ch_send lib (0, True) (ch_new lib 1) = Some (0, ch)" "ch_receive lib ch \<noteq> None"
      by (rule first_send)
    show ?thesis
      using w inv(2) facts Poked ch
      by (intro that [of "s\<lparr>se_locals := Some (i, rq\<lparr>kr_lock := ch\<rparr>, rp), se_workers := [],
          se_completions := se_completions s @ [0]\<rparr>"])
        (auto simp: hs_step_def locals_of_def ka_release_lock_def worker_inv_def co_inv_def wake_inv_def)
  qed
qed

lemma step_inv:
  assumes "session_step False env lib s t" "co_inv env lib r s" "wake_inv n s"
  obtains s' where "t = Valid s'" "co_inv env lib r s'" "wake_inv n s'"
  using assms
proof cases
  case reads
  then show ?thesis using co_read_inv [OF assms(2,3)] that by blast
next
  case (receives i rq rp v ch)
  moreover from this have "se_workers s = [] \<and> finish env (respond env (se_conn s) (kp_data rp)) = r"
    using assms(2) by (auto simp: co_inv_def worker_inv_def new_waits [unfolded One_nat_def] split: list.splits)
  ultimately show ?thesis using assms(3) by (intro that) (auto simp: co_inv_def wake_inv_def)
next
  case (responds i rq rp)
  then show ?thesis using co_respond_inv [OF assms(2,3)] that by blast
next
  case (works k)
  then show ?thesis using hs_step_inv [OF assms(2,3), of k] that by metis
next
  case (completes ec es)
  then show ?thesis
    using assms(2,3)
    by (intro that [of "s\<lparr>se_completions := es, se_rets := se_rets s @ [ec]\<rparr>"]) (auto simp: wake_inv_def)
next
  case stops
  then show ?thesis
    using assms(2,3) by (intro that [of "s\<lparr>se_stopped := True\<rparr>"]) (auto simp: wake_inv_def)
qed simp

lemma reach_inv:
  assumes "session_reach False env lib c0 s"
  shows "co_inv env lib (handler env c0) s \<and> wake_inv (cn_handled c0) s"
  using assms
proof induction
  case start
  show ?case by (simp add: ServerHandler_start_def co_inv_def wake_inv_def)
next
  case (step s s')
  from step.IH have "co_inv env lib (handler env c0) s" "wake_inv (cn_handled c0) s" by simp_all
  from step_inv [OF step.hyps(2) this] show ?case by (metis access.inject)
qed

text \<open>Something can happen until the coroutine is done and every Haskell thread has been woken.\<close>

lemma progress:
  assumes inv: "co_inv env lib r s" "wake_inv n s" and run: "\<not> se_stopped s"
  obtains s' where "session_step False env lib s (Valid s')" "\<not> se_stopped s'"
  | e where "se_co s = Done e" "se_completions s = []" "se_workers s = []"
proof (cases "se_co s")
  case Reading
  moreover have "\<not> se_stopped (co_read lib s)"
    using run by (simp add: co_read_def split: prod.split sum.split)
  ultimately show ?thesis by (intro that(1) [OF session_step.reads [OF run]])
next
  case Receiving
  then obtain i rq rp where ls: "se_locals s = Some (i, rq, rp)"
    and w: "worker_inv env lib r i rq rp (se_conn s) (se_workers s)"
    using inv(1) by (auto simp: co_inv_def split: option.splits)
  show ?thesis
  proof (cases "se_workers s")
    case Nil
    then obtain v ch where "ch_receive lib (kr_lock rq) = Some (v, ch)"
      using w by (auto simp: worker_inv_def)
    from session_step.receives [OF run Receiving ls this] show ?thesis
      by (rule that(1)) (use run in simp)
  next
    case (Cons w' ws)
    then have k: "0 < length (se_workers s)" by simp
    obtain s' where s': "hs_step env lib 0 s = Valid s'" using hs_step_inv [OF inv k] by metis
    have "session_step False env lib s (Valid s')"
      using session_step.works [OF k, of False env lib] unfolding s' .
    then show ?thesis using hs_step_stopped [OF s'] run by (intro that(1)) simp_all
  qed
next
  case Responding
  then obtain i rq rp where ls: "se_locals s = Some (i, rq, rp)"
    using inv(1) by (auto simp: co_inv_def split: option.splits)
  have "\<not> se_stopped (co_respond env (kp_data rp) s)"
    using run by (simp add: co_respond_def split: iteration.split)
  then show ?thesis by (rule that(1) [OF session_step.responds [OF run Responding ls]])
next
  case (Done e)
  show ?thesis
  proof (cases "se_completions s")
    case Nil
    then show ?thesis using that(2) [OF Done Nil] inv(1) Done by (simp add: co_inv_def)
  next
    case (Cons ec es)
    from session_step.completes [OF run this] show ?thesis
      by (rule that(1)) (use run in simp)
  qed
qed

end

text \<open>Every step uses up input, or moves a thread or the coroutine on.\<close>

fun worker_rank :: "worker \<Rightarrow> nat" where
  "worker_rank (Forked i) = 5"
| "worker_rank (Working i msg) = 4"
| "worker_rank (Handled i response) = 3"
| "worker_rank (Poked i) = 2"

fun co_rank :: "co_state \<Rightarrow> nat" where
  "co_rank Reading = 1"
| "co_rank Receiving = 3"
| "co_rank Responding = 2"
| "co_rank (Done e) = 0"

definition session_rank :: "('h, 'ch) session \<Rightarrow> nat" where
  "session_rank s =
     8 * length (cn_input (se_conn s)) + co_rank (se_co s) + sum_list (map worker_rank (se_workers s)) +
     length (se_completions s) + (if se_stopped s then 0 else 1)"

lemma read_request_input:
  "read_request c = (c', Inl e) \<Longrightarrow> length (cn_input c') \<le> length (cn_input c)"
  "read_request c = (c', Inr msg) \<Longrightarrow> length (cn_input c') < length (cn_input c)"
  by (auto simp: read_request_def Let_def split: list.splits if_splits)

lemma respond_input:
  "respond env c response = Continue c' \<Longrightarrow> cn_input c' = cn_input c"
  "respond env c response = Finished e c' \<Longrightarrow> cn_input c' = cn_input c"
  by (auto simp: respond_def Let_def split: if_splits option.splits)

lemma rank_update:
  assumes "k < length ws"
  shows "sum_list (map worker_rank ws) =
      sum_list (map worker_rank (take k ws @ drop (Suc k) ws)) + worker_rank (ws ! k)"
    and "sum_list (map worker_rank (ws[k := w])) =
      sum_list (map worker_rank (take k ws @ drop (Suc k) ws)) + worker_rank w"
proof -
  show "sum_list (map worker_rank ws) =
      sum_list (map worker_rank (take k ws @ drop (Suc k) ws)) + worker_rank (ws ! k)"
    using assms by (subst id_take_nth_drop [OF assms]) simp
  show "sum_list (map worker_rank (ws[k := w])) =
      sum_list (map worker_rank (take k ws @ drop (Suc k) ws)) + worker_rank w"
    using assms by (simp add: upd_conv_take_nth_drop)
qed

lemma hs_step_rank:
  assumes "hs_step env lib k s = Valid s'" "k < length (se_workers s)"
  shows "session_rank s' < session_rank s"
proof (cases "se_workers s ! k")
  case (Poked i)
  then show ?thesis
    using assms rank_update(1) [OF assms(2)]
    by (auto simp: hs_step_def Let_def session_rank_def ka_release_lock_def split: option.splits prod.splits)
qed (use assms rank_update [OF assms(2)] in
    \<open>auto simp: hs_step_def Let_def session_rank_def split: option.splits prod.splits\<close>)

lemma co_read_rank:
  assumes "se_co s = Reading"
  shows "session_rank (co_read lib s) < session_rank s"
proof -
  obtain c o' where rd: "read_request (se_conn s) = (c, o')" by fastforce
  show ?thesis
  proof (cases o')
    case (Inl e)
    with rd read_request_input(1) [of "se_conn s" c e] assms show ?thesis
      by (simp add: co_read_def session_rank_def)
  next
    case (Inr msg)
    with rd read_request_input(2) [of "se_conn s" c msg] assms show ?thesis
      by (simp add: co_read_def session_rank_def)
  qed
qed

lemma co_respond_rank:
  assumes "se_co s = Responding"
  shows "session_rank (co_respond env response s) < session_rank s"
proof (cases "respond env (se_conn s) response")
  case (Continue c)
  with respond_input(1) [OF this] assms show ?thesis by (simp add: co_respond_def session_rank_def)
next
  case (Finished e c)
  with respond_input(2) [OF this] assms show ?thesis by (simp add: co_respond_def session_rank_def)
qed

lemma session_step_rank:
  assumes "session_step False env lib s (Valid s')"
  shows "session_rank s' < session_rank s"
  using assms
proof cases
  case reads
  with co_read_rank [of s lib] show ?thesis by simp
next
  case (responds i rq rp)
  with co_respond_rank [of s env "kp_data rp"] show ?thesis by simp
next
  case (works k)
  then show ?thesis using hs_step_rank [of env lib k s s'] by simp
qed (simp_all add: session_rank_def)

section \<open>Properties\<close>



text \<open>
  Deleting the server while Haskell works on a request is not safe, for every request: the
  suspended coroutine is destroyed with its variables, and the thread then reads freed memory.
\<close>

theorem deleted_server_dangles:
  assumes "message_ok msg"
  shows "\<exists>s. session_reach True env lib (new_conn (frame msg @ rest) h) s \<and> session_step True env lib s Dangling"
proof -
  let ?c = "new_conn (frame msg @ rest) h"
  obtain b0 b1 b2 b3 where hd: "frame_header (length msg) = [b0, b1, b2, b3]"
    "sint (readBE (b0, b1, b2, b3)) = int (length msg)"
    using frame_header_read [OF assms] by blast
  define s1 where "s1 = co_read lib (ServerHandler_start ?c)"
  have w: "se_workers s1 = [Forked 1]"
    using hd by (simp add: s1_def co_read_def read_request_def new_conn_def frame_def ServerHandler_start_def)
  have "session_reach True env lib ?c s1"
    unfolding s1_def
    by (rule session_reach.step [OF session_reach.start session_step.reads]) (simp_all add: ServerHandler_start_def)
  from session_reach.step [OF this session_step.deletes]
  have "session_reach True env lib ?c (s1\<lparr>se_stopped := True, se_locals := None, se_completions := []\<rparr>)" by simp
  moreover have "hs_step env lib 0 (s1\<lparr>se_stopped := True, se_locals := None, se_completions := []\<rparr>) = Dangling"
    by (simp add: hs_step_def w locals_of_def)
  ultimately show ?thesis
    using session_step.works [of 0 "s1\<lparr>se_stopped := True, se_locals := None, se_completions := []\<rparr>" True env lib] w
    by (intro exI conjI) (assumption, simp)
qed

text \<open>A channel as a bounded list of messages.\<close>

definition list_channel :: "(nat \<times> (int \<times> bool) list) channel_lib" where
  "list_channel = \<lparr>
     ch_new = (\<lambda>cap. (cap, [])),
     ch_send = (\<lambda>v (cap, q). if length q < cap then Some (0, (cap, q @ [v])) else None),
     ch_receive = (\<lambda>(cap, q). case q of [] \<Rightarrow> None | v # q' \<Rightarrow> Some (v, (cap, q')))\<rparr>"

interpretation list_lock: coro_lock list_channel
  by unfold_locales (simp_all add: list_channel_def)



theorem deleted_server_dangles_witness:
  "message_ok [7] \<and> (\<exists>s. session_reach True echo_env list_channel (new_conn (frame [7] @ []) 0) s \<and>
     session_step True echo_env list_channel s Dangling)"
  using deleted_server_dangles [of "[7]" echo_env list_channel "[]" 0] by simp

end
