(* ===== verification/Kafka_Listener.thy ===== *)
theory Kafka_Listener
  imports Kafka_Server
begin

text \<open>
  The life of a Kafka server: the accept loop with the errors that can end it, the sessions it starts
  with the Haskell contexts they own, and how long \<open>run_kafka_server\<close> runs.
\<close>

section \<open>The accept loop\<close>

text \<open>
  What \<open>async_accept\<close> and the two calls after it can do: give a connection with the address of its peer,
  fail, or give a connection whose peer is gone, for which \<open>remote_endpoint()\<close> throws.
\<close>

datatype accept_event = Accepted string | Accept_failed | Peer_gone

text \<open>\<open>conn_context_t\<close> and a session, which owns the stable pointer Haskell made for it.\<close>

record conn_context =
  cc_peer_host :: string
  cc_peer_host_size :: nat

record 'sp accepted =
  ac_loop :: nat
  ac_context :: conn_context
  ac_sp :: 'sp

datatype accept_state = Accepting | Listener_ended string

text \<open>
  The loop without a \<open>try\<close>: an exception ends the coroutine, and \<open>asio::detached\<close> drops it. \<open>newConnCtx\<close> is
  the \<open>n\<close>-th call of Haskell.
\<close>

fun accept_loop ::
    "(nat \<Rightarrow> conn_context \<Rightarrow> 'sp) \<Rightarrow> accept_event list \<Rightarrow> io_context_pool \<Rightarrow> 'sp accepted list
       \<Rightarrow> accept_state \<times> 'sp accepted list \<times> io_context_pool" where
  "accept_loop newConnCtx [] p ss = (Accepting, ss, p)"
| "accept_loop newConnCtx (ev # evs) p ss =
     (case get_io_context p of
        (i, p) \<Rightarrow>
          (case ev of
             Accepted peer_host \<Rightarrow>
               (let conn_ctx = \<lparr>cc_peer_host = peer_host, cc_peer_host_size = length peer_host\<rparr>;
                    sp = newConnCtx (length ss) conn_ctx
                in accept_loop newConnCtx evs p (ss @ [\<lparr>ac_loop = i, ac_context = conn_ctx, ac_sp = sp\<rparr>]))
           | Accept_failed \<Rightarrow> (Listener_ended ''async_accept'', ss, p)
           | Peer_gone \<Rightarrow> (Listener_ended ''remote_endpoint'', ss, p)))"

text \<open>
  A session keeps a reference to the \<open>callback\<close> parameter of the listener, which lives in the frame of
  that coroutine: what a session reads through it, \<open>None\<close> once the frame is gone.
\<close>

definition callback_ref :: "accept_state \<Rightarrow> 'cb \<Rightarrow> 'cb option" where
  "callback_ref st callback = (case st of Accepting \<Rightarrow> Some callback | Listener_ended _ \<Rightarrow> None)"

section \<open>The end of sessions and of the server\<close>

text \<open>
  A session ends when its coroutine does; the last reference to the \<open>ServerHandler\<close> goes with it. The
  list says in which order the sessions end.
\<close>

definition end_session :: "'sp option list \<Rightarrow> nat \<Rightarrow> 'sp list \<Rightarrow> 'sp option list \<times> 'sp list" where
  "end_session sps i freed =
     (case delete_ServerHandler (sps ! i, freed) of (sp, freed) \<Rightarrow> (sps[i := sp], freed))"

definition end_sessions :: "nat list \<Rightarrow> 'sp option list \<Rightarrow> 'sp option list \<times> 'sp list" where
  "end_sessions order sps = fold (\<lambda>i (sps, freed). end_session sps i freed) order (sps, [])"

text \<open>
  \<open>io_context_pool::run\<close> joins one thread per event loop; the loop of a thread returns when it is stopped
  or has no work left.
\<close>

definition pool_run_returns :: "io_context_pool \<Rightarrow> bool" where
  "pool_run_returns p \<longleftrightarrow>
     (\<forall>i < length (io_contexts_' p). io_contexts_' p ! i \<or> i \<notin> set (work_' p))"

section \<open>Properties\<close>

lemma accept_loop_accepted:
  "accept_loop newConnCtx (map Accepted peers @ evs) p ss =
     (let (is, p') = listener (length peers) p
      in accept_loop newConnCtx evs p'
           (ss @ map (\<lambda>(k, i, h). let cc = \<lparr>cc_peer_host = h, cc_peer_host_size = length h\<rparr>
                        in \<lparr>ac_loop = i, ac_context = cc, ac_sp = newConnCtx k cc\<rparr>)
                  (zip [length ss..<length ss + length peers] (zip is peers))))"
proof (induction peers arbitrary: p ss)
  case (Cons h peers)
  obtain i p1 where g: "get_io_context p = (i, p1)" by fastforce
  obtain is' p2 where l: "listener (length peers) p1 = (is', p2)" by fastforce
  have "[length ss..<length ss + length (h # peers)] = length ss # [Suc (length ss)..<Suc (length ss) + length peers]"
    by (simp add: upt_conv_Cons del: upt_Suc)
  then show ?case
    by (simp add: g l Cons.IH Let_def del: upt_Suc)
qed simp

lemma listener_length: "length (fst (listener n p)) = n"
  by (induction n arbitrary: p) (auto simp: Let_def case_prod_unfold)

text \<open>
  \<^bold>\<open>C31.\<close> The accept loop starts one session for each connection up to the first error, in order and on
  the event loops in turn, and none afterwards: a single failed accept, or a peer that disconnects
  before its address is asked for, leaves a running server that accepts no more connections, and
  leaves the sessions it has with a dangling reference to the Haskell callback.
\<close>

theorem accept_loop_ends_at_first_error:
  assumes "bad \<in> {Accept_failed, Peer_gone}" "0 < length (io_contexts_' p)"
    and "next_io_context_' p < length (io_contexts_' p)"
  shows "\<exists>st ss p'. accept_loop newConnCtx (map Accepted peers @ bad # evs) p [] = (st, ss, p') \<and>
    st \<noteq> Accepting \<and> callback_ref st callback = None \<and>
    map (cc_peer_host \<circ> ac_context) ss = peers \<and>
    map ac_loop ss = map (\<lambda>k. (next_io_context_' p + k) mod length (io_contexts_' p)) [0..<length peers] \<and>
    (\<forall>k < length peers. ac_sp (ss ! k) = newConnCtx k (ac_context (ss ! k)))"
proof -
  obtain is' p1 where l: "listener (length peers) p = (is', p1)" by fastforce
  have len: "length is' = length peers" using listener_length [of "length peers" p] l by simp
  have rr: "is' = map (\<lambda>k. (next_io_context_' p + k) mod length (io_contexts_' p)) [0..<length peers]"
    using listener_round_robin [OF assms(3), of "length peers"] l by simp
  define ss where "ss = map (\<lambda>(k, i, h). let cc = \<lparr>cc_peer_host = h, cc_peer_host_size = length h\<rparr>
      in \<lparr>ac_loop = i, ac_context = cc, ac_sp = newConnCtx k cc\<rparr>) (zip [0..<length peers] (zip is' peers))"
  have run: "accept_loop newConnCtx (map Accepted peers @ bad # evs) p [] = accept_loop newConnCtx (bad # evs) p1 ss"
    using l by (simp add: accept_loop_accepted ss_def)
  obtain i p2 where g: "get_io_context p1 = (i, p2)" by fastforce
  have "\<exists>st. accept_loop newConnCtx (bad # evs) p1 ss = (st, ss, p2) \<and> st \<noteq> Accepting \<and> callback_ref st callback = None"
    using assms(1) g by (auto simp: callback_ref_def)
  moreover have "map (cc_peer_host \<circ> ac_context) ss = peers"
    using len by (intro nth_equalityI) (simp_all add: ss_def Let_def)
  moreover have "map ac_loop ss = is'"
    using len by (intro nth_equalityI) (simp_all add: ss_def Let_def)
  moreover have "\<forall>k < length peers. ac_sp (ss ! k) = newConnCtx k (ac_context (ss ! k))"
    using len by (simp add: ss_def Let_def)
  ultimately show ?thesis using run rr by auto
qed

theorem accept_loop_ends_at_first_error_witness:
  "\<exists>st ss p'. accept_loop (\<lambda>k c. k) (map Accepted [''a'', ''b''] @ Peer_gone # [Accepted ''c''])
       \<lparr>io_contexts_' = [False], work_' = [0], next_io_context_' = 0\<rparr> [] = (st, ss, p') \<and>
     st \<noteq> Accepting \<and> callback_ref st True = None \<and> map (cc_peer_host \<circ> ac_context) ss = [''a'', ''b'']"
  using accept_loop_ends_at_first_error [of Peer_gone "\<lparr>io_contexts_' = [False], work_' = [0], next_io_context_' = 0\<rparr>"
      "\<lambda>k c. k" "[''a'', ''b'']" "[Accepted ''c'']" True]
  by auto

text \<open>
  Stable pointers: whichever sessions end, in whatever order, each gives its pointer back once, and a
  session that ends is never left with a pointer.
\<close>

lemma end_sessions_step:
  assumes "i < length sps"
  shows "end_sessions (order @ [i]) sps =
    (let (sps', freed) = end_sessions order sps
     in (sps'[i := None], freed @ (case sps' ! i of None \<Rightarrow> [] | Some sp \<Rightarrow> [sp])))"
  by (auto simp: end_sessions_def end_session_def delete_ServerHandler_def case_prod_unfold Let_def
      split: option.split)

theorem stable_pointers_freed_once:
  assumes "distinct order" "set order \<subseteq> {..<length sps}"
  shows "end_sessions order (map Some sps) =
    (map (\<lambda>i. if i \<in> set order then None else Some (sps ! i)) [0..<length sps], map ((!) sps) order)"
  using assms
proof (induction order rule: rev_induct)
  case Nil
  have "map Some sps = map (\<lambda>i. Some (sps ! i)) [0..<length sps]"
    by (intro nth_equalityI) simp_all
  then show ?case by (simp add: end_sessions_def)
next
  case (snoc i order)
  then have i: "i < length sps" "i \<notin> set order" by auto
  let ?old = "map (\<lambda>j. if j \<in> set order then None else Some (sps ! j)) [0..<length sps]"
  have "?old[i := None] = map (\<lambda>j. if j \<in> set (order @ [i]) then None else Some (sps ! j)) [0..<length sps]"
    using i by (intro nth_equalityI) (auto simp: nth_list_update)
  then show ?case
    using snoc i end_sessions_step [of i "map Some sps" order] by (simp add: Let_def)
qed

text \<open>A new server runs until it is stopped, and then returns.\<close>

theorem server_runs_until_stopped:
  assumes "new_kafka_server n = Inr p" "run_kafka_server p fd k = (r, p')"
  shows "\<not> pool_run_returns p' \<and> pool_run_returns (stop_kafka_server p')"
proof -
  have p: "0 < n" "p = \<lparr>io_contexts_' = replicate n False, work_' = [0..<n], next_io_context_' = 0\<rparr>"
    using assms(1) by (auto simp: new_kafka_server_def new_io_context_pool_def split: if_splits)
  have keep: "io_contexts_' (snd (get_io_context q)) = io_contexts_' q \<and> work_' (snd (get_io_context q)) = work_' q" for q
    by (simp add: get_io_context_def Let_def)
  have l: "io_contexts_' (snd (listener m q)) = io_contexts_' q \<and> work_' (snd (listener m q)) = work_' q" for m q
    by (induction m arbitrary: q) (auto simp: Let_def case_prod_unfold keep)
  have "io_contexts_' p' = io_contexts_' p \<and> work_' p' = work_' p"
    using assms(2) l keep by (auto simp: run_kafka_server_def Let_def case_prod_unfold)
  then have same: "io_contexts_' p' = replicate n False" "work_' p' = [0..<n]"
    using p by simp_all
  have "\<not> pool_run_returns p'"
    unfolding pool_run_returns_def same using p(1) by force
  moreover have "pool_run_returns (stop_kafka_server p')"
    by (simp add: pool_run_returns_def stop_kafka_server_def pool_stop_def same)
  ultimately show ?thesis ..
qed

end
