(* ===== verification/Kafka_Client.thy ===== *)
theory Kafka_Client
  imports HS_Prelude "HOL-Library.Multiset"
begin

text \<open>
  The Kafka client behind the command line tools, \<open>hstream-kafka/cbits/hs_kafka_client.cpp\<close>: creating
  producers and consumers, producing with retries, and the consumer loop with its callbacks, which
  communicate through static variables.

  librdkafka is a parameter: the outcome of each call, and for each poll the callbacks it runs and
  the message it returns. Counters are integers, since their overflow is undefined in C++. Output on
  standard output is modelled, the diagnostics on standard error and the clock are not.
\<close>

section \<open>Creating clients\<close>

text \<open>Objects on the C++ heap; \<open>live\<close> lists those not deleted when a function returns.\<close>

datatype kobject = Conf | Dr_cb | Rebalance_cb | Event_cb | Producer | Consumer

datatype 'a created = Created 'a | Null

text \<open>
  \<open>CONF_SET\<close> in sequence: each step first allocates its callback object, if it has one, and
  returns from the function when the property is refused.
\<close>

fun conf_set_all ::
    "(string \<Rightarrow> string \<Rightarrow> bool) \<Rightarrow> (string \<times> string \<times> kobject option) list \<Rightarrow> kobject list \<Rightarrow>
     kobject list + kobject list" where
  "conf_set_all set_ok [] live = Inr live"
| "conf_set_all set_ok ((key, val, obj) # steps) live =
     (let live = (case obj of None \<Rightarrow> live | Some ob \<Rightarrow> live @ [ob])
      in if set_ok key val then conf_set_all set_ok steps live else Inl live)"

definition producer_conf :: "string \<Rightarrow> (string \<times> string \<times> kobject option) list" where
  "producer_conf brokers = [(''bootstrap.servers'', brokers, None), (''dr_cb'', '''', Some Dr_cb)]"

definition hs_new_producer ::
    "(string \<Rightarrow> string \<Rightarrow> bool) \<Rightarrow> bool \<Rightarrow> string \<Rightarrow> kobject list created \<times> kobject list" where
  "hs_new_producer set_ok create_ok brokers =
     (case conf_set_all set_ok (producer_conf brokers) [Conf] of
        Inl live \<Rightarrow> (Null, live)
      | Inr live \<Rightarrow>
          if \<not> create_ok then (Null, live)
          else (Created [Dr_cb, Producer], remove1 Conf (live @ [Producer])))"

text \<open>\<open>HsProducer\<close> and \<open>HsConsumer\<close> own their parts; the destructor deletes them.\<close>

definition hs_delete_producer :: "kobject list \<Rightarrow> kobject list \<Rightarrow> kobject list" where
  "hs_delete_producer p live = fold remove1 [Producer, Dr_cb] live"

definition consumer_conf :: "string \<Rightarrow> string \<Rightarrow> string \<Rightarrow> bool \<Rightarrow> (string \<times> string \<times> kobject option) list" where
  "consumer_conf brokers group_id offset_reset auto_commit =
     [(''rebalance_cb'', '''', Some Rebalance_cb),
      (''enable.partition.eof'', ''true'', None),
      (''group.id'', group_id, None),
      (''auto.offset.reset'', offset_reset, None),
      (''enable.auto.commit'', if auto_commit then ''true'' else ''false'', None),
      (''isolation.level'', ''read_uncommitted'', None),
      (''metadata.broker.list'', brokers, None),
      (''event_cb'', '''', Some Event_cb)]"

section \<open>The consumer's static variables\<close>

record consumer_state =
  run :: bool
  consumer_exit_eof :: bool
  consumer_eof_cnt :: int
  consumer_partition_cnt :: int
  consumer_msg_cnt :: int
  consumer_msg_bytes :: int
  stdout :: "string list"

definition initial_consumer_state :: consumer_state where
  "initial_consumer_state =
     \<lparr>run = True, consumer_exit_eof = False, consumer_eof_cnt = 0, consumer_partition_cnt = 0,
      consumer_msg_cnt = 0, consumer_msg_bytes = 0, stdout = []\<rparr>"

definition hs_new_consumer ::
    "(string \<Rightarrow> string \<Rightarrow> bool) \<Rightarrow> bool \<Rightarrow> string \<Rightarrow> string \<Rightarrow> string \<Rightarrow> bool \<Rightarrow> bool \<Rightarrow> consumer_state \<Rightarrow>
     kobject list created \<times> kobject list \<times> consumer_state" where
  "hs_new_consumer set_ok create_ok brokers group_id offset_reset exit_eof auto_commit st =
     (let st = st\<lparr>consumer_exit_eof := exit_eof\<rparr>
      in case conf_set_all set_ok (consumer_conf brokers group_id offset_reset auto_commit) [Conf] of
           Inl live \<Rightarrow> (Null, live, st)
         | Inr live \<Rightarrow>
             if \<not> create_ok then (Null, live, st)
             else (Created [Rebalance_cb, Event_cb, Consumer],
                   remove1 Conf (live @ [Consumer]), st))"

section \<open>Callbacks\<close>

definition sigterm :: "consumer_state \<Rightarrow> consumer_state" where
  "sigterm st = st\<lparr>run := False\<rparr>"

datatype kevent = EVENT_ERROR bool | EVENT_STATS | EVENT_LOG | EVENT_THROTTLE | EVENT_OTHER

definition event_cb :: "kevent \<Rightarrow> consumer_state \<Rightarrow> consumer_state" where
  "event_cb ev st =
     (case ev of EVENT_ERROR fatal \<Rightarrow> if fatal then st\<lparr>run := False\<rparr> else st | _ \<Rightarrow> st)"

text \<open>\<open>err\<close> is whether it is \<open>ERR__ASSIGN_PARTITIONS\<close>; a failing assignment is only printed.\<close>

definition rebalance_cb :: "bool \<Rightarrow> bool \<Rightarrow> nat \<Rightarrow> consumer_state \<Rightarrow> consumer_state" where
  "rebalance_cb assign cooperative partitions st =
     (let st =
        (if assign then
           st\<lparr>consumer_partition_cnt := consumer_partition_cnt st + int partitions\<rparr>
         else if cooperative then
           st\<lparr>consumer_partition_cnt := consumer_partition_cnt st - int partitions\<rparr>
         else st\<lparr>consumer_partition_cnt := 0\<rparr>)
      in st\<lparr>consumer_eof_cnt := 0\<rparr>)"

record kmessage =
  km_payload :: string
  km_key :: "string option"
  km_create_time :: "int option"   \<comment> \<open>the timestamp, when it is a create time\<close>

datatype kpoll =
    ERR__TIMED_OUT
  | ERR_NO_ERROR kmessage
  | ERR__PARTITION_EOF int         \<comment> \<open>the partition\<close>
  | ERR__UNKNOWN_TOPIC
  | ERR__UNKNOWN_PARTITION
  | ERR_OTHER

text \<open>\<open>std::left << std::setw(n) << std::setfill(' ')\<close>\<close>

definition setw_left :: "nat \<Rightarrow> string \<Rightarrow> string" where
  "setw_left n s = s @ replicate (n - length s) CHR 0x20"

definition message_line :: "bool \<Rightarrow> kmessage \<Rightarrow> string" where
  "message_line verbose m =
     (if verbose then
        ''CreateTimestamp: '' @
        setw_left 15 (case km_create_time m of Some t \<Rightarrow> to_string t | None \<Rightarrow> '''') @ '' '' @
        ''Key: '' @
        setw_left 20 (case km_key m of Some k \<Rightarrow> k | None \<Rightarrow> '''') @ '' ''
      else '''') @ km_payload m"

definition msg_consume :: "bool \<Rightarrow> kpoll \<Rightarrow> consumer_state \<Rightarrow> consumer_state" where
  "msg_consume verbose p st =
     (case p of
        ERR__TIMED_OUT \<Rightarrow> st
      | ERR_NO_ERROR m \<Rightarrow>
          st\<lparr>consumer_msg_cnt := consumer_msg_cnt st + 1,
             consumer_msg_bytes := consumer_msg_bytes st + int (length (km_payload m)),
             stdout := stdout st @ [message_line verbose m]\<rparr>
      | ERR__PARTITION_EOF part \<Rightarrow>
          if consumer_exit_eof st then
            (let st = st\<lparr>consumer_eof_cnt := consumer_eof_cnt st + 1\<rparr>
             in if consumer_eof_cnt st = consumer_partition_cnt st then st\<lparr>run := False\<rparr> else st)
          else st
      | ERR__UNKNOWN_TOPIC \<Rightarrow> st\<lparr>run := False\<rparr>
      | ERR__UNKNOWN_PARTITION \<Rightarrow> st\<lparr>run := False\<rparr>
      | ERR_OTHER \<Rightarrow> st\<lparr>run := False\<rparr>)"

section \<open>The consumer loop\<close>

datatype callback = Rebalance bool bool nat | Event kevent | Sigterm

definition run_callback :: "callback \<Rightarrow> consumer_state \<Rightarrow> consumer_state" where
  "run_callback c =
     (case c of
        Rebalance assign cooperative n \<Rightarrow> rebalance_cb assign cooperative n
      | Event ev \<Rightarrow> event_cb ev
      | Sigterm \<Rightarrow> sigterm)"

text \<open>
  One poll runs callbacks and returns a message. The polls are given as a list; the loop has no
  result when the list ends before it stops.
\<close>

fun consume_loop ::
    "bool \<Rightarrow> (callback list \<times> kpoll) list \<Rightarrow> consumer_state \<Rightarrow> consumer_state option" where
  "consume_loop verbose [] st = (if run st then None else Some st)"
| "consume_loop verbose ((cbs, p) # polls) st =
     (if run st then consume_loop verbose polls (msg_consume verbose p (fold run_callback cbs st))
      else Some st)"

text \<open>Subscribing may fail; closing the consumer at the end runs callbacks again.\<close>

definition hs_consumer_consume ::
    "bool \<Rightarrow> bool \<Rightarrow> (callback list \<times> kpoll) list \<Rightarrow> callback list \<Rightarrow> consumer_state \<Rightarrow>
     (int \<times> consumer_state) option" where
  "hs_consumer_consume subscribe_ok verbose polls close_cbs st =
     (if \<not> subscribe_ok then Some (1, st)
      else map_option (\<lambda>st. (0, fold run_callback close_cbs st)) (consume_loop verbose polls st))"

section \<open>Producing\<close>

record produce_call =
  pc_topic :: string
  pc_partition :: int
  pc_value :: "string option"
  pc_key :: "string option"

datatype produce_err = PRODUCE_OK | QUEUE_FULL | PRODUCE_ERR string

text \<open>
  The retry loop over the outcomes of the calls of \<open>produce\<close>: the status, the error text and the
  timeouts of the calls of \<open>poll\<close>. No result when the queue stays full for all outcomes given.
\<close>

fun produce_loop :: "produce_err list \<Rightarrow> (int \<times> string option \<times> nat list) option" where
  "produce_loop [] = None"
| "produce_loop (e # es) =
     (case e of
        PRODUCE_OK \<Rightarrow> Some (0, None, [0])
      | QUEUE_FULL \<Rightarrow> map_option (\<lambda>(rc, err, polls). (rc, err, 1000 # polls)) (produce_loop es)
      | PRODUCE_ERR msg \<Rightarrow> Some (1, Some msg, []))"

definition produce_args :: "string \<Rightarrow> int \<Rightarrow> string \<Rightarrow> string \<Rightarrow> produce_call" where
  "produce_args topic partition_' payload key =
     \<lparr>pc_topic = topic, pc_partition = (if partition_' < 0 then -1 else partition_'),
      pc_value = (if payload = [] then None else Some payload),
      pc_key = (if key = [] then None else Some key)\<rparr>"

definition hs_producer_produce ::
    "(produce_call \<Rightarrow> produce_err list) \<Rightarrow> string \<Rightarrow> int \<Rightarrow> string \<Rightarrow> string \<Rightarrow>
     (int \<times> string option \<times> nat list) option" where
  "hs_producer_produce outcomes topic partition_' payload key =
     produce_loop (outcomes (produce_args topic partition_' payload key))"

definition hs_producer_flush :: "nat \<Rightarrow> string option" where
  "hs_producer_flush outq_len =
     (if outq_len > 0 then Some (to_string (int outq_len) @ '' message(s) were not delivered'')
      else None)"

section \<open>When consuming stops\<close>

fun quiet :: "kpoll \<Rightarrow> bool" where
  "quiet ERR__TIMED_OUT = True"
| "quiet (ERR_NO_ERROR _) = True"
| "quiet (ERR__PARTITION_EOF _) = True"
| "quiet _ = False"

fun eofs :: "kpoll list \<Rightarrow> nat" where
  "eofs [] = 0"
| "eofs (ERR__PARTITION_EOF _ # ps) = Suc (eofs ps)"
| "eofs (_ # ps) = eofs ps"

fun messages :: "kpoll list \<Rightarrow> kmessage list" where
  "messages [] = []"
| "messages (ERR_NO_ERROR m # ps) = m # messages ps"
| "messages (_ # ps) = messages ps"

definition received :: "bool \<Rightarrow> kmessage list \<Rightarrow> consumer_state \<Rightarrow> consumer_state" where
  "received verbose ms st =
     st\<lparr>consumer_msg_cnt := consumer_msg_cnt st + int (length ms),
        consumer_msg_bytes := consumer_msg_bytes st + (\<Sum>m \<leftarrow> ms. int (length (km_payload m))),
        stdout := stdout st @ map (message_line verbose) ms\<rparr>"

lemma received_Nil [simp]: "received verbose [] st = st"
  by (simp add: received_def)

lemma consume_quiet:
  assumes "list_all quiet ps" "run st" "consumer_exit_eof st"
    and "consumer_eof_cnt st + int (eofs ps) < consumer_partition_cnt st"
  shows "consume_loop verbose (map (Pair []) ps @ rest) st =
    consume_loop verbose rest
      (received verbose (messages ps) (st\<lparr>consumer_eof_cnt := consumer_eof_cnt st + int (eofs ps)\<rparr>))"
  using assms
proof (induction ps arbitrary: st)
  case Nil
  then show ?case by simp
next
  case (Cons p ps)
  show ?case
  proof (cases p)
    case ERR__TIMED_OUT
    with Cons show ?thesis by (simp add: msg_consume_def)
  next
    case (ERR_NO_ERROR m)
    with Cons show ?thesis by (simp add: msg_consume_def received_def algebra_simps)
  next
    case (ERR__PARTITION_EOF k)
    with Cons show ?thesis by (simp add: msg_consume_def algebra_simps)
  qed (use Cons.prems in simp_all)
qed

text \<open>
  \<^bold>\<open>C35.\<close> A consumer told to exit at the end stops exactly at the \<open>n\<close>-th end-of-partition event after
  it was assigned \<open>n > 0\<close> partitions, whichever partitions the events are for; by then it has
  printed and counted every message before that event, in order, and it reads nothing after it.
\<close>

theorem consumer_stops_at_eof:
  assumes "run st" "consumer_exit_eof st" "consumer_partition_cnt st = 0"
    and "list_all quiet ps" "Suc (eofs ps) = n"
  shows "hs_consumer_consume True verbose
      (([Rebalance True cooperative n], ERR__TIMED_OUT) #
       map (Pair []) ps @ ([], ERR__PARTITION_EOF k) # rest) [] st =
    Some (0, received verbose (messages ps)
      (st\<lparr>run := False, consumer_partition_cnt := int n, consumer_eof_cnt := int n\<rparr>))"
proof -
  let ?st = "st\<lparr>consumer_partition_cnt := int n, consumer_eof_cnt := 0\<rparr>"
  let ?st' = "received verbose (messages ps) (?st\<lparr>consumer_eof_cnt := int (eofs ps)\<rparr>)"
  have "consume_loop verbose (map (Pair []) ps @ ([], ERR__PARTITION_EOF k) # rest) ?st =
      consume_loop verbose (([], ERR__PARTITION_EOF k) # rest) ?st'"
    using consume_quiet [OF assms(4), of ?st verbose] assms by simp
  also have "\<dots> = Some (received verbose (messages ps)
      (st\<lparr>run := False, consumer_partition_cnt := int n, consumer_eof_cnt := int n\<rparr>))"
    using assms by (cases rest) (auto simp: received_def msg_consume_def)
  finally show ?thesis
    using assms(1,3)
    by (simp add: hs_consumer_consume_def run_callback_def rebalance_cb_def msg_consume_def Let_def)
qed

text \<open>Two partitions, two end events of the same partition.\<close>

theorem consumer_stops_at_eof_witness:
  "\<exists>st. hs_consumer_consume True False
       (([Rebalance True False 2], ERR__TIMED_OUT) #
        map (Pair []) [ERR__PARTITION_EOF 0,
          ERR_NO_ERROR \<lparr>km_payload = ''a'', km_key = None, km_create_time = None\<rparr>] @
        ([], ERR__PARTITION_EOF 0) #
        [([], ERR_NO_ERROR \<lparr>km_payload = ''b'', km_key = None, km_create_time = None\<rparr>)]) []
       (initial_consumer_state\<lparr>consumer_exit_eof := True\<rparr>) = Some (0, st) \<and>
     stdout st = [''a''] \<and> consumer_msg_cnt st = 1"
  by (subst consumer_stops_at_eof)
    (simp_all add: initial_consumer_state_def received_def message_line_def)

section \<open>Retries\<close>

lemma produce_loop_full: "produce_loop (replicate k QUEUE_FULL @ es) =
    map_option (\<lambda>(rc, err, polls). (rc, err, replicate k 1000 @ polls)) (produce_loop es)"
  by (induction k) (auto simp: option.map_comp comp_def case_prod_unfold option.map_ident)

lemma full_prefix:
  "(\<exists>e \<in> set es. e \<noteq> QUEUE_FULL) \<Longrightarrow>
     \<exists>k e es'. es = replicate k QUEUE_FULL @ e # es' \<and> e \<noteq> QUEUE_FULL"
proof (induction es)
  case (Cons x es)
  show ?case
  proof (cases "x = QUEUE_FULL")
    case True
    then obtain k e es' where "es = replicate k QUEUE_FULL @ e # es'" "e \<noteq> QUEUE_FULL"
      using Cons by auto
    with True have "x # es = replicate (Suc k) QUEUE_FULL @ e # es' \<and> e \<noteq> QUEUE_FULL" by simp
    then show ?thesis by blast
  next
    case False
    then show ?thesis by (intro exI [of _ 0]) auto
  qed
qed simp



section \<open>Objects left behind\<close>

lemma conf_set_all_live:
  "conf_set_all set_ok steps live = Inr live' \<Longrightarrow>
     live' = live @ concat (map (\<lambda>(key, val, obj). case obj of None \<Rightarrow> [] | Some ob \<Rightarrow> [ob]) steps)"
  by (induction set_ok steps live rule: conf_set_all.induct)
    (auto simp: Let_def split: option.splits if_splits)

lemma conf_set_all_failed: "conf_set_all set_ok steps live = Inl live' \<Longrightarrow> set live \<subseteq> set live'"
  by (induction set_ok steps live rule: conf_set_all.induct)
    (auto simp: Let_def split: option.splits if_splits)

text \<open>
  A producer or consumer that is created owns everything left on the heap, and deleting the
  producer leaves nothing; but whenever creation fails, at whichever step, the configuration object
  is never deleted.
\<close>

theorem failed_creation_leaks_conf:
  "(case hs_new_producer set_ok create_ok brokers of
      (Created p, live) \<Rightarrow> mset live = mset p \<and> hs_delete_producer p live = []
    | (Null, live) \<Rightarrow> Conf \<in> set live) \<and>
   (case hs_new_consumer set_ok create_ok brokers group_id offset_reset exit_eof auto_commit st of
      (Created c, live, st') \<Rightarrow> mset live = mset c
    | (Null, live, st') \<Rightarrow> Conf \<in> set live)"
proof -
  have "case hs_new_producer set_ok create_ok brokers of
      (Created p, live) \<Rightarrow> mset live = mset p \<and> hs_delete_producer p live = []
    | (Null, live) \<Rightarrow> Conf \<in> set live"
  proof (cases "conf_set_all set_ok (producer_conf brokers) [Conf]")
    case (Inl live)
    with conf_set_all_failed [OF Inl] show ?thesis by (simp add: hs_new_producer_def)
  next
    case (Inr live)
    with conf_set_all_live [OF Inr] show ?thesis
      by (simp add: hs_new_producer_def hs_delete_producer_def producer_conf_def)
  qed
  moreover have "case hs_new_consumer set_ok create_ok brokers group_id offset_reset exit_eof
        auto_commit st of
      (Created c, live, st') \<Rightarrow> mset live = mset c
    | (Null, live, st') \<Rightarrow> Conf \<in> set live"
  proof (cases "conf_set_all set_ok (consumer_conf brokers group_id offset_reset auto_commit) [Conf]")
    case (Inl live)
    with conf_set_all_failed [OF Inl] show ?thesis by (simp add: hs_new_consumer_def)
  next
    case (Inr live)
    have "live = [Conf, Rebalance_cb, Event_cb]"
      using conf_set_all_live [OF Inr] by (simp add: consumer_conf_def)
    with Inr show ?thesis by (simp add: hs_new_consumer_def Let_def)
  qed
  ultimately show ?thesis by blast
qed

end
