(* ===== verification/Fatal_Signal.thy ===== *)
theory Fatal_Signal
  imports HS_Prelude "HOL-Library.Multiset"
begin

text \<open>
  The handler of fatal signals, \<open>common/base/cbits/fatalsignal.cpp\<close>: before the process dumps core it
  unmaps the memory of the RocksDB caches. It collects one page-aligned segment per cache entry,
  sorts them, merges overlapping ones and unmaps the result, printing numbers without allocating.

  The cache entries, the result of \<open>mmap\<close> and the order in which \<open>std::sort\<close> leaves segments of
  equal start are parameters. System calls are recorded as a list of actions.
\<close>

unbundle bit_operations_syntax

section \<open>Segments\<close>

record Segment =
  seg_start :: u64
  seg_end :: u64

definition PAGE_SHIFT :: nat where "PAGE_SHIFT = 12"

definition PAGE_SIZE :: u64 where "PAGE_SIZE = push_bit 12 1"

definition PAGE_MASK :: u64 where "PAGE_MASK = NOT (push_bit PAGE_SHIFT 1 - 1)"

text \<open>One gigabyte of two 64-bit words each.\<close>

definition max_num_segs :: nat where "max_num_segs = 1024 * 1024 * 1024 div 16"

text \<open>The array up to \<open>s_index\<close> is a list.\<close>

definition unmap_callback :: "u64 \<times> u64 \<Rightarrow> Segment list \<Rightarrow> Segment list" where
  "unmap_callback ec sarray =
     (case ec of
        (entry, charge) \<Rightarrow>
          if length sarray \<ge> max_num_segs then sarray
          else sarray @ [\<lparr>seg_start = entry AND PAGE_MASK,
                          seg_end = (entry + charge + PAGE_SIZE - 1) AND PAGE_MASK\<rparr>])"

text \<open>The merge loop: the calls of \<open>munmap\<close>, as start and length.\<close>

fun merge_segments :: "u64 \<Rightarrow> u64 \<Rightarrow> Segment list \<Rightarrow> (u64 \<times> u64) list" where
  "merge_segments cur_start cur_end [] = [(cur_start, cur_end - cur_start)]"
| "merge_segments cur_start cur_end (s # ss) =
     (if seg_start s > cur_end
      then (cur_start, cur_end - cur_start) # merge_segments (seg_start s) (seg_end s) ss
      else merge_segments cur_start (max cur_end (seg_end s)) ss)"

section \<open>Printing\<close>

text \<open>The digits, least significant first, appended to the buffer.\<close>

function digit_loop :: "u64 \<Rightarrow> string \<Rightarrow> string" where
  "digit_loop num buf =
     (if num = 0 then buf
      else digit_loop (num div 10) (buf @ [char_of (unat (num mod 10) + 48)]))"
  by pat_completeness auto

termination
  by (relation "measure (unat \<circ> fst)") (auto simp: unat_div unat_gt_0)

declare digit_loop.simps [simp del]

fun reverse_loop :: "nat \<Rightarrow> nat \<Rightarrow> string \<Rightarrow> string" where
  "reverse_loop j k buf =
     (if j < k then reverse_loop (Suc j) (k - 1) (buf[j := buf ! k, k := buf ! j]) else buf)"

declare reverse_loop.simps [simp del]

definition safe_print_unsigned :: "u64 \<Rightarrow> string" where
  "safe_print_unsigned num =
     (if num = 0 then ''0''
      else let buf = digit_loop num [] in reverse_loop 0 (length buf - 1) buf)"

section \<open>The handler\<close>

datatype fatal_action =
    Print string
  | Print_stack_trace
  | Munmap u64 u64
  | Munmap_array
  | Pause
  | Raise_SIGTRAP
  | Exit_failure

record fatal_state =
  insegv :: "nat option"        \<comment> \<open>the thread in the handler\<close>
  unmap_count :: nat
  page_count :: nat

definition collect_segments :: "(u64 \<times> u64) list option list \<Rightarrow> Segment list" where
  "collect_segments caches =
     fold (\<lambda>cache sarray. case cache of None \<Rightarrow> sarray | Some es \<Rightarrow> fold unmap_callback es sarray)
       caches []"

definition handle_fatal_signal ::
    "(Segment list \<Rightarrow> Segment list) \<Rightarrow> bool \<Rightarrow> (u64 \<times> u64) list option list \<Rightarrow> nat \<Rightarrow> u64 \<Rightarrow>
     fatal_state \<Rightarrow> fatal_action list \<times> fatal_state" where
  "handle_fatal_signal std_sort mmap_ok caches self sig st =
     (case insegv st of
        Some old_val \<Rightarrow>
          if self \<noteq> old_val then ([Pause, Exit_failure], st) else ([Raise_SIGTRAP, Exit_failure], st)
      | None \<Rightarrow>
          (let st = st\<lparr>insegv := Some self\<rparr>;
               intro = [Print ''handle_fatal_signal(): Caught coredump signal '',
                        Print (safe_print_unsigned sig), Print [CHR 0x0A], Print_stack_trace]
           in if \<not> mmap_ok then
                (intro @ [Print (''handle_fatal_signal(): allocate seg array failed.'' @ [CHR 0x0A]),
                          Raise_SIGTRAP, Exit_failure], st)
              else
                (case std_sort (collect_segments caches) of
                   [] \<Rightarrow> (intro @ [Munmap_array, Raise_SIGTRAP], st)
                 | s # ss \<Rightarrow>
                     (let calls = merge_segments (seg_start s) (seg_end s) ss;
                          st = st\<lparr>unmap_count := unmap_count st + length calls,
                                  page_count := page_count st +
                                    (\<Sum>(a, len) \<leftarrow> calls. unat (drop_bit PAGE_SHIFT len))\<rparr>
                      in (intro @
                          [Print ''handle_fatal_signal(): processed segments: '',
                           Print (safe_print_unsigned (of_nat (Suc (length ss)))),
                           Print [CHR 0x0A]] @
                          map (\<lambda>(a, len). Munmap a len) calls @
                          [Print ''handle_fatal_signal(): unmapped pages - unmap calls: '',
                           Print (safe_print_unsigned (of_nat (page_count st))),
                           Print '' - '',
                           Print (safe_print_unsigned (of_nat (unmap_count st))),
                           Print [CHR 0x0A], Munmap_array, Raise_SIGTRAP], st)))))"

definition setup_signal_handler :: "bool \<Rightarrow> int \<Rightarrow> int list \<Rightarrow> int list result" where
  "setup_signal_handler sigaction_ok signum installed =
     (if sigaction_ok then Inr (installed @ [signum]) else Inl LdCheck)"

text \<open>\<open>SIGSEGV, SIGABRT, SIGBUS, SIGQUIT, SIGILL, SIGFPE\<close> with their Linux numbers.\<close>

definition setup_fatal_signal_handler :: "(int \<Rightarrow> bool) \<Rightarrow> int list result" where
  "setup_fatal_signal_handler sigaction_ok =
     fold_result (\<lambda>signum. setup_signal_handler (sigaction_ok signum) signum) [11, 6, 7, 3, 4, 8] []"

section \<open>Printed numbers\<close>

lemma digit_loop_decimal:
  "num \<noteq> 0 \<Longrightarrow> digit_loop num buf = buf @ rev (decimal (unat num))"
proof (induction num buf rule: digit_loop.induct)
  case (1 num buf)
  have d: "unat (num div 10) = unat num div 10" "unat (num mod 10) = unat num mod 10"
    by (simp_all add: unat_div unat_mod)
  have step: "digit_loop num buf =
      digit_loop (num div 10) (buf @ [char_of (unat num mod 10 + 48)])"
    using 1(2) by (simp add: digit_loop.simps [of num buf] d)
  show ?case
  proof (cases "num div 10 = 0")
    case True
    then have "unat num < 10" using d(1) by (metis div_eq_0_iff unat_0 zero_neq_numeral)
    then show ?thesis
      unfolding step using True
      by (simp add: digit_loop.simps [of 0] decimal.simps [of "unat num"] add.commute)
  next
    case False
    then have "unat num div 10 \<noteq> 0" using d(1) by (metis unat_eq_zero)
    then have "\<not> unat num < 10" by simp
    then show ?thesis
      unfolding step using 1(1) [OF 1(2) False] d
      by (simp add: decimal.simps [of "unat num"] add.commute)
  qed
qed

lemma reverse_loop_nth:
  "k < length buf \<Longrightarrow>
     length (reverse_loop j k buf) = length buf \<and>
     (\<forall>i < length buf. reverse_loop j k buf ! i =
        (if j \<le> i \<and> i \<le> k then buf ! (j + k - i) else buf ! i))"
proof (induction j k buf rule: reverse_loop.induct)
  case (1 j k buf)
  show ?case
  proof (cases "j < k")
    case True
    let ?buf = "buf[j := buf ! k, k := buf ! j]"
    have ih: "length (reverse_loop (Suc j) (k - 1) ?buf) = length buf"
      "\<And>i. i < length buf \<Longrightarrow> reverse_loop (Suc j) (k - 1) ?buf ! i =
        (if Suc j \<le> i \<and> i \<le> k - 1 then ?buf ! (Suc j + (k - 1) - i) else ?buf ! i)"
      using 1(1) [OF True] 1(2) by simp_all
    have "(if Suc j \<le> i \<and> i \<le> k - 1 then ?buf ! (Suc j + (k - 1) - i) else ?buf ! i) =
        (if j \<le> i \<and> i \<le> k then buf ! (j + k - i) else buf ! i)" if "i < length buf" for i
      using that True 1(2) by (auto simp: nth_list_update)
    with ih show ?thesis by (simp add: reverse_loop.simps [of j k buf] True)
  next
    case False
    then show ?thesis by (auto simp: reverse_loop.simps [of j k buf] dest: le_antisym)
  qed
qed

lemma reverse_loop_rev: "buf \<noteq> [] \<Longrightarrow> reverse_loop 0 (length buf - 1) buf = rev buf"
  using reverse_loop_nth [of "length buf - 1" buf 0]
  by (intro nth_equalityI) (auto simp: rev_nth)

lemma decimal_length: "n < 10 ^ k \<Longrightarrow> length (decimal n) \<le> max 1 k"
proof (induction k arbitrary: n)
  case 0
  then show ?case by (simp add: decimal.simps [of 0])
next
  case (Suc k)
  show ?case
  proof (cases "n < 10")
    case True
    then show ?thesis by (simp add: decimal.simps [of n])
  next
    case False
    then have "n div 10 < 10 ^ k" using Suc.prems by (simp add: less_mult_imp_div_less mult.commute)
    moreover have "0 < k" using False Suc.prems by (cases k) auto
    ultimately show ?thesis using Suc.IH [of "n div 10"] False by (simp add: decimal.simps [of n])
  qed
qed

text \<open>
  Numbers are printed in decimal: the loop that collects the digits backwards and the loop
  that swaps them in place print every 64-bit number as \<open>std::to_string\<close> would, and the digits with
  the terminating zero fit the buffer of 64 characters.
\<close>

theorem safe_print_unsigned_decimal:
  "safe_print_unsigned num = decimal (unat num) \<and> length (digit_loop num []) + 1 \<le> 64"
proof (cases "num = 0")
  case True
  moreover have "decimal 0 = ''0''" by code_simp
  ultimately show ?thesis
    by (simp add: safe_print_unsigned_def digit_loop.simps [of 0])
next
  case False
  have "unat num < 2 ^ LENGTH(64)" by (rule unsigned_less)
  then have "unat num < 10 ^ 20" by simp
  then have "length (decimal (unat num)) \<le> 20" using decimal_length [of "unat num" 20] by simp
  with False show ?thesis
    by (simp add: safe_print_unsigned_def digit_loop_decimal decimal_not_Nil
        reverse_loop_rev [of "rev (decimal (unat num))", simplified] Let_def)
qed

section \<open>Merging\<close>

text \<open>What the handler relies on from \<open>std::sort\<close>.\<close>

locale segment_sort =
  fixes std_sort :: "Segment list \<Rightarrow> Segment list"
  assumes sort_mset: "mset (std_sort xs) = mset xs"
    and sort_sorted: "sorted (map seg_start (std_sort xs))"

interpretation stable_sort: segment_sort "sort_key seg_start"
  by unfold_locales simp_all

definition bytes_between :: "u64 \<Rightarrow> u64 \<Rightarrow> nat set" where
  "bytes_between a b = {unat a..<unat b}"

definition call_bytes :: "u64 \<times> u64 \<Rightarrow> nat set" where
  "call_bytes c = {unat (fst c)..<unat (fst c) + unat (snd c)}"

definition segment_ok :: "Segment \<Rightarrow> bool" where
  "segment_ok s \<longleftrightarrow> seg_start s \<le> seg_end s"

lemma call_bytes_diff: "a \<le> b \<Longrightarrow> call_bytes (a, b - a) = bytes_between a b"
  by (simp add: call_bytes_def bytes_between_def unat_sub word_le_nat_alt)

lemma bytes_join:
  "a \<le> b \<Longrightarrow> a \<le> c \<Longrightarrow> c \<le> b \<Longrightarrow> c \<le> d \<Longrightarrow>
     bytes_between a (max b d) = bytes_between a b \<union> bytes_between c d"
  by (auto simp: bytes_between_def word_le_nat_alt max_def)

lemma merge_segments_bytes:
  "cs \<le> ce \<Longrightarrow> list_all segment_ok ss \<Longrightarrow> sorted (cs # map seg_start ss) \<Longrightarrow>
     (\<Union>c \<in> set (merge_segments cs ce ss). call_bytes c) =
       bytes_between cs ce \<union> (\<Union>s \<in> set ss. bytes_between (seg_start s) (seg_end s))"
proof (induction cs ce ss rule: merge_segments.induct)
  case (1 cs ce)
  then show ?case by (simp add: call_bytes_diff)
next
  case (2 cs ce s ss)
  show ?case
  proof (cases "seg_start s > ce")
    case True
    with 2 show ?thesis by (auto simp: call_bytes_diff segment_ok_def)
  next
    case False
    then have "bytes_between cs (max ce (seg_end s)) =
        bytes_between cs ce \<union> bytes_between (seg_start s) (seg_end s)"
      using 2(3-5) by (intro bytes_join) (auto simp: segment_ok_def)
    moreover have "(\<Union>c \<in> set (merge_segments cs (max ce (seg_end s)) ss). call_bytes c) =
        bytes_between cs (max ce (seg_end s)) \<union> (\<Union>s \<in> set ss. bytes_between (seg_start s) (seg_end s))"
      by (rule 2(2)) (use False 2(3-5) in \<open>simp_all add: le_max_iff_disj\<close>)
    ultimately show ?thesis using False by (simp add: Un_assoc)
  qed
qed

text \<open>The calls are in ascending order with a gap between any two.\<close>

abbreviation before :: "u64 \<times> u64 \<Rightarrow> u64 \<times> u64 \<Rightarrow> bool" where
  "before c d \<equiv> unat (fst c) + unat (snd c) < unat (fst d)"

lemma merge_segments_starts:
  "sorted (cs # map seg_start ss) \<Longrightarrow> c \<in> set (merge_segments cs ce ss) \<Longrightarrow> cs \<le> fst c"
proof (induction cs ce ss rule: merge_segments.induct)
  case (2 cs ce s ss)
  then show ?case by (fastforce split: if_splits)
qed simp

lemma merge_segments_separate:
  "cs \<le> ce \<Longrightarrow> list_all segment_ok ss \<Longrightarrow> sorted (cs # map seg_start ss) \<Longrightarrow>
     sorted_wrt before (merge_segments cs ce ss)"
proof (induction cs ce ss rule: merge_segments.induct)
  case (2 cs ce s ss)
  show ?case
  proof (cases "seg_start s > ce")
    case True
    have "before (cs, ce - cs) c" if "c \<in> set (merge_segments (seg_start s) (seg_end s) ss)" for c
    proof -
      have "seg_start s \<le> fst c" by (rule merge_segments_starts [OF _ that]) (use 2(5) in simp)
      with True 2(3) show ?thesis by (simp add: unat_sub word_le_nat_alt word_less_nat_alt)
    qed
    with True 2 show ?thesis by (auto simp: segment_ok_def)
  next
    case False
    with 2 show ?thesis by (auto simp: max_def segment_ok_def)
  qed
qed simp

section \<open>Pages\<close>

lemma page_mask: "x AND PAGE_MASK = push_bit 12 (drop_bit 12 x)"
proof -
  have mask: "PAGE_MASK = NOT (mask 12)"
    by (simp add: PAGE_MASK_def PAGE_SHIFT_def mask_eq_exp_minus_1)
  show ?thesis unfolding mask by (auto simp: bit_simps intro!: bit_eqI)
qed

lemma unat_page: "unat (x AND PAGE_MASK) = 4096 * (unat x div 4096)"
proof -
  have "unat x < 2 ^ LENGTH(64)" by (rule unsigned_less)
  then have "4096 * (unat x div 4096) < 2 ^ 64" by simp
  then show ?thesis
    by (simp add: page_mask push_bit_eq_mult drop_bit_eq_div unat_word_ariths unat_div mult.commute)
qed

text \<open>An entry whose last page does not reach the end of the address space.\<close>

definition entry_ok :: "u64 \<times> u64 \<Rightarrow> bool" where
  "entry_ok ec \<longleftrightarrow> unat (fst ec) + unat (snd ec) + 4095 < 2 ^ 64"

text \<open>The bytes of all pages that an entry touches.\<close>

definition entry_pages :: "u64 \<times> u64 \<Rightarrow> nat set" where
  "entry_pages ec =
     {4096 * (unat (fst ec) div 4096)..<4096 * ((unat (fst ec) + unat (snd ec) + 4095) div 4096)}"

definition entry_segment :: "u64 \<times> u64 \<Rightarrow> Segment" where
  "entry_segment ec =
     \<lparr>seg_start = fst ec AND PAGE_MASK, seg_end = (fst ec + snd ec + PAGE_SIZE - 1) AND PAGE_MASK\<rparr>"

lemma unmap_callback_segment:
  "length sarray < max_num_segs \<Longrightarrow> unmap_callback ec sarray = sarray @ [entry_segment ec]"
  by (simp add: unmap_callback_def entry_segment_def split: prod.split)

lemma fold_unmap_callback:
  "length sarray + length es \<le> max_num_segs \<Longrightarrow>
     fold unmap_callback es sarray = sarray @ map entry_segment es"
  by (induction es arbitrary: sarray) (auto simp: unmap_callback_segment)

definition all_entries :: "(u64 \<times> u64) list option list \<Rightarrow> (u64 \<times> u64) list" where
  "all_entries caches = concat (map (\<lambda>c. case c of None \<Rightarrow> [] | Some es \<Rightarrow> es) caches)"

lemma collect_segments_eq:
  assumes "length (all_entries caches) \<le> max_num_segs"
  shows "collect_segments caches = map entry_segment (all_entries caches)"
proof -
  have "fold (\<lambda>cache sarray. case cache of None \<Rightarrow> sarray | Some es \<Rightarrow> fold unmap_callback es sarray)
      caches sarray = sarray @ map entry_segment (all_entries caches)"
    if "length sarray + length (all_entries caches) \<le> max_num_segs" for sarray
    using that
    by (induction caches arbitrary: sarray)
      (auto simp: all_entries_def fold_unmap_callback split: option.splits)
  from this [of "[]"] assms show ?thesis by (simp add: collect_segments_def)
qed

lemma entry_segment_unat:
  assumes "entry_ok ec"
  shows "unat (seg_start (entry_segment ec)) = 4096 * (unat (fst ec) div 4096)"
    and "unat (seg_end (entry_segment ec)) = 4096 * ((unat (fst ec) + unat (snd ec) + 4095) div 4096)"
proof -
  have "fst ec + snd ec + PAGE_SIZE - 1 = of_nat (unat (fst ec) + unat (snd ec) + 4095)"
    by (simp add: PAGE_SIZE_def)
  also have "unat \<dots> = unat (fst ec) + unat (snd ec) + 4095"
    using assms unfolding entry_ok_def by (simp only: unsigned_of_nat) (simp add: take_bit_nat_eq_self)
  finally show "unat (seg_end (entry_segment ec)) =
      4096 * ((unat (fst ec) + unat (snd ec) + 4095) div 4096)"
    by (simp add: entry_segment_def unat_page)
qed (simp add: entry_segment_def unat_page)

lemma entry_segment_ok:
  assumes "entry_ok ec"
  shows "segment_ok (entry_segment ec)"
    and "bytes_between (seg_start (entry_segment ec)) (seg_end (entry_segment ec)) = entry_pages ec"
proof -
  have "unat (fst ec) div 4096 \<le> (unat (fst ec) + unat (snd ec) + 4095) div 4096"
    by (intro div_le_mono) simp
  then show "segment_ok (entry_segment ec)"
    by (simp add: segment_ok_def word_le_nat_alt entry_segment_unat [OF assms])
qed (simp add: bytes_between_def entry_pages_def entry_segment_unat [OF assms])

lemma merge_segments_aligned:
  "4096 dvd unat cs \<Longrightarrow> 4096 dvd unat ce \<Longrightarrow> cs \<le> ce \<Longrightarrow> list_all segment_ok ss \<Longrightarrow>
     \<forall>s \<in> set ss. 4096 dvd unat (seg_start s) \<and> 4096 dvd unat (seg_end s) \<Longrightarrow>
     c \<in> set (merge_segments cs ce ss) \<Longrightarrow> 4096 dvd unat (fst c) \<and> 4096 dvd unat (snd c)"
proof (induction cs ce ss rule: merge_segments.induct)
  case (1 cs ce)
  then show ?case by (auto simp: unat_sub word_le_nat_alt intro: dvd_diff_nat)
next
  case (2 cs ce s ss)
  have "4096 dvd unat (ce - cs)"
    using 2(3-5) by (auto simp: unat_sub word_le_nat_alt intro: dvd_diff_nat)
  moreover have "4096 dvd unat (max ce (seg_end s))" "cs \<le> max ce (seg_end s)"
    using 2(4,5,7) by (auto simp: max_def)
  ultimately show ?case
    using 2 by (cases "seg_start s > ce") (auto simp: segment_ok_def)
qed

lemma separate_bytes_card:
  "sorted_wrt before cs \<Longrightarrow>
     card (\<Union>c \<in> set cs. call_bytes c) = (\<Sum>c \<leftarrow> cs. unat (snd c))"
proof (induction cs)
  case (Cons c cs)
  have "call_bytes c \<inter> (\<Union>d \<in> set cs. call_bytes d) = {}"
    using Cons.prems by (fastforce simp: call_bytes_def)
  moreover have "finite (\<Union>d \<in> set cs. call_bytes d)" "finite (call_bytes c)"
    by (simp_all add: call_bytes_def)
  ultimately show ?case
    using Cons by (simp add: card_Un_disjoint) (simp add: call_bytes_def)
qed simp

section \<open>The handler unmaps the caches\<close>

fun munmaps :: "fatal_action list \<Rightarrow> (u64 \<times> u64) list" where
  "munmaps [] = []"
| "munmaps (Munmap a len # acts) = (a, len) # munmaps acts"
| "munmaps (_ # acts) = munmaps acts"

lemma munmaps_append [simp]: "munmaps (xs @ ys) = munmaps xs @ munmaps ys"
  by (induction xs rule: munmaps.induct) auto

lemma munmaps_map [simp]: "munmaps (map (\<lambda>(a, len). Munmap a len) calls) = calls"
  by (induction calls) auto

lemma pages_of_aligned:
  "\<forall>c \<in> set calls. 4096 dvd unat (snd c) \<Longrightarrow>
     4096 * (\<Sum>(a, len) \<leftarrow> calls. unat (drop_bit PAGE_SHIFT len)) = (\<Sum>c \<leftarrow> calls. unat (snd c))"
  for calls :: "(u64 \<times> u64) list"
  by (induction calls)
    (auto simp: PAGE_SHIFT_def drop_bit_eq_div unat_div add_mult_distrib2 dvd_mult_div_cancel)

context segment_sort
begin

lemma sorted_segments:
  assumes "list_all entry_ok es" "std_sort (map entry_segment es) = s # ss"
  shows "list_all segment_ok (s # ss)" "sorted (seg_start s # map seg_start ss)"
    "(\<Union>s \<in> set (s # ss). bytes_between (seg_start s) (seg_end s)) = (\<Union>ec \<in> set es. entry_pages ec)"
    "\<forall>s \<in> set (s # ss). 4096 dvd unat (seg_start s) \<and> 4096 dvd unat (seg_end s)"
proof -
  have "set (s # ss) = entry_segment ` set es"
    using sort_mset [of "map entry_segment es"] assms(2) by (metis set_map set_mset_mset)
  then show "list_all segment_ok (s # ss)"
    "(\<Union>s \<in> set (s # ss). bytes_between (seg_start s) (seg_end s)) = (\<Union>ec \<in> set es. entry_pages ec)"
    "\<forall>s \<in> set (s # ss). 4096 dvd unat (seg_start s) \<and> 4096 dvd unat (seg_end s)"
    using assms(1)
    by (simp_all only: list_all_iff) (auto simp: entry_segment_ok entry_segment_unat)
  show "sorted (seg_start s # map seg_start ss)"
    using sort_sorted [of "map entry_segment es"] assms(2) by simp
qed

lemma merged_calls:
  assumes "list_all entry_ok es" "std_sort (map entry_segment es) = s # ss"
    and "calls = merge_segments (seg_start s) (seg_end s) ss"
  shows "(\<Union>c \<in> set calls. call_bytes c) = (\<Union>ec \<in> set es. entry_pages ec)"
    "sorted_wrt before calls" "\<forall>c \<in> set calls. 4096 dvd unat (fst c) \<and> 4096 dvd unat (snd c)"
proof -
  note s = sorted_segments [OF assms(1,2)]
  have le: "seg_start s \<le> seg_end s" "list_all segment_ok ss"
    using s(1) by (simp_all add: segment_ok_def)
  show "(\<Union>c \<in> set calls. call_bytes c) = (\<Union>ec \<in> set es. entry_pages ec)"
    unfolding assms(3) merge_segments_bytes [OF le s(2)] using s(3) by simp
  show "sorted_wrt before calls"
    unfolding assms(3) by (rule merge_segments_separate [OF le s(2)])
  show "\<forall>c \<in> set calls. 4096 dvd unat (fst c) \<and> 4096 dvd unat (snd c)"
    unfolding assms(3) using merge_segments_aligned [OF _ _ le] s(4) by simp
qed

end

text \<open>
  \<^bold>\<open>C32.\<close> The first thread that enters the handler unmaps exactly the pages that the cache entries
  touch: the calls of \<open>munmap\<close> cover every byte of those pages and no other byte, are page aligned,
  ascending and pairwise separated, and the number of pages reported is the number of distinct
  pages. It holds for whatever order the sort leaves equal segments in.
\<close>

theorem caches_unmapped_exactly:
  assumes "segment_sort std_sort" "insegv st = None" "all_entries caches \<noteq> []"
    and "list_all entry_ok (all_entries caches)" "length (all_entries caches) \<le> max_num_segs"
    and "handle_fatal_signal std_sort True caches self sig st = (acts, st')"
  shows "(\<Union>c \<in> set (munmaps acts). call_bytes c) = (\<Union>ec \<in> set (all_entries caches). entry_pages ec) \<and>
    sorted_wrt before (munmaps acts) \<and>
    (\<forall>c \<in> set (munmaps acts). 4096 dvd unat (fst c) \<and> 4096 dvd unat (snd c)) \<and>
    4096 * (page_count st' - page_count st) =
      card (\<Union>ec \<in> set (all_entries caches). entry_pages ec)"
proof -
  have "std_sort (map entry_segment (all_entries caches)) \<noteq> []"
    using segment_sort.sort_mset [OF assms(1), of "map entry_segment (all_entries caches)"] assms(3)
    by auto
  then obtain s ss where s: "std_sort (map entry_segment (all_entries caches)) = s # ss"
    by (cases "std_sort (map entry_segment (all_entries caches))") auto
  define calls where "calls = merge_segments (seg_start s) (seg_end s) ss"
  note m = segment_sort.merged_calls [OF assms(1,4) s calls_def]
  have "munmaps acts = calls"
    "page_count st' = page_count st + (\<Sum>(a, len) \<leftarrow> calls. unat (drop_bit PAGE_SHIFT len))"
    using assms(6) s
    by (auto simp: handle_fatal_signal_def assms(2) collect_segments_eq [OF assms(5)] calls_def Let_def)
  moreover have "4096 * (\<Sum>(a, len) \<leftarrow> calls. unat (drop_bit PAGE_SHIFT len)) =
      card (\<Union>ec \<in> set (all_entries caches). entry_pages ec)"
    using pages_of_aligned [of calls] separate_bytes_card [OF m(2)] m(1,3) by auto
  ultimately show ?thesis using m by simp
qed

definition sample_caches :: "(u64 \<times> u64) list option list" where
  "sample_caches = [Some [(0x5010, 100), (0x1000, 0x1001)], None, Some [(0x2800, 16)]]"

theorem caches_unmapped_exactly_witness:
  "(\<Union>c \<in> set (munmaps (fst (handle_fatal_signal (sort_key seg_start) True sample_caches 1 11
       \<lparr>insegv = None, unmap_count = 0, page_count = 0\<rparr>))). call_bytes c) =
   {0x1000..<0x3000} \<union> {0x5000..<0x6000}"
proof -
  let ?st = "\<lparr>insegv = None, unmap_count = 0, page_count = 0\<rparr>"
  have es: "all_entries sample_caches = [(0x5010, 100), (0x1000, 0x1001), (0x2800, 16)]"
    by (simp add: all_entries_def sample_caches_def)
  have "(\<Union>c \<in> set (munmaps (fst (handle_fatal_signal (sort_key seg_start) True sample_caches 1 11 ?st))).
      call_bytes c) = (\<Union>ec \<in> set (all_entries sample_caches). entry_pages ec)"
    by (rule caches_unmapped_exactly [THEN conjunct1, OF stable_sort.segment_sort_axioms _ _ _ _
          prod.collapse [symmetric]])
      (simp_all add: es entry_ok_def max_num_segs_def)
  also have "\<dots> = {0x1000..<0x3000} \<union> {0x5000..<0x6000}"
    by (auto simp: es entry_pages_def)
  finally show ?thesis .
qed

end
