(* ===== verification/Health_Checker.thy ===== *)
theory Health_Checker
  imports HS_Prelude "HOL-Library.Multiset"
begin

text \<open>
  The cluster health check, \<open>hstream-store/cbits/logdevice/ld_health_checker.cpp\<close>: ask every node of
  the service discovery configuration for its view of the cluster, and compare the number of nodes
  that some answer reports as not alive with a limit.

  LogDevice is a parameter: the nodes with their addresses, the answer each request gets, whether
  a request can be posted, and the order in which the answers arrive. \<open>folly::join\<close> is the
  parameter \<open>join\<close>; a warning is the text it prints.
\<close>

section \<open>State\<close>

datatype ld_status = E_OK | E_TIMEDOUT | E_OTHER nat

type_synonym node_index_t = int
type_synonym node_states = "(node_index_t \<times> 16 word) list"

record ClusterStateResult =
  cs_node_id :: node_index_t
  cs_addr :: string
  cs_status :: ld_status
  cs_nodes_state :: node_states
  cs_nodes_status :: node_states

record checker_env =
  hc_nodes :: "(node_index_t \<times> string) list"     \<comment> \<open>service discovery, in iteration order\<close>
  hc_answer :: "node_index_t \<Rightarrow> ld_status \<times> node_states \<times> node_states"
  hc_post_ok :: "node_index_t \<Rightarrow> bool"
  hc_arrival :: "(node_index_t \<times> string) list \<Rightarrow> (node_index_t \<times> string) list"

abbreviation hasNode :: "checker_env \<Rightarrow> node_index_t \<Rightarrow> bool" where
  "hasNode env n \<equiv> n \<in> set (map fst (hc_nodes env))"

section \<open>Collecting the answers\<close>

definition addResult ::
    "node_index_t \<Rightarrow> string \<Rightarrow> ld_status \<Rightarrow> node_states \<Rightarrow> node_states \<Rightarrow> ClusterStateResult list \<Rightarrow>
     ClusterStateResult list" where
  "addResult node_id address status nodes_state nodes_status stateResults_' =
     stateResults_' @ [\<lparr>cs_node_id = node_id, cs_addr = address, cs_status = status,
                        cs_nodes_state = nodes_state, cs_nodes_status = nodes_status\<rparr>]"

definition clearResults :: "ClusterStateResult list \<Rightarrow> ClusterStateResult list" where
  "clearResults stateResults_' = []"

text \<open>
  Post a request per node, then wait on the semaphore once per request: the results are those of
  all callbacks, in the order of arrival.
\<close>

definition getClusterState ::
    "checker_env \<Rightarrow> ClusterStateResult list \<Rightarrow> ClusterStateResult list result" where
  "getClusterState env stateResults_' =
     (if list_all (hc_post_ok env \<circ> fst) (hc_nodes env) then
        Inr (fold (\<lambda>(node_id, addr). case hc_answer env node_id of
                     (status, nodes_state, nodes_status) \<Rightarrow>
                       addResult node_id addr status nodes_state nodes_status)
               (hc_arrival env (hc_nodes env)) (clearResults stateResults_'))
      else Inl LdCheck)"

section \<open>Reporting\<close>

definition nodesStateToString :: "checker_env \<Rightarrow> (node_index_t list \<Rightarrow> string) \<Rightarrow> node_states \<Rightarrow> string" where
  "nodesStateToString env join nodes_state =
     join (map fst (filter (\<lambda>(node_idx, state). hasNode env node_idx \<and> state \<noteq> 0) nodes_state))"

definition nodesStatusToUnhealthy ::
    "checker_env \<Rightarrow> (node_index_t list \<Rightarrow> string) \<Rightarrow> node_states \<Rightarrow> string" where
  "nodesStatusToUnhealthy env join nodes_status =
     join (map fst (filter (\<lambda>(node_idx, status). hasNode env node_idx \<and> status = 3) nodes_status))"

definition printUnhealthyNodes ::
    "checker_env \<Rightarrow> (node_index_t list \<Rightarrow> string) \<Rightarrow> ClusterStateResult list \<Rightarrow> node_index_t list \<Rightarrow>
     string list" where
  "printUnhealthyNodes env join stateResults_' sets =
     map (\<lambda>res.
        ''[Node '' @ to_string (cs_node_id res) @ ''('' @ cs_addr res @ '')]: status: '' @
        (case cs_status res of E_OK \<Rightarrow> ''ALIVE'' | E_TIMEDOUT \<Rightarrow> ''SUSPECT'' | E_OTHER _ \<Rightarrow> ''DEAD'') @
        '', dead nodes index: ['' @ nodesStateToString env join (cs_nodes_state res) @
        ''], unhealthy nodes index: ['' @ nodesStatusToUnhealthy env join (cs_nodes_status res) @ '']'')
       stateResults_' @
     [''Check return unhealthy nodes index: ['' @ join sets @ '']'']"

section \<open>The check\<close>

definition note_state ::
    "checker_env \<Rightarrow> node_index_t \<times> 16 word \<Rightarrow> node_index_t list \<Rightarrow> node_index_t list" where
  "note_state env ns unhealthy =
     (case ns of
        (node_idx, state) \<Rightarrow>
          let unhealthy = (if hasNode env node_idx \<and> state \<noteq> 0 then List.insert node_idx unhealthy
                           else unhealthy)
          in if hasNode env node_idx \<and> state = 3 then List.insert node_idx unhealthy else unhealthy)"

definition note_result ::
    "checker_env \<Rightarrow> ClusterStateResult \<Rightarrow> node_index_t list \<Rightarrow> node_index_t list" where
  "note_result env res unhealthy =
     (if cs_status res = E_OK then fold (note_state env) (cs_nodes_state res) unhealthy
      else unhealthy)"

text \<open>
  The comparison is between a \<open>size_t\<close> and an \<open>int\<close>, which is converted to \<open>size_t\<close>. The result
  is the new list of answers, the warnings and the verdict.
\<close>

definition check ::
    "checker_env \<Rightarrow> (node_index_t list \<Rightarrow> string) \<Rightarrow> i32 \<Rightarrow> ClusterStateResult list \<Rightarrow>
     (ClusterStateResult list \<times> string list \<times> bool) result" where
  "check env join unhealthy_node_limit stateResults_' =
     (case getClusterState env stateResults_' of
        Inl e \<Rightarrow> Inl e
      | Inr results \<Rightarrow>
          (let unhealthy = fold (note_result env) results []
           in Inr (results,
                   if unhealthy \<noteq> [] then
                     (''Cluster has '' @ to_string (int (length unhealthy)) @ '' unhealthy nodes:'') #
                     printUnhealthyNodes env join results unhealthy
                   else [],
                   (of_nat (length unhealthy) :: u64) \<le> scast unhealthy_node_limit)))"

definition ld_checker_check where
  "ld_checker_check env join unhealthy_node_limit checker = check env join unhealthy_node_limit checker"

definition new_ld_checker :: "ClusterStateResult list" where
  "new_ld_checker = []"

section \<open>What the check computes\<close>

text \<open>The nodes of the configuration that some successful answer reports as not alive.\<close>

definition reported_unhealthy :: "checker_env \<Rightarrow> node_index_t set" where
  "reported_unhealthy env =
     {n. hasNode env n \<and>
         (\<exists>m \<in> set (hc_nodes env). fst (hc_answer env (fst m)) = E_OK \<and>
            (\<exists>st. (n, st) \<in> set (fst (snd (hc_answer env (fst m)))) \<and> st \<noteq> 0))}"

lemma note_state_set:
  "set (note_state env (n, st) u) = (if hasNode env n \<and> st \<noteq> 0 then insert n (set u) else set u)"
  by (auto simp: note_state_def Let_def)

lemma note_states_set:
  "set (fold (note_state env) nst u) = set u \<union> {n. hasNode env n \<and> (\<exists>st. (n, st) \<in> set nst \<and> st \<noteq> 0)}"
proof (induction nst arbitrary: u)
  case (Cons x nst)
  obtain n st where "x = (n, st)" by (cases x)
  then show ?case by (auto simp: Cons note_state_set)
qed simp

lemma note_states_distinct: "distinct u \<Longrightarrow> distinct (fold (note_state env) nst u)"
  by (induction nst arbitrary: u) (auto simp: note_state_def Let_def split: prod.split)

lemma note_results_set:
  "set (fold (note_result env) results u) =
     set u \<union> {n. hasNode env n \<and> (\<exists>r \<in> set results. cs_status r = E_OK \<and>
        (\<exists>st. (n, st) \<in> set (cs_nodes_state r) \<and> st \<noteq> 0))}"
  by (induction results arbitrary: u) (auto simp: note_result_def note_states_set)

lemma note_results_distinct: "distinct u \<Longrightarrow> distinct (fold (note_result env) results u)"
  by (induction results arbitrary: u) (auto simp: note_result_def note_states_distinct)

definition result_of :: "checker_env \<Rightarrow> node_index_t \<times> string \<Rightarrow> ClusterStateResult" where
  "result_of env na =
     \<lparr>cs_node_id = fst na, cs_addr = snd na, cs_status = fst (hc_answer env (fst na)),
      cs_nodes_state = fst (snd (hc_answer env (fst na))),
      cs_nodes_status = snd (snd (hc_answer env (fst na)))\<rparr>"

lemma collected_results:
  "fold (\<lambda>(node_id, addr). case hc_answer env node_id of
       (status, nodes_state, nodes_status) \<Rightarrow> addResult node_id addr status nodes_state nodes_status)
     nodes rs = rs @ map (result_of env) nodes"
  by (induction nodes arbitrary: rs) (auto simp: addResult_def result_of_def split: prod.splits)

lemma getClusterState_results:
  assumes "list_all (hc_post_ok env \<circ> fst) (hc_nodes env)"
    and "mset (hc_arrival env (hc_nodes env)) = mset (hc_nodes env)"
    and "getClusterState env old = Inr results"
  shows "set results = result_of env ` set (hc_nodes env)" "length results = length (hc_nodes env)"
proof -
  have "results = map (result_of env) (hc_arrival env (hc_nodes env))"
    using assms(1,3) by (simp add: getClusterState_def collected_results clearResults_def)
  then show "set results = result_of env ` set (hc_nodes env)" "length results = length (hc_nodes env)"
    using mset_eq_setD [OF assms(2)] mset_eq_length [OF assms(2)] by simp_all
qed

lemma unhealthy_reported:
  assumes "list_all (hc_post_ok env \<circ> fst) (hc_nodes env)"
    and "mset (hc_arrival env (hc_nodes env)) = mset (hc_nodes env)"
    and "getClusterState env old = Inr results"
  shows "set (fold (note_result env) results []) = reported_unhealthy env"
  by (simp add: note_results_set getClusterState_results(1) [OF assms] reported_unhealthy_def
      result_of_def)

lemma unhealthy_count:
  assumes "list_all (hc_post_ok env \<circ> fst) (hc_nodes env)"
    and "mset (hc_arrival env (hc_nodes env)) = mset (hc_nodes env)"
    and "getClusterState env old = Inr results"
  shows "length (fold (note_result env) results []) = card (reported_unhealthy env)"
    and "length (fold (note_result env) results []) \<le> length (hc_nodes env)"
proof -
  show len: "length (fold (note_result env) results []) = card (reported_unhealthy env)"
    unfolding unhealthy_reported [OF assms, symmetric]
    by (rule distinct_card [symmetric]) (simp add: note_results_distinct)
  have "card (reported_unhealthy env) \<le> card (set (map fst (hc_nodes env)))"
    by (rule card_mono) (auto simp: reported_unhealthy_def)
  also have "\<dots> \<le> length (hc_nodes env)" by (metis card_length length_map)
  finally show "length (fold (note_result env) results []) \<le> length (hc_nodes env)"
    by (simp add: len)
qed

text \<open>
  \<^bold>\<open>C33.\<close> For a limit that is not negative, the verdict is whether at most that many nodes of the
  configuration are reported as not alive by some node that answered. It depends neither on the
  order in which the answers arrive nor on earlier checks, and there is one result per node.
\<close>

theorem health_verdict:
  assumes "list_all (hc_post_ok env \<circ> fst) (hc_nodes env)"
    and "mset (hc_arrival env (hc_nodes env)) = mset (hc_nodes env)"
    and "length (hc_nodes env) < 2 ^ 63" "0 \<le> sint limit"
  shows "\<exists>results warnings. ld_checker_check env join limit old =
      Inr (results, warnings, int (card (reported_unhealthy env)) \<le> sint limit) \<and>
    length results = length (hc_nodes env) \<and> (warnings = [] \<longleftrightarrow> reported_unhealthy env = {})"
proof -
  obtain results where r: "getClusterState env old = Inr results"
    using assms(1) by (simp add: getClusterState_def)
  let ?u = "fold (note_result env) results []"
  have set: "set ?u = reported_unhealthy env" by (rule unhealthy_reported [OF assms(1,2) r])
  have len: "length ?u = card (reported_unhealthy env)"
    by (rule unhealthy_count(1) [OF assms(1,2) r])
  then have "card (reported_unhealthy env) < 2 ^ 63"
    using unhealthy_count(2) [OF assms(1,2) r] assms(3) by simp
  then have c: "uint (of_nat (card (reported_unhealthy env)) :: u64) = int (card (reported_unhealthy env))"
    by (simp add: unsigned_of_nat take_bit_nat_eq_self)
  have "sint limit < 2 ^ 31" using sint_lt [of limit] by simp
  then have "uint (scast limit :: u64) = sint limit"
    using assms(4)
    by (simp only: scast_eq unsigned_of_int) (simp add: take_bit_int_eq_self)
  with c have "((of_nat (length ?u) :: u64) \<le> scast limit) \<longleftrightarrow>
      int (card (reported_unhealthy env)) \<le> sint limit"
    by (simp add: word_le_def len)
  moreover have "?u = [] \<longleftrightarrow> reported_unhealthy env = {}" using set by auto
  ultimately show ?thesis
    using getClusterState_results(2) [OF assms(1,2) r]
    by (simp add: ld_checker_check_def check_def r Let_def)
qed

text \<open>Two nodes; the first answers and reports the second and an unknown node as not alive.\<close>

definition sample_cluster :: checker_env where
  "sample_cluster =
     \<lparr>hc_nodes = [(0, ''a''), (1, ''b'')],
      hc_answer = (\<lambda>n. if n = 0 then (E_OK, [(0, 0), (1, 3), (7, 1)], []) else (E_TIMEDOUT, [], [])),
      hc_post_ok = (\<lambda>_. True), hc_arrival = rev\<rparr>"

lemma sample_cluster_reported: "reported_unhealthy sample_cluster = {1}"
  by (auto simp: reported_unhealthy_def sample_cluster_def)

theorem health_verdict_witness:
  "\<exists>results warnings. ld_checker_check sample_cluster (\<lambda>_. []) 0 new_ld_checker =
     Inr (results, warnings, False) \<and> length results = 2 \<and> warnings \<noteq> []"
proof -
  have "\<exists>results warnings. ld_checker_check sample_cluster (\<lambda>_. []) 0 new_ld_checker =
      Inr (results, warnings, int (card (reported_unhealthy sample_cluster)) \<le> sint (0 :: i32)) \<and>
    length results = length (hc_nodes sample_cluster) \<and>
    (warnings = [] \<longleftrightarrow> reported_unhealthy sample_cluster = {})"
    by (rule health_verdict) (simp_all add: sample_cluster_def)
  then show ?thesis unfolding sample_cluster_reported by (simp add: sample_cluster_def numeral_2_eq_2)
qed

text \<open>
  With a negative limit the check always reports a healthy cluster, however many nodes are
  reported as not alive: the limit is converted to an unsigned number before it is compared.
\<close>

theorem negative_limit_always_healthy:
  assumes "list_all (hc_post_ok env \<circ> fst) (hc_nodes env)"
    and "mset (hc_arrival env (hc_nodes env)) = mset (hc_nodes env)"
    and "length (hc_nodes env) < 2 ^ 63" "sint limit < 0"
  shows "\<exists>results warnings. ld_checker_check env join limit old = Inr (results, warnings, True)"
proof -
  obtain results where r: "getClusterState env old = Inr results"
    using assms(1) by (simp add: getClusterState_def)
  let ?u = "fold (note_result env) results []"
  have len: "length ?u < 2 ^ 63"
    using unhealthy_count(2) [OF assms(1,2) r] assms(3) by simp
  have "- (2 ^ 31) \<le> sint limit" using sint_ge [of limit] by simp
  then have "(sint limit + 2 ^ 64) mod 2 ^ 64 = sint limit + 2 ^ 64"
    using assms(4) by (intro mod_pos_pos_trivial) simp_all
  then have "take_bit 64 (sint limit) = sint limit + 2 ^ 64"
    by (simp only: take_bit_eq_mod mod_add_self2)
  then have "uint (scast limit :: u64) = sint limit + 2 ^ 64"
    using \<open>- (2 ^ 31) \<le> sint limit\<close> by (simp only: scast_eq unsigned_of_int) simp
  moreover have "uint (of_nat (length ?u) :: u64) = int (length ?u)"
    using len by (simp add: unsigned_of_nat take_bit_nat_eq_self)
  ultimately have "(of_nat (length ?u) :: u64) \<le> scast limit"
    using len \<open>- (2 ^ 31) \<le> sint limit\<close> by (simp add: word_le_def)
  then show ?thesis by (simp add: ld_checker_check_def check_def r Let_def)
qed

theorem negative_limit_always_healthy_witness:
  "\<exists>results warnings. ld_checker_check sample_cluster (\<lambda>_. []) (-1) new_ld_checker =
     Inr (results, warnings, True)"
  by (rule negative_limit_always_healthy) (simp_all add: sample_cluster_def)

end
