(* ===== verification/Store_Ffi.thy ===== *)
theory Store_Ffi
  imports HS_Prelude
begin

text \<open>
  What the bindings of the log store share: LogDevice's status codes, arrays and C strings handed
  over by Haskell, optional result pointers, the wake-up of a Haskell thread, the copy of a string,
  the copy of a vector (\<open>common/base/cbits/hs_struct.cpp\<close>), and the loop that fills a map from an
  array of keys and an array of values. The last loop is proved once for every kind of map, in a locale interpreted on hash maps and on ordered maps.
\<close>

section \<open>Statuses, arrays and pointers\<close>

text \<open>
  \<open>facebook::logdevice::Status\<close>: the codes the bindings name, all others by their number.
\<close>

datatype status = E_OK | E_VERSION_MISMATCH | E_DATALOSS | E_GAP | E_LOGS_SECTION_MISSING | E_AGAIN | E_other nat

text \<open>\<open>if (ret == 0) return E::OK; return err;\<close> with the value of \<open>facebook::logdevice::err\<close>.\<close>

definition status_of_ret :: "int \<Rightarrow> status \<Rightarrow> status" where
  "status_of_ret ret err = (if ret = 0 then E_OK else err)"

text \<open>An element of an array that came through the interface; an index past its end is a failure.\<close>

definition out_of_bounds :: cpp_error where
  "out_of_bounds = StdException ''access past the end of an array''"

definition read_elem :: "'a list \<Rightarrow> nat \<Rightarrow> 'a result" where
  "read_elem xs i = (if i < length xs then Inr (xs ! i) else Inl out_of_bounds)"

text \<open>The bytes of a C string.\<close>

abbreviation until_nul :: "string \<Rightarrow> string" where
  "until_nul \<equiv> takeWhile (\<lambda>c. c \<noteq> CHR 0x00)"

text \<open>A C string in a byte array: the bytes before the first NUL, which has to be there.\<close>

definition c_str :: "string \<Rightarrow> string result" where
  "c_str bytes =
     (if CHR 0x00 \<in> set bytes then Inr (until_nul bytes) else Inl out_of_bounds)"

text \<open>\<open>strdup(s.c_str())\<close>.\<close>

definition strdup :: "string \<Rightarrow> string" where
  "strdup s = until_nul s"

text \<open>A write through the null pointer.\<close>

definition null_pointer :: cpp_error where
  "null_pointer = StdException ''null pointer''"

text \<open>\<open>exit(1)\<close> and a failed \<open>assert\<close> end the process.\<close>

definition exit_1 :: cpp_error where
  "exit_1 = StdException ''exit(1)''"

definition assert_failed :: cpp_error where
  "assert_failed = StdException ''assertion failed''"

definition read_str :: "string list \<Rightarrow> nat \<Rightarrow> string result" where
  "read_str xs i = (case read_elem xs i of Inl e \<Rightarrow> Inl e | Inr bytes \<Rightarrow> c_str bytes)"

text \<open>\<open>if (p) *p = v;\<close> where no pointer is \<^const>\<open>None\<close>.\<close>

definition poke_out :: "'a \<Rightarrow> 'a option \<Rightarrow> 'a option" where
  "poke_out v p = map_option (\<lambda>_. v) p"

text \<open>
  The memory of a caller that passed a struct for the callback's results, \<^const>\<open>None\<close> if it passed
  the null pointer, with the calls of \<open>hs_try_putmvar\<close> that wake the caller.
\<close>

record 'd cb_mem =
  cb_data :: "'d option"
  cb_putmvars :: "(int \<times> nat) list"

definition cb_finish :: "int \<Rightarrow> nat \<Rightarrow> ('d \<Rightarrow> 'd) \<Rightarrow> 'd cb_mem \<Rightarrow> 'd cb_mem" where
  "cb_finish cap mvar f m =
     m\<lparr>cb_data := map_option f (cb_data m), cb_putmvars := cb_putmvars m @ [(cap, mvar)]\<rparr>"

text \<open>
  \<open>copyString\<close>: a fresh buffer with the contents, the null pointer for an empty string.
\<close>

definition copyString :: "string \<Rightarrow> string option" where
  "copyString payload = (if length payload > 0 then Some payload else None)"

text \<open>\<open>std::string(value + offset, len)\<close> and \<open>Payload(payload + offset, len)\<close>.\<close>

definition slice :: "'a list \<Rightarrow> nat \<Rightarrow> nat \<Rightarrow> 'a list result" where
  "slice xs offset len =
     (if offset + len \<le> length xs then Inr (take len (drop offset xs)) else Inl out_of_bounds)"

lemma c_str_terminated [simp]: "CHR 0x00 \<notin> set s \<Longrightarrow> c_str (s @ [CHR 0x00]) = Inr s"
  by (induction s) (auto simp: c_str_def)

lemma copyString_contents: "(case copyString s of None \<Rightarrow> [] | Some b \<Rightarrow> b) = s"
  by (simp add: copyString_def)

section \<open>Vectors\<close>

text \<open>\<open>GET_SIZE\<close> and \<open>PEEK_VECTOR\<close>: the size of a vector and the copy of its elements into an array.\<close>

definition GET_SIZE :: "'a list \<Rightarrow> int" where
  "GET_SIZE v = int (length v)"

definition peek_elem :: "'a list \<Rightarrow> nat \<Rightarrow> 'a list \<Rightarrow> 'a list result" where
  "peek_elem vec i vals =
     (case read_elem vec i of
        Inl e \<Rightarrow> Inl e
      | Inr x \<Rightarrow> if i < length vals then Inr (vals[i := x]) else Inl out_of_bounds)"

definition PEEK_VECTOR :: "'a list \<Rightarrow> int \<Rightarrow> 'a list \<Rightarrow> 'a list result" where
  "PEEK_VECTOR vec vals_len vals =
     (if vals_len \<noteq> int (length vec) then Inl assert_failed
      else fold_result (peek_elem vec) [0..<nat vals_len] vals)"

text \<open>An array of the size the vector reports receives its elements.\<close>

lemma PEEK_VECTOR_copies:
  assumes "length vec \<le> length vals"
  shows "PEEK_VECTOR vec (GET_SIZE vec) vals = Inr (vec @ drop (length vec) vals)"
proof -
  have "fold_result (peek_elem vec) [0..<n] vals = Inr (take n vec @ drop n vals)" if "n \<le> length vec" for n
    using that
  proof (induction n)
    case (Suc n)
    then have "peek_elem vec n (take n vec @ drop n vals) = Inr (take (Suc n) vec @ drop (Suc n) vals)"
      using assms
      by (simp add: peek_elem_def read_elem_def take_Suc_conv_app_nth list_update_append
          Cons_nth_drop_Suc [symmetric])
    with Suc show ?case by (simp add: fold_result_append)
  qed simp
  from this [of "length vec"] show ?thesis by (simp add: PEEK_VECTOR_def GET_SIZE_def)
qed

section \<open>Ordered maps\<close>

text \<open>A \<open>std::map\<close> is an association list in strictly ascending order of its keys.\<close>

abbreviation omap_wf :: "('k::linorder \<times> 'v) list \<Rightarrow> bool" where
  "omap_wf m \<equiv> sorted_wrt (<) (map fst m)"

fun omap_put :: "'k::linorder \<Rightarrow> 'v \<Rightarrow> ('k \<times> 'v) list \<Rightarrow> ('k \<times> 'v) list" where
  "omap_put k v [] = [(k, v)]"
| "omap_put k v ((k', v') # m) =
     (if k < k' then (k, v) # (k', v') # m
      else if k = k' then (k, v) # m
      else (k', v') # omap_put k v m)"

lemma omap_put_keys: "set (map fst (omap_put k v m)) = insert k (set (map fst m))"
  by (induction k v m rule: omap_put.induct) auto

lemma omap_put_wf: "omap_wf m \<Longrightarrow> omap_wf (omap_put k v m)"
proof (induction k v m rule: omap_put.induct)
  case (2 k v k' v' m)
  then show ?case using omap_put_keys [of k v m] by (auto simp del: set_map)
qed simp

lemma omap_put_lookup: "omap_wf m \<Longrightarrow> map_of (omap_put k v m) = (map_of m)(k \<mapsto> v)"
proof (induction k v m rule: omap_put.induct)
  case (2 k v k' v' m)
  then show ?case by (auto simp: fun_eq_iff)
qed simp

lemma omap_distinct: "omap_wf m \<Longrightarrow> distinct (map fst m)"
  by (rule strict_sorted_iff [THEN iffD1, THEN conjunct2])

section \<open>Filling a map from two arrays\<close>

text \<open>\<open>for (int i = 0; i < len; ++i) m[keys[i]] = vals[i];\<close>\<close>

definition put_pair ::
    "('k \<Rightarrow> 'v \<Rightarrow> ('k \<times> 'v) list \<Rightarrow> ('k \<times> 'v) list) \<Rightarrow> 'k list \<Rightarrow> 'v list \<Rightarrow> nat
       \<Rightarrow> ('k \<times> 'v) list \<Rightarrow> ('k \<times> 'v) list result" where
  "put_pair put keys vals i m =
     (case read_elem keys i of
        Inl e \<Rightarrow> Inl e
      | Inr k \<Rightarrow>
          (case read_elem vals i of
             Inl e \<Rightarrow> Inl e
           | Inr v \<Rightarrow> Inr (put k v m)))"

definition fill_map ::
    "('k \<Rightarrow> 'v \<Rightarrow> ('k \<times> 'v) list \<Rightarrow> ('k \<times> 'v) list) \<Rightarrow> 'k list \<Rightarrow> 'v list \<Rightarrow> int
       \<Rightarrow> ('k \<times> 'v) list \<Rightarrow> ('k \<times> 'v) list result" where
  "fill_map put keys vals len m = fold_result (put_pair put keys vals) [0..<nat len] m"

text \<open>What the loop leaves: later pairs win over earlier ones and over what the map had.\<close>

locale keyed_store =
  fixes put :: "'k \<Rightarrow> 'v \<Rightarrow> ('k \<times> 'v) list \<Rightarrow> ('k \<times> 'v) list"
    and wf :: "('k \<times> 'v) list \<Rightarrow> bool"
  assumes put_wf: "wf m \<Longrightarrow> wf (put k v m)"
    and put_lookup: "wf m \<Longrightarrow> map_of (put k v m) = (map_of m)(k \<mapsto> v)"
begin

lemma fill_prefix:
  assumes "n \<le> length keys" "n \<le> length vals" "wf m"
  shows "\<exists>m'. fold_result (put_pair put keys vals) [0..<n] m = Inr m' \<and> wf m' \<and>
           map_of m' = map_of m ++ map_of (rev (zip (take n keys) (take n vals)))"
  using assms
proof (induction n)
  case 0
  then show ?case by simp
next
  case (Suc n)
  then obtain m' where IH: "fold_result (put_pair put keys vals) [0..<n] m = Inr m'" "wf m'"
    "map_of m' = map_of m ++ map_of (rev (zip (take n keys) (take n vals)))" by auto
  have n: "n < length keys" "n < length vals" using Suc.prems by auto
  have "put_pair put keys vals n m' = Inr (put (keys ! n) (vals ! n) m')"
    using n by (simp add: put_pair_def read_elem_def)
  then have "fold_result (put_pair put keys vals) [0..<Suc n] m = Inr (put (keys ! n) (vals ! n) m')"
    using IH(1) by (simp add: fold_result_append)
  moreover have "rev (zip (take (Suc n) keys) (take (Suc n) vals)) =
      (keys ! n, vals ! n) # rev (zip (take n keys) (take n vals))"
    using n by (simp add: take_Suc_conv_app_nth)
  ultimately show ?case
    using IH(2,3) put_wf put_lookup by (simp add: fun_eq_iff map_add_def)
qed

lemma fill_lookup:
  assumes "nat len \<le> length keys" "nat len \<le> length vals" "wf m"
  obtains m' where "fill_map put keys vals len m = Inr m'" "wf m'"
    "map_of m' = map_of m ++ map_of (rev (zip (take (nat len) keys) (take (nat len) vals)))"
  using fill_prefix [OF assms] by (auto simp: fill_map_def)

end

interpretation hashed: keyed_store umap_put "\<lambda>m. umap_wf m"
  by unfold_locales (rule umap_put_wf, assumption, rule umap_put_lookup)

interpretation ordered: keyed_store omap_put "\<lambda>m. omap_wf m"
  by unfold_locales (rule omap_put_wf, assumption, rule omap_put_lookup, assumption)

end
