(* ===== verification/Store_Checkpoint.thy ===== *)
theory Store_Checkpoint
  imports Store_Ffi
begin

text \<open>
  The checkpoint store (\<open>hs_checkpoint.cpp\<close>). A function of the interface turns its arguments into
  a request of LogDevice's \<open>CheckpointStore\<close> with a callback; LogDevice carries the request out and
  runs the callback, which writes the results into memory of the Haskell caller and wakes it. The
  store itself is LogDevice's and a parameter.
\<close>

section \<open>Memory of the caller and requests\<close>

text \<open>
  The result pointers of a call, \<^const>\<open>None\<close> where the caller passed the null pointer, the two
  vectors \<open>checkpoint_store_get_all_checkpoints\<close> allocates, and the calls of \<open>hs_try_putmvar\<close>.
\<close>

record ckp_mem =
  st_out :: "status option"
  value_out :: "u64 option"
  len_out :: int
  keys_vec :: "u64 list option"
  values_vec :: "u64 list option"
  putmvars :: "(int \<times> nat) list"

definition hs_try_putmvar :: "int \<Rightarrow> nat \<Rightarrow> ckp_mem \<Rightarrow> ckp_mem" where
  "hs_try_putmvar cap mvar m = m\<lparr>putmvars := putmvars m @ [(cap, mvar)]\<rparr>"

type_synonym status_cb = "status \<Rightarrow> ckp_mem \<Rightarrow> ckp_mem"

text \<open>The asynchronous methods of \<open>CheckpointStore\<close> the bindings call, with their callbacks.\<close>

datatype ckp_request =
    getLSN string u64 "status \<Rightarrow> u64 \<Rightarrow> ckp_mem \<Rightarrow> ckp_mem"
  | getAllCheckpoints string "status \<Rightarrow> (u64 \<times> u64) list \<Rightarrow> ckp_mem \<Rightarrow> ckp_mem"
  | updateLSN string u64 u64 status_cb
  | updateLSNs string "(u64 \<times> u64) list" status_cb
  | removeCheckpoints string "u64 list" status_cb
  | removeAllCheckpoints string status_cb

section \<open>The functions of the interface\<close>

text \<open>The callback of the functions that only report a status: the status if there is a place for it, then the wake-up.\<close>

definition status_callback :: "int \<Rightarrow> nat \<Rightarrow> status_cb" where
  "status_callback cap mvar st m =
     hs_try_putmvar cap mvar (m\<lparr>st_out := poke_out st (st_out m)\<rparr>)"

definition new_zookeeper_based_checkpoint_store :: "unit result" where
  "new_zookeeper_based_checkpoint_store =
     Inl (StdException ''There is no zk based checkpoint store.'')"

definition checkpoint_store_get_lsn ::
    "string \<Rightarrow> u64 \<Rightarrow> nat \<Rightarrow> int \<Rightarrow> ckp_request" where
  "checkpoint_store_get_lsn customer_id logid mvar cap =
     getLSN customer_id logid
       (\<lambda>st lsn m. hs_try_putmvar cap mvar
          (if st_out m \<noteq> None \<and> value_out m \<noteq> None
           then m\<lparr>st_out := Some st, value_out := Some lsn\<rparr> else m))"

definition checkpoint_store_get_all_checkpoints ::
    "string \<Rightarrow> nat \<Rightarrow> int \<Rightarrow> ckp_request" where
  "checkpoint_store_get_all_checkpoints customer_id mvar cap =
     getAllCheckpoints customer_id
       (\<lambda>st log_lsn_map m. hs_try_putmvar cap mvar
          (let m = m\<lparr>st_out := poke_out st (st_out m)\<rparr> in
           if st = E_OK
           then let keys = fold (\<lambda>(key, _) ks. ks @ [key]) log_lsn_map [];
                    vals = fold (\<lambda>(_, val) vs. vs @ [val]) log_lsn_map []
                in m\<lparr>len_out := int (length keys), keys_vec := Some keys, values_vec := Some vals\<rparr>
           else m))"

definition checkpoint_store_update_lsn ::
    "string \<Rightarrow> u64 \<Rightarrow> u64 \<Rightarrow> nat \<Rightarrow> int \<Rightarrow> ckp_request" where
  "checkpoint_store_update_lsn customer_id logid lsn mvar cap =
     updateLSN customer_id logid lsn (status_callback cap mvar)"

definition checkpoint_store_update_multi_lsn ::
    "string \<Rightarrow> u64 list \<Rightarrow> u64 list \<Rightarrow> u64 \<Rightarrow> nat \<Rightarrow> int \<Rightarrow> ckp_request result" where
  "checkpoint_store_update_multi_lsn customer_id logids lsns len mvar cap =
     (case fill_map omap_put logids lsns (uint len) [] of
        Inl e \<Rightarrow> Inl e
      | Inr checkpoints \<Rightarrow> Inr (updateLSNs customer_id checkpoints (status_callback cap mvar)))"

text \<open>The loop of the next function reads \<open>*logids\<close> in every round and never moves the pointer.\<close>

definition push_logid :: "u64 list \<Rightarrow> nat \<Rightarrow> nat \<Rightarrow> u64 list \<Rightarrow> u64 list result" where
  "push_logid logids logid_offset i checkpoints =
     (case read_elem logids logid_offset of
        Inl e \<Rightarrow> Inl e
      | Inr l \<Rightarrow> Inr (checkpoints @ [l]))"

definition checkpoint_store_remove_checkpoints ::
    "string \<Rightarrow> u64 list \<Rightarrow> nat \<Rightarrow> int \<Rightarrow> nat \<Rightarrow> int \<Rightarrow> ckp_request result" where
  "checkpoint_store_remove_checkpoints customer_id logids logid_offset logid_len mvar cap =
     (case fold_result (push_logid logids logid_offset) [0..<nat logid_len] [] of
        Inl e \<Rightarrow> Inl e
      | Inr checkpoints \<Rightarrow>
          Inr (removeCheckpoints customer_id checkpoints (status_callback cap mvar)))"

definition checkpoint_store_remove_all_checkpoints :: "string \<Rightarrow> nat \<Rightarrow> int \<Rightarrow> ckp_request" where
  "checkpoint_store_remove_all_checkpoints customer_id mvar cap =
     removeAllCheckpoints customer_id (status_callback cap mvar)"

section \<open>LogDevice's store\<close>

text \<open>
  The methods of \<open>CheckpointStore\<close> on a store of type \<open>'s\<close>: their status and result, or the store
  they leave.
\<close>

record 's ckp_lib =
  lib_get :: "'s \<Rightarrow> string \<Rightarrow> u64 \<Rightarrow> status \<times> u64"
  lib_get_all :: "'s \<Rightarrow> string \<Rightarrow> status \<times> (u64 \<times> u64) list"
  lib_update_one :: "'s \<Rightarrow> string \<Rightarrow> u64 \<Rightarrow> u64 \<Rightarrow> status \<times> 's"
  lib_update :: "'s \<Rightarrow> string \<Rightarrow> (u64 \<times> u64) list \<Rightarrow> status \<times> 's"
  lib_remove :: "'s \<Rightarrow> string \<Rightarrow> u64 list \<Rightarrow> status \<times> 's"
  lib_remove_all :: "'s \<Rightarrow> string \<Rightarrow> status \<times> 's"
  lib_get_sync :: "'s \<Rightarrow> string \<Rightarrow> u64 \<Rightarrow> status \<times> u64"
  lib_update_one_sync :: "'s \<Rightarrow> string \<Rightarrow> u64 \<Rightarrow> u64 \<Rightarrow> status \<times> 's"
  lib_update_sync :: "'s \<Rightarrow> string \<Rightarrow> (u64 \<times> u64) list \<Rightarrow> status \<times> 's"

text \<open>Carrying out a request: the method, then its callback on the memory of the caller.\<close>

fun serve :: "'s ckp_lib \<Rightarrow> ckp_request \<Rightarrow> 's \<times> ckp_mem \<Rightarrow> 's \<times> ckp_mem" where
  "serve L (getLSN c l cb) (s, m) = (s, case lib_get L s c l of (st, lsn) \<Rightarrow> cb st lsn m)"
| "serve L (getAllCheckpoints c cb) (s, m) = (s, case lib_get_all L s c of (st, r) \<Rightarrow> cb st r m)"
| "serve L (updateLSN c l lsn cb) (s, m) =
     (case lib_update_one L s c l lsn of (st, s') \<Rightarrow> (s', cb st m))"
| "serve L (updateLSNs c ckps cb) (s, m) = (case lib_update L s c ckps of (st, s') \<Rightarrow> (s', cb st m))"
| "serve L (removeCheckpoints c ls cb) (s, m) = (case lib_remove L s c ls of (st, s') \<Rightarrow> (s', cb st m))"
| "serve L (removeAllCheckpoints c cb) (s, m) = (case lib_remove_all L s c of (st, s') \<Rightarrow> (s', cb st m))"

text \<open>The synchronous functions call the methods directly.\<close>

definition checkpoint_store_get_lsn_sync ::
    "'s ckp_lib \<Rightarrow> 's \<Rightarrow> string \<Rightarrow> u64 \<Rightarrow> status \<times> u64" where
  "checkpoint_store_get_lsn_sync L s customer_id logid = lib_get_sync L s customer_id logid"

definition checkpoint_store_update_lsn_sync ::
    "'s ckp_lib \<Rightarrow> 's \<Rightarrow> string \<Rightarrow> u64 \<Rightarrow> u64 \<Rightarrow> status \<times> 's" where
  "checkpoint_store_update_lsn_sync L s customer_id logid lsn =
     lib_update_one_sync L s customer_id logid lsn"

definition checkpoint_store_update_multi_lsn_sync ::
    "'s ckp_lib \<Rightarrow> 's \<Rightarrow> string \<Rightarrow> u64 list \<Rightarrow> u64 list \<Rightarrow> u64 \<Rightarrow> (status \<times> 's) result" where
  "checkpoint_store_update_multi_lsn_sync L s customer_id logids lsns len =
     (case fill_map omap_put logids lsns (uint len) [] of
        Inl e \<Rightarrow> Inl e
      | Inr checkpoints \<Rightarrow> Inr (lib_update_sync L s customer_id checkpoints))"

text \<open>
  What LogDevice documents, for the checkpoints \<open>C s c\<close> a store holds of a customer: a method that
  reports \<open>OK\<close> has merged, removed or returned the checkpoints of that customer and left the other
  customers alone; a list of all checkpoints is a \<open>std::map\<close>.
\<close>

definition ckp_lib_ok :: "'s ckp_lib \<Rightarrow> ('s \<Rightarrow> string \<Rightarrow> u64 \<rightharpoonup> u64) \<Rightarrow> bool" where
  "ckp_lib_ok L C \<longleftrightarrow>
     (\<forall>s c ckps s'. lib_update L s c ckps = (E_OK, s') \<longrightarrow> C s' = (C s)(c := C s c ++ map_of ckps)) \<and>
     (\<forall>s c ls s'. lib_remove L s c ls = (E_OK, s') \<longrightarrow> C s' = (C s)(c := (C s c) |` (- set ls))) \<and>
     (\<forall>s c r. lib_get_all L s c = (E_OK, r) \<longrightarrow> omap_wf r \<and> map_of r = C s c)"

section \<open>What the store holds after an operation\<close>

lemma collect_keys: "fold (\<lambda>(key, _) ks. ks @ [key]) m acc = acc @ map fst m"
  by (induction m arbitrary: acc) auto

lemma collect_values: "fold (\<lambda>(_, val) vs. vs @ [val]) m acc = acc @ map snd m"
  by (induction m arbitrary: acc) auto

lemma push_logids:
  assumes "off < length logids"
  shows "fold_result (push_logid logids off) [0..<n] [] = Inr (replicate n (logids ! off))"
  using assms
  by (induction n)
    (simp_all add: fold_result_append push_logid_def read_elem_def replicate_append_same)

lemmas serve_defs = status_callback_def hs_try_putmvar_def poke_out_def

text \<open>
  \<^bold>\<open>C20.\<close> Writing checkpoints and reading all of them back: if both requests report \<open>OK\<close>, the caller
  ends up with two vectors of the reported length, the log ids in ascending order and their
  sequence numbers, which together are the checkpoints the store had before overridden by those of
  the arrays, the last entry winning where a log occurs twice. Each request wakes the caller
  exactly once.
\<close>

theorem checkpoints_roundtrip:
  assumes lib: "ckp_lib_ok L C"
    and arrays: "unat len \<le> length logids" "unat len \<le> length lsns"
    and places: "st_out m \<noteq> None"
  shows "\<exists>req. checkpoint_store_update_multi_lsn c logids lsns len mvar cap = Inr req \<and>
     (\<forall>s1 m1 s2 m2.
        serve L req (s, m) = (s1, m1) \<and> st_out m1 = Some E_OK \<and>
        serve L (checkpoint_store_get_all_checkpoints c mvar' cap') (s1, m1) = (s2, m2) \<and>
        st_out m2 = Some E_OK \<longrightarrow>
        (\<exists>ks vs. keys_vec m2 = Some ks \<and> values_vec m2 = Some vs \<and>
           len_out m2 = int (length ks) \<and> length vs = length ks \<and> sorted_wrt (<) ks \<and>
           map_of (zip ks vs) =
             C s c ++ map_of (rev (zip (take (unat len) logids) (take (unat len) lsns)))) \<and>
        putmvars m2 = putmvars m @ [(cap, mvar), (cap', mvar')])"
proof -
  obtain ckps where f: "fill_map omap_put logids lsns (uint len) [] = Inr ckps"
    and look: "map_of ckps = map_of (rev (zip (take (unat len) logids) (take (unat len) lsns)))"
    using ordered.fill_lookup [of "uint len" logids lsns "[]"] arrays by auto
  show ?thesis
  proof (rule exI [of _ "updateLSNs c ckps (status_callback cap mvar)"], intro conjI allI impI)
    show "checkpoint_store_update_multi_lsn c logids lsns len mvar cap =
        Inr (updateLSNs c ckps (status_callback cap mvar))"
      by (simp add: checkpoint_store_update_multi_lsn_def f)
  next
    fix s1 m1 s2 m2
    assume "serve L (updateLSNs c ckps (status_callback cap mvar)) (s, m) = (s1, m1) \<and>
      st_out m1 = Some E_OK \<and>
      serve L (checkpoint_store_get_all_checkpoints c mvar' cap') (s1, m1) = (s2, m2) \<and>
      st_out m2 = Some E_OK"
    then have u: "lib_update L s c ckps = (E_OK, s1)"
        and m1: "m1 = m\<lparr>st_out := Some E_OK, putmvars := putmvars m @ [(cap, mvar)]\<rparr>"
        and g: "serve L (checkpoint_store_get_all_checkpoints c mvar' cap') (s1, m1) = (s2, m2)"
        and ok: "st_out m2 = Some E_OK"
      using places by (auto simp: serve_defs split: prod.splits)
    obtain r where r: "lib_get_all L s1 c = (E_OK, r)"
      using g ok m1
      by (auto simp: checkpoint_store_get_all_checkpoints_def serve_defs Let_def
          split: prod.splits if_splits)
    have m2: "m2 = m1\<lparr>st_out := Some E_OK, len_out := int (length r),
        keys_vec := Some (map fst r), values_vec := Some (map snd r),
        putmvars := putmvars m1 @ [(cap', mvar')]\<rparr>"
      using g r m1
      by (auto simp: checkpoint_store_get_all_checkpoints_def serve_defs Let_def
          collect_keys collect_values)
    have "omap_wf r" "map_of r = C s c ++ map_of ckps"
      using lib u r by (auto simp: ckp_lib_ok_def)
    then show "\<exists>ks vs. keys_vec m2 = Some ks \<and> values_vec m2 = Some vs \<and>
         len_out m2 = int (length ks) \<and> length vs = length ks \<and> sorted_wrt (<) ks \<and>
         map_of (zip ks vs) =
           C s c ++ map_of (rev (zip (take (unat len) logids) (take (unat len) lsns)))"
      using look m2 by (simp add: zip_map_fst_snd)
    show "putmvars m2 = putmvars m @ [(cap, mvar), (cap', mvar')]"
      using m1 m2 by simp
  qed
qed

text \<open>
  \<^bold>\<open>C21.\<close> Removing the checkpoints of several logs removes only that of the first: whatever log ids
  the caller lists from the offset on, a request that reports \<open>OK\<close> has removed the checkpoint of
  \<open>logids[logid_offset]\<close> and no other, since the loop pushes that id once per round.
\<close>

theorem remove_checkpoints_first_only:
  assumes lib: "ckp_lib_ok L C"
    and arrays: "0 < logid_len" "logid_offset + nat logid_len \<le> length logids"
  shows "\<exists>req. checkpoint_store_remove_checkpoints c logids logid_offset logid_len mvar cap = Inr req \<and>
     (\<forall>s1 m1. st_out m \<noteq> None \<and> serve L req (s, m) = (s1, m1) \<and> st_out m1 = Some E_OK \<longrightarrow>
        C s1 = (C s)(c := (C s c)(logids ! logid_offset := None)))"
proof -
  let ?ls = "replicate (nat logid_len) (logids ! logid_offset)"
  have "checkpoint_store_remove_checkpoints c logids logid_offset logid_len mvar cap =
      Inr (removeCheckpoints c ?ls (status_callback cap mvar))"
    using push_logids [of logid_offset logids "nat logid_len"] arrays
    by (simp add: checkpoint_store_remove_checkpoints_def)
  moreover have "C s1 = (C s)(c := (C s c)(logids ! logid_offset := None))"
    if "st_out m \<noteq> None" "serve L (removeCheckpoints c ?ls (status_callback cap mvar)) (s, m) = (s1, m1)"
      "st_out m1 = Some E_OK" for s1 m1
  proof -
    have "lib_remove L s c ?ls = (E_OK, s1)"
      using that by (auto simp: serve_defs split: prod.splits)
    moreover have "set ?ls = {logids ! logid_offset}" using arrays(1) by simp
    ultimately show ?thesis using lib
      by (auto simp: ckp_lib_ok_def restrict_map_def fun_eq_iff)
  qed
  ultimately show ?thesis by blast
qed

section \<open>A store in memory\<close>

text \<open>
  A store that keeps the checkpoints of every customer in an ordered map meets LogDevice's
  documentation; the properties are evaluated on it.
\<close>

definition mem_merge :: "(u64 \<times> u64) list \<Rightarrow> (u64 \<times> u64) list \<Rightarrow> (u64 \<times> u64) list" where
  "mem_merge ckps m = fold (\<lambda>(k, v). omap_put k v) (rev ckps) m"

definition mem_store :: "(string \<Rightarrow> (u64 \<times> u64) list) ckp_lib" where
  "mem_store = \<lparr>
     lib_get = \<lambda>s c l. case map_of (s c) l of None \<Rightarrow> (E_other 1, 0) | Some lsn \<Rightarrow> (E_OK, lsn),
     lib_get_all = \<lambda>s c. if omap_wf (s c) then (E_OK, s c) else (E_other 2, []),
     lib_update_one = \<lambda>s c l lsn. (E_OK, s(c := omap_put l lsn (s c))),
     lib_update = \<lambda>s c ckps.
       if omap_wf (s c) then (E_OK, s(c := mem_merge ckps (s c))) else (E_other 2, s),
     lib_remove = \<lambda>s c ls. (E_OK, s(c := filter (\<lambda>e. fst e \<notin> set ls) (s c))),
     lib_remove_all = \<lambda>s c. (E_OK, s(c := [])),
     lib_get_sync = \<lambda>s c l. case map_of (s c) l of None \<Rightarrow> (E_other 1, 0) | Some lsn \<Rightarrow> (E_OK, lsn),
     lib_update_one_sync = \<lambda>s c l lsn. (E_OK, s(c := omap_put l lsn (s c))),
     lib_update_sync = \<lambda>s c ckps. (E_OK, s(c := mem_merge ckps (s c)))\<rparr>"

lemma mem_merge_lookup: "omap_wf m \<Longrightarrow> map_of (mem_merge ckps m) = map_of m ++ map_of ckps"
proof -
  have "omap_wf m \<Longrightarrow> omap_wf (fold (\<lambda>(k, v). omap_put k v) (rev ckps) m) \<and>
      map_of (fold (\<lambda>(k, v). omap_put k v) (rev ckps) m) = map_of m ++ map_of ckps"
    by (induction ckps) (auto simp: omap_put_wf omap_put_lookup fun_eq_iff map_add_def)
  then show "omap_wf m \<Longrightarrow> map_of (mem_merge ckps m) = map_of m ++ map_of ckps"
    by (simp add: mem_merge_def)
qed

lemma map_of_filter_keys: "map_of (filter (\<lambda>e. fst e \<notin> K) m) = map_of m |` (- K)"
  by (induction m) (auto simp: fun_eq_iff restrict_map_def)

lemma lookup_customer_update:
  "(\<lambda>c'. map_of ((s(c := m)) c')) = (\<lambda>c'. map_of (s c'))(c := map_of m)"
  by (simp add: fun_eq_iff)

lemma mem_store_ok: "ckp_lib_ok mem_store (\<lambda>s c. map_of (s c))"
  by (auto simp: ckp_lib_ok_def mem_store_def mem_merge_lookup map_of_filter_keys
      lookup_customer_update simp del: fun_upd_apply split: if_splits)

definition sample_mem :: ckp_mem where
  "sample_mem = \<lparr>st_out = Some (E_other 9), value_out = None, len_out = 0, keys_vec = None,
     values_vec = None, putmvars = []\<rparr>"

theorem checkpoints_roundtrip_witness:
  "\<exists>req. checkpoint_store_update_multi_lsn ''c'' [3, 1, 3] [7, 8, 9] 3 5 0 = Inr req \<and>
     (\<forall>s1 m1 s2 m2.
        serve mem_store req (\<lambda>_. [], sample_mem) = (s1, m1) \<and> st_out m1 = Some E_OK \<and>
        serve mem_store (checkpoint_store_get_all_checkpoints ''c'' 6 0) (s1, m1) = (s2, m2) \<and>
        st_out m2 = Some E_OK \<longrightarrow> putmvars m2 = [(0, 5), (0, 6)])"
  using checkpoints_roundtrip [OF mem_store_ok, of 3 "[3, 1, 3]" "[7, 8, 9]" sample_mem
      "''c''" 5 0 "\<lambda>_. []" 6 0]
  by (auto simp: sample_mem_def)

theorem remove_checkpoints_first_only_witness:
  "\<exists>req. checkpoint_store_remove_checkpoints ''c'' [1, 2] 0 2 5 0 = Inr req \<and>
     (\<forall>s1 m1. serve mem_store req (\<lambda>_. [(1, 10), (2, 20)], sample_mem) = (s1, m1) \<and>
        st_out m1 = Some E_OK \<longrightarrow> map_of (s1 ''c'') 1 = None \<and> map_of (s1 ''c'') 2 = Some 20)"
  using remove_checkpoints_first_only [OF mem_store_ok, of 2 0 "[1, 2]" "''c''" 5 0 sample_mem
      "\<lambda>_. [(1, 10), (2, 20)]"]
  by (auto simp: sample_mem_def fun_eq_iff dest!: fun_cong [where x = "''c''"])

end
