(* ===== verification/Store_Attributes.thy ===== *)
theory Store_Attributes
  imports Store_Ffi
begin

text \<open>
  The attributes of a log (\<open>hs_log_attributes.cpp\<close> and the attribute functions of
  \<open>hs_logconfigtypes.cpp\<close>): building a \<open>LogAttributes\<close> object from the arguments Haskell passes and
  reading it back. The class \<open>LogAttributes\<close> is LogDevice's and a parameter.
\<close>

section \<open>LogDevice's attributes\<close>

text \<open>\<open>Attribute<T>\<close>: an optional value and whether it is inherited from the parent directory.\<close>

datatype 'v attribute = Attribute (val_of: "'v option") (isInherited: bool)

type_synonym scope = u8
type_synonym extras_map = "(string, string) umap"

text \<open>What the getters of a \<open>LogAttributes\<close> object return.\<close>

record log_attributes =
  replicationFactor :: "i32 attribute"
  syncedCopies :: "i32 attribute"
  maxWritesInFlight :: "i32 attribute"
  singleWriter :: "bool attribute"
  syncReplicationScope :: "scope attribute"
  replicateAcross :: "(scope \<times> i32) list attribute"
  backlogDuration :: "i64 option attribute"
  scdEnabled :: "bool attribute"
  localScdEnabled :: "bool attribute"
  stickyCopySets :: "bool attribute"
  extras :: "extras_map attribute"

text \<open>
  The class: the default constructor, the \<open>with_\<close> methods in the overloads the code uses, and the
  getters together.
\<close>

record 'a attrs_lib =
  LogAttributes :: 'a
  with_replicationFactor :: "i32 attribute \<Rightarrow> 'a \<Rightarrow> 'a"
  with_replicationFactor_value :: "i32 \<Rightarrow> 'a \<Rightarrow> 'a"
  with_syncedCopies :: "i32 attribute \<Rightarrow> 'a \<Rightarrow> 'a"
  with_maxWritesInFlight :: "i32 attribute \<Rightarrow> 'a \<Rightarrow> 'a"
  with_singleWriter :: "bool attribute \<Rightarrow> 'a \<Rightarrow> 'a"
  with_syncReplicationScope :: "scope attribute \<Rightarrow> 'a \<Rightarrow> 'a"
  with_replicateAcross_value :: "(scope \<times> i32) list \<Rightarrow> 'a \<Rightarrow> 'a"
  with_backlogDuration :: "i64 option attribute \<Rightarrow> 'a \<Rightarrow> 'a"
  with_backlogDuration_none :: "'a \<Rightarrow> 'a"
  with_scdEnabled :: "bool attribute \<Rightarrow> 'a \<Rightarrow> 'a"
  with_localScdEnabled :: "bool attribute \<Rightarrow> 'a \<Rightarrow> 'a"
  with_stickyCopySets :: "bool attribute \<Rightarrow> 'a \<Rightarrow> 'a"
  with_extras_value :: "extras_map \<Rightarrow> 'a \<Rightarrow> 'a"
  getters :: "'a \<Rightarrow> log_attributes"
  value_of_empty :: cpp_error   \<comment> \<open>what \<open>value()\<close> of an attribute without value does\<close>

section \<open>Building attributes\<close>

text \<open>The arguments of \<open>poke_log_attributes\<close>; a null pointer is \<^const>\<open>None\<close>.\<close>

record poke_args =
  replicationFactor_val :: "i32 option"
  replicationFactor_inh :: bool
  syncedCopies_val :: "i32 option"
  syncedCopies_inh :: bool
  maxWritesInFlight_val :: "i32 option"
  maxWritesInFlight_inh :: bool
  singleWriter_val :: "bool option"
  singleWriter_inh :: bool
  syncReplicationScope_val :: "scope option"
  syncReplicationScope_inh :: bool
  replicateAcross_len :: int
  replicateAcross_keys :: "scope list"
  replicateAcross_vals :: "i64 list"
  replicateAcross_inh :: bool
  backlogDuration_flag :: bool
  backlogDuration_val :: "i32 option"
  backlogDuration_inh :: bool
  scdEnabled_val :: "bool option"
  scdEnabled_inh :: bool
  localScdEnabled_val :: "bool option"
  localScdEnabled_inh :: bool
  stickyCopySets_val :: "bool option"
  stickyCopySets_inh :: bool
  extras_len :: int
  extras_keys :: "string list"
  extras_vals :: "string list"

text \<open>The macro \<open>ADD_ATTR\<close>.\<close>

definition ADD_ATTR :: "('v attribute \<Rightarrow> 'a \<Rightarrow> 'a) \<Rightarrow> 'v option \<Rightarrow> bool \<Rightarrow> 'a \<Rightarrow> 'a" where
  "ADD_ATTR with_x x_val x_inh attrs =
     (case x_val of None \<Rightarrow> attrs | Some v \<Rightarrow> with_x (Attribute (Some v) x_inh) attrs)"

text \<open>The macro \<open>ADD_MAYBE_ATTR\<close>; \<open>f\<close> converts the value.\<close>

definition ADD_MAYBE_ATTR ::
    "('t option attribute \<Rightarrow> 'a \<Rightarrow> 'a) \<Rightarrow> ('a \<Rightarrow> 'a) \<Rightarrow> ('v \<Rightarrow> 't) \<Rightarrow> bool \<Rightarrow> 'v option \<Rightarrow> bool
       \<Rightarrow> 'a \<Rightarrow> 'a" where
  "ADD_MAYBE_ATTR with_x with_x_none f x_flag x_val x_inh attrs =
     (if x_flag
      then (case x_val of
              Some v \<Rightarrow> with_x (Attribute (Some (Some (f v))) x_inh) attrs
            | None \<Rightarrow> with_x_none attrs)
      else attrs)"

text \<open>\<open>rs.emplace_back(replicateAcross_keys[i], (int)replicateAcross_vals[i])\<close>.\<close>

definition emplace_scope ::
    "scope list \<Rightarrow> i64 list \<Rightarrow> nat \<Rightarrow> (scope \<times> i32) list \<Rightarrow> (scope \<times> i32) list result" where
  "emplace_scope keys vals i rs =
     (case read_elem keys i of
        Inl e \<Rightarrow> Inl e
      | Inr k \<Rightarrow>
          (case read_elem vals i of
             Inl e \<Rightarrow> Inl e
           | Inr v \<Rightarrow> Inr (rs @ [(k, ucast v)])))"

text \<open>\<open>extras[(char*)(keys[i]->payload)] = (char*)(vals[i]->payload)\<close>.\<close>

definition put_extra :: "string list \<Rightarrow> string list \<Rightarrow> nat \<Rightarrow> extras_map \<Rightarrow> extras_map result" where
  "put_extra keys vals i m =
     (case read_str keys i of
        Inl e \<Rightarrow> Inl e
      | Inr k \<Rightarrow>
          (case read_str vals i of
             Inl e \<Rightarrow> Inl e
           | Inr v \<Rightarrow> Inr (umap_put k v m)))"

definition put_extras :: "string list \<Rightarrow> string list \<Rightarrow> int \<Rightarrow> extras_map \<Rightarrow> extras_map result" where
  "put_extras keys vals len m = fold_result (put_extra keys vals) [0..<nat len] m"

definition add_replicateAcross :: "'a attrs_lib \<Rightarrow> poke_args \<Rightarrow> 'a \<Rightarrow> 'a result" where
  "add_replicateAcross L p attrs =
     (if replicateAcross_len p > 0
      then (case fold_result (emplace_scope (replicateAcross_keys p) (replicateAcross_vals p))
                   [0..<nat (replicateAcross_len p)] [] of
              Inl e \<Rightarrow> Inl e
            | Inr rs \<Rightarrow> Inr (with_replicateAcross_value L rs attrs))
      else Inr attrs)"

definition add_extras :: "'a attrs_lib \<Rightarrow> int \<Rightarrow> string list \<Rightarrow> string list \<Rightarrow> 'a \<Rightarrow> 'a result" where
  "add_extras L len keys vals attrs =
     (if len > 0
      then (case put_extras keys vals len [] of
              Inl e \<Rightarrow> Inl e
            | Inr es \<Rightarrow> Inr (with_extras_value L es attrs))
      else Inr attrs)"

definition poke_log_attributes :: "'a attrs_lib \<Rightarrow> poke_args \<Rightarrow> 'a result" where
  "poke_log_attributes L p =
     (let attrs = LogAttributes L;
          attrs = ADD_ATTR (with_replicationFactor L) (replicationFactor_val p) (replicationFactor_inh p) attrs;
          attrs = ADD_ATTR (with_syncedCopies L) (syncedCopies_val p) (syncedCopies_inh p) attrs;
          attrs = ADD_ATTR (with_maxWritesInFlight L) (maxWritesInFlight_val p) (maxWritesInFlight_inh p) attrs;
          attrs = ADD_ATTR (with_singleWriter L) (singleWriter_val p) (singleWriter_inh p) attrs;
          attrs = ADD_ATTR (with_syncReplicationScope L) (syncReplicationScope_val p)
                    (syncReplicationScope_inh p) attrs
      in case add_replicateAcross L p attrs of
           Inl e \<Rightarrow> Inl e
         | Inr attrs \<Rightarrow>
             let attrs = ADD_MAYBE_ATTR (with_backlogDuration L) (with_backlogDuration_none L) scast
                           (backlogDuration_flag p) (backlogDuration_val p) (backlogDuration_inh p) attrs;
                 attrs = ADD_ATTR (with_scdEnabled L) (scdEnabled_val p) (scdEnabled_inh p) attrs;
                 attrs = ADD_ATTR (with_localScdEnabled L) (localScdEnabled_val p)
                           (localScdEnabled_inh p) attrs;
                 attrs = ADD_ATTR (with_stickyCopySets L) (stickyCopySets_val p)
                           (stickyCopySets_inh p) attrs
             in add_extras L (extras_len p) (extras_keys p) (extras_vals p) attrs)"

definition new_log_attributes ::
    "'a attrs_lib \<Rightarrow> i32 \<Rightarrow> int \<Rightarrow> string list \<Rightarrow> string list \<Rightarrow> 'a result" where
  "new_log_attributes L factor len keys vals =
     add_extras L len keys vals (with_replicationFactor_value L factor (LogAttributes L))"

section \<open>Reading attributes\<close>

text \<open>The places \<open>PEEK\<close> and \<open>PEEK_MAYBE\<close> write to.\<close>

record 'b peek_out =
  po_flag :: bool
  po_val :: 'b
  po_inh :: bool

record 'b peek_maybe_out = "'b peek_out" +
  po_val_flag :: bool

record peek_mem =
  replicationFactor_out :: "i64 peek_out"
  syncedCopies_out :: "i64 peek_out"
  maxWritesInFlight_out :: "i64 peek_out"
  singleWriter_out :: "bool peek_out"
  syncReplicationScope_out :: "scope peek_out"
  replicateAcross_keys_out :: "scope list"
  replicateAcross_vals_out :: "i64 list"
  replicateAcross_inh_out :: bool
  backlogDuration_out :: "i64 peek_maybe_out"
  scdEnabled_out :: "bool peek_out"
  localScdEnabled_out :: "bool peek_out"
  stickyCopySets_out :: "bool peek_out"

definition PEEK :: "('v \<Rightarrow> 'b) \<Rightarrow> 'v attribute \<Rightarrow> 'b peek_out \<Rightarrow> 'b peek_out" where
  "PEEK f x out =
     (let out = out\<lparr>po_flag := (val_of x \<noteq> None), po_inh := isInherited x\<rparr>
      in case val_of x of None \<Rightarrow> out | Some v \<Rightarrow> out\<lparr>po_val := f v\<rparr>)"

definition PEEK_MAYBE :: "'b option attribute \<Rightarrow> 'b peek_maybe_out \<Rightarrow> 'b peek_maybe_out" where
  "PEEK_MAYBE x out =
     (let out = out\<lparr>po_flag := (val_of x \<noteq> None), po_inh := isInherited x\<rparr>
      in case val_of x of
           None \<Rightarrow> out
         | Some val \<Rightarrow>
             let out = out\<lparr>po_val_flag := (val \<noteq> None)\<rparr>
             in case val of None \<Rightarrow> out | Some v \<Rightarrow> out\<lparr>po_val := v\<rparr>)"

definition write_elem :: "'a list \<Rightarrow> nat \<Rightarrow> 'a \<Rightarrow> 'a list result" where
  "write_elem xs i v = (if i < length xs then Inr (xs[i := v]) else Inl out_of_bounds)"

definition peek_scope ::
    "(scope \<times> i32) list \<Rightarrow> nat \<Rightarrow> scope list \<times> i64 list \<Rightarrow> (scope list \<times> i64 list) result" where
  "peek_scope val i out =
     (case read_elem val i of
        Inl e \<Rightarrow> Inl e
      | Inr v \<Rightarrow>
          (case write_elem (fst out) i (fst v) of
             Inl e \<Rightarrow> Inl e
           | Inr keys \<Rightarrow>
               (case write_elem (snd out) i (scast (snd v)) of
                  Inl e \<Rightarrow> Inl e
                | Inr vals \<Rightarrow> Inr (keys, vals))))"

definition PEEK_LIST_PAIR ::
    "(scope \<times> i32) list attribute \<Rightarrow> int \<Rightarrow> scope list \<times> i64 list \<Rightarrow> (scope list \<times> i64 list) result" where
  "PEEK_LIST_PAIR x len out =
     (case val_of x of
        Some val \<Rightarrow> if len > 0 then fold_result (peek_scope val) [0..<nat len] out else Inr out
      | None \<Rightarrow> Inr out)"

definition peek_log_attributes ::
    "'a attrs_lib \<Rightarrow> 'a \<Rightarrow> int \<Rightarrow> peek_mem \<Rightarrow> peek_mem result" where
  "peek_log_attributes L attrs len m =
     (let g = getters L attrs in
      case PEEK_LIST_PAIR (replicateAcross g) len
             (replicateAcross_keys_out m, replicateAcross_vals_out m) of
        Inl e \<Rightarrow> Inl e
      | Inr (keys, vals) \<Rightarrow> Inr \<lparr>
          replicationFactor_out = PEEK scast (replicationFactor g) (replicationFactor_out m),
          syncedCopies_out = PEEK scast (syncedCopies g) (syncedCopies_out m),
          maxWritesInFlight_out = PEEK scast (maxWritesInFlight g) (maxWritesInFlight_out m),
          singleWriter_out = PEEK id (singleWriter g) (singleWriter_out m),
          syncReplicationScope_out = PEEK id (syncReplicationScope g) (syncReplicationScope_out m),
          replicateAcross_keys_out = keys,
          replicateAcross_vals_out = vals,
          replicateAcross_inh_out = isInherited (replicateAcross g),
          backlogDuration_out = PEEK_MAYBE (backlogDuration g) (backlogDuration_out m),
          scdEnabled_out = PEEK id (scdEnabled g) (scdEnabled_out m),
          localScdEnabled_out = PEEK id (localScdEnabled g) (localScdEnabled_out m),
          stickyCopySets_out = PEEK id (stickyCopySets g) (stickyCopySets_out m)\<rparr>)"

text \<open>\<open>peek_log_attributes_extras\<close> and \<open>get_attribute_extras\<close>: the vectors of keys and of values.\<close>

definition peek_log_attributes_extras :: "'a attrs_lib \<Rightarrow> 'a \<Rightarrow> string list \<times> string list" where
  "peek_log_attributes_extras L attrs =
     (case val_of (extras (getters L attrs)) of
        None \<Rightarrow> ([], [])
      | Some es \<Rightarrow> (map fst es, map snd es))"

definition get_attribute_extras :: "'a attrs_lib \<Rightarrow> 'a \<Rightarrow> string list \<times> string list" where
  "get_attribute_extras L attrs =
     (case val_of (extras (getters L attrs)) of
        None \<Rightarrow> ([], [])
      | Some es \<Rightarrow> (map fst es, map snd es))"

definition get_replicateAcross_size :: "'a attrs_lib \<Rightarrow> 'a \<Rightarrow> int" where
  "get_replicateAcross_size L attrs =
     (case val_of (replicateAcross (getters L attrs)) of
        Some rs \<Rightarrow> int (length rs)
      | None \<Rightarrow> -1)"

definition get_replication_factor :: "'a attrs_lib \<Rightarrow> 'a \<Rightarrow> i32 result" where
  "get_replication_factor L attrs =
     (case val_of (replicationFactor (getters L attrs)) of
        Some f \<Rightarrow> Inr f
      | None \<Rightarrow> Inl (value_of_empty L))"

section \<open>Extras\<close>

definition exist_log_attrs_extras :: "'a attrs_lib \<Rightarrow> 'a option \<Rightarrow> string \<Rightarrow> bool" where
  "exist_log_attrs_extras L attrs key =
     (case attrs of
        Some a \<Rightarrow>
          (case val_of (extras (getters L a)) of
             Some es \<Rightarrow> map_of es key \<noteq> None
           | None \<Rightarrow> False)
      | None \<Rightarrow> False)"

text \<open>\<open>extras[key]\<close> of a copy of the map: a missing key gives the empty string.\<close>

definition get_log_attrs_extra :: "'a attrs_lib \<Rightarrow> 'a \<Rightarrow> string \<Rightarrow> string result" where
  "get_log_attrs_extra L attrs key =
     (case val_of (extras (getters L attrs)) of
        None \<Rightarrow> Inl (value_of_empty L)
      | Some es \<Rightarrow> Inr (case map_of es key of Some v \<Rightarrow> v | None \<Rightarrow> []))"

definition update_log_attrs_extras ::
    "'a attrs_lib \<Rightarrow> 'a \<Rightarrow> int \<Rightarrow> string list \<Rightarrow> string list \<Rightarrow> 'a result" where
  "update_log_attrs_extras L attrs len keys vals =
     (let es = (case val_of (extras (getters L attrs)) of Some es \<Rightarrow> es | None \<Rightarrow> []) in
      case (if len > 0 then put_extras keys vals len es else Inr es) of
        Inl e \<Rightarrow> Inl e
      | Inr es \<Rightarrow> Inr (with_extras_value L es attrs))"

section \<open>What LogDevice documents\<close>

text \<open>
  A default object has no values; a \<open>with_\<close> method sets its attribute and keeps the others. Given a
  plain value instead of an \<open>Attribute\<close>, it sets that value; which inherited flag it then has is left
  open.
\<close>

definition no_values :: "log_attributes \<Rightarrow> bool" where
  "no_values g \<longleftrightarrow>
     val_of (replicationFactor g) = None \<and> val_of (syncedCopies g) = None \<and>
     val_of (maxWritesInFlight g) = None \<and> val_of (singleWriter g) = None \<and>
     val_of (syncReplicationScope g) = None \<and> val_of (replicateAcross g) = None \<and>
     val_of (backlogDuration g) = None \<and> val_of (scdEnabled g) = None \<and>
     val_of (localScdEnabled g) = None \<and> val_of (stickyCopySets g) = None \<and> val_of (extras g) = None"

definition attrs_lib_ok :: "'a attrs_lib \<Rightarrow> bool" where
  "attrs_lib_ok L \<longleftrightarrow> no_values (getters L (LogAttributes L)) \<and>
     (\<forall>v a. getters L (with_replicationFactor L v a) = (getters L a)\<lparr>replicationFactor := v\<rparr>) \<and>
     (\<forall>v a. getters L (with_syncedCopies L v a) = (getters L a)\<lparr>syncedCopies := v\<rparr>) \<and>
     (\<forall>v a. getters L (with_maxWritesInFlight L v a) = (getters L a)\<lparr>maxWritesInFlight := v\<rparr>) \<and>
     (\<forall>v a. getters L (with_singleWriter L v a) = (getters L a)\<lparr>singleWriter := v\<rparr>) \<and>
     (\<forall>v a. getters L (with_syncReplicationScope L v a) = (getters L a)\<lparr>syncReplicationScope := v\<rparr>) \<and>
     (\<forall>v a. getters L (with_backlogDuration L v a) = (getters L a)\<lparr>backlogDuration := v\<rparr>) \<and>
     (\<forall>v a. getters L (with_scdEnabled L v a) = (getters L a)\<lparr>scdEnabled := v\<rparr>) \<and>
     (\<forall>v a. getters L (with_localScdEnabled L v a) = (getters L a)\<lparr>localScdEnabled := v\<rparr>) \<and>
     (\<forall>v a. getters L (with_stickyCopySets L v a) = (getters L a)\<lparr>stickyCopySets := v\<rparr>) \<and>
     (\<forall>f a. \<exists>b. getters L (with_replicationFactor_value L f a) =
        (getters L a)\<lparr>replicationFactor := Attribute (Some f) b\<rparr>) \<and>
     (\<forall>rs a. \<exists>b. getters L (with_replicateAcross_value L rs a) =
        (getters L a)\<lparr>replicateAcross := Attribute (Some rs) b\<rparr>) \<and>
     (\<forall>a. \<exists>x. getters L (with_backlogDuration_none L a) = (getters L a)\<lparr>backlogDuration := x\<rparr>) \<and>
     (\<forall>es a. \<exists>b. getters L (with_extras_value L es a) = (getters L a)\<lparr>extras := Attribute (Some es) b\<rparr>)"

section \<open>Building and reading back\<close>

definition added :: "'v option \<Rightarrow> bool \<Rightarrow> 'v attribute \<Rightarrow> 'v attribute" where
  "added v b old = (case v of None \<Rightarrow> old | Some x \<Rightarrow> Attribute (Some x) b)"

lemma ADD_ATTR_getters:
  assumes "attrs_lib_ok L"
  shows "getters L (ADD_ATTR (with_replicationFactor L) v0 b a) =
      (getters L a)\<lparr>replicationFactor := added v0 b (replicationFactor (getters L a))\<rparr>"
    and "getters L (ADD_ATTR (with_syncedCopies L) v1 b a) =
      (getters L a)\<lparr>syncedCopies := added v1 b (syncedCopies (getters L a))\<rparr>"
    and "getters L (ADD_ATTR (with_maxWritesInFlight L) v2 b a) =
      (getters L a)\<lparr>maxWritesInFlight := added v2 b (maxWritesInFlight (getters L a))\<rparr>"
    and "getters L (ADD_ATTR (with_singleWriter L) v3 b a) =
      (getters L a)\<lparr>singleWriter := added v3 b (singleWriter (getters L a))\<rparr>"
    and "getters L (ADD_ATTR (with_syncReplicationScope L) v4 b a) =
      (getters L a)\<lparr>syncReplicationScope := added v4 b (syncReplicationScope (getters L a))\<rparr>"
    and "getters L (ADD_ATTR (with_scdEnabled L) v5 b a) =
      (getters L a)\<lparr>scdEnabled := added v5 b (scdEnabled (getters L a))\<rparr>"
    and "getters L (ADD_ATTR (with_localScdEnabled L) v6 b a) =
      (getters L a)\<lparr>localScdEnabled := added v6 b (localScdEnabled (getters L a))\<rparr>"
    and "getters L (ADD_ATTR (with_stickyCopySets L) v7 b a) =
      (getters L a)\<lparr>stickyCopySets := added v7 b (stickyCopySets (getters L a))\<rparr>"
  using assms by (auto simp: ADD_ATTR_def added_def attrs_lib_ok_def split: option.splits)

lemma attrs_lib_plain_values:
  assumes "attrs_lib_ok L"
  shows "\<exists>b. getters L (with_replicateAcross_value L rs a) =
      (getters L a)\<lparr>replicateAcross := Attribute (Some rs) b\<rparr>"
    and "\<exists>x. getters L (with_backlogDuration_none L a) = (getters L a)\<lparr>backlogDuration := x\<rparr>"
    and "\<exists>b. getters L (with_extras_value L es a) = (getters L a)\<lparr>extras := Attribute (Some es) b\<rparr>"
  using assms by (simp_all add: attrs_lib_ok_def)

lemma ADD_MAYBE_ATTR_getters:
  assumes "attrs_lib_ok L"
  obtains x where
    "getters L (ADD_MAYBE_ATTR (with_backlogDuration L) (with_backlogDuration_none L) f flag v b a) =
       (getters L a)\<lparr>backlogDuration := x\<rparr>"
    "\<And>y. flag \<Longrightarrow> v = Some y \<Longrightarrow> x = Attribute (Some (Some (f y))) b"
    "\<not> flag \<Longrightarrow> x = backlogDuration (getters L a)"
proof -
  have set: "getters L (with_backlogDuration L y a) = (getters L a)\<lparr>backlogDuration := y\<rparr>" for y
    using assms by (simp add: attrs_lib_ok_def)
  obtain x where none: "getters L (with_backlogDuration_none L a) = (getters L a)\<lparr>backlogDuration := x\<rparr>"
    using attrs_lib_plain_values(2) [OF assms] by (rule exE)
  let ?x = "if flag then (case v of Some y \<Rightarrow> Attribute (Some (Some (f y))) b | None \<Rightarrow> x)
            else backlogDuration (getters L a)"
  show ?thesis
  proof (rule that [of ?x])
    show "getters L (ADD_MAYBE_ATTR (with_backlogDuration L) (with_backlogDuration_none L) f flag v b a) =
        (getters L a)\<lparr>backlogDuration := ?x\<rparr>"
      by (cases v) (simp_all add: ADD_MAYBE_ATTR_def set none)
  qed simp_all
qed

lemma emplace_scopes:
  "n \<le> length keys \<Longrightarrow> n \<le> length vals \<Longrightarrow>
   fold_result (emplace_scope keys vals) [0..<n] [] =
     Inr (zip (take n keys) (map ucast (take n vals)))"
proof (induction n)
  case 0
  then show ?case by simp
next
  case (Suc n)
  then show ?case
    by (simp add: fold_result_append emplace_scope_def read_elem_def take_Suc_conv_app_nth)
qed

lemma peek_scopes:
  "n \<le> length val \<Longrightarrow> n \<le> length ks \<Longrightarrow> n \<le> length vs \<Longrightarrow>
   fold_result (peek_scope val) [0..<n] (ks, vs) =
     Inr (map fst (take n val) @ drop n ks, map (scast \<circ> snd) (take n val) @ drop n vs)"
proof (induction n)
  case 0
  then show ?case by simp
next
  case (Suc n)
  then have n: "n < length val" "n < length ks" "n < length vs" by auto
  have upd: "n < length xs \<Longrightarrow> length ys = n \<Longrightarrow> (ys @ drop n xs)[n := v] = ys @ v # drop (Suc n) xs"
    for xs ys and v :: 'z by (metis Cons_nth_drop_Suc list_update_length)
  show ?case
    using Suc.IH n
    by (simp add: fold_result_append peek_scope_def read_elem_def write_elem_def upd
        take_Suc_conv_app_nth)
qed

abbreviation terminated :: "int \<Rightarrow> string list \<Rightarrow> bool" where
  "terminated len xs \<equiv> nat len \<le> length xs \<and> list_all (\<lambda>b. CHR 0x00 \<in> set b) (take (nat len) xs)"

lemma fold_result_cong:
  "(\<And>x a. x \<in> set xs \<Longrightarrow> f x a = g x a) \<Longrightarrow> fold_result f xs a = fold_result g xs a"
  by (induction xs arbitrary: a) (auto split: sum.splits)

lemma put_extras_lookup:
  assumes "terminated len keys" "terminated len vals" "umap_wf m"
  obtains m' where "put_extras keys vals len m = Inr m'" "umap_wf m'"
    "map_of m' = map_of m ++
       map_of (rev (zip (map until_nul (take (nat len) keys)) (map until_nul (take (nat len) vals))))"
proof -
  have str: "read_str xs i = read_elem (map until_nul xs) i" if "terminated len xs" "i < nat len" for xs i
    using that by (auto simp: read_str_def read_elem_def c_str_def list_all_length)
  have "put_extras keys vals len m = fill_map umap_put (map until_nul keys) (map until_nul vals) len m"
    unfolding put_extras_def fill_map_def
    by (rule fold_result_cong)
      (simp add: put_extra_def put_pair_def str [OF assms(1)] str [OF assms(2)] split: sum.split)
  then show ?thesis
    using hashed.fill_lookup [of len "map until_nul keys" "map until_nul vals" m] assms that
    by (auto simp: take_map)
qed

lemma add_extras_getters:
  assumes lib: "attrs_lib_ok L" and "terminated len keys" "terminated len vals"
  obtains a' x where "add_extras L len keys vals a = Inr a'" "getters L a' = (getters L a)\<lparr>extras := x\<rparr>"
    "len \<le> 0 \<Longrightarrow> x = extras (getters L a)"
    "0 < len \<Longrightarrow> \<exists>es. val_of x = Some es \<and> umap_wf es \<and> map_of es =
       map_of (rev (zip (map until_nul (take (nat len) keys)) (map until_nul (take (nat len) vals))))"
proof (cases "0 < len")
  case True
  obtain es where es: "put_extras keys vals len [] = Inr es" "umap_wf es"
      "map_of es = map_of (rev (zip (map until_nul (take (nat len) keys)) (map until_nul (take (nat len) vals))))"
    using put_extras_lookup [OF assms(2,3), of "[]"] by auto
  obtain b where "getters L (with_extras_value L es a) = (getters L a)\<lparr>extras := Attribute (Some es) b\<rparr>"
    using attrs_lib_plain_values(3) [OF lib] by (rule exE)
  then show ?thesis
    using that [of "with_extras_value L es a" "Attribute (Some es) b"] True es by (simp add: add_extras_def)
next
  case False
  then show ?thesis using that [of a "extras (getters L a)"] by (simp add: add_extras_def)
qed

lemma add_replicateAcross_getters:
  assumes lib: "attrs_lib_ok L"
    and "nat (replicateAcross_len p) \<le> length (replicateAcross_keys p)"
    and "nat (replicateAcross_len p) \<le> length (replicateAcross_vals p)"
  obtains a' x where "add_replicateAcross L p a = Inr a'"
    "getters L a' = (getters L a)\<lparr>replicateAcross := x\<rparr>"
    "replicateAcross_len p \<le> 0 \<Longrightarrow> x = replicateAcross (getters L a)"
    "0 < replicateAcross_len p \<Longrightarrow> val_of x =
       Some (zip (take (nat (replicateAcross_len p)) (replicateAcross_keys p))
              (map ucast (take (nat (replicateAcross_len p)) (replicateAcross_vals p))))"
proof (cases "0 < replicateAcross_len p")
  case True
  let ?rs = "zip (take (nat (replicateAcross_len p)) (replicateAcross_keys p))
              (map ucast (take (nat (replicateAcross_len p)) (replicateAcross_vals p)))"
  obtain b where "getters L (with_replicateAcross_value L ?rs a) =
      (getters L a)\<lparr>replicateAcross := Attribute (Some ?rs) b\<rparr>"
    using attrs_lib_plain_values(1) [OF lib] by (rule exE)
  then show ?thesis
    using that [of "with_replicateAcross_value L ?rs a" "Attribute (Some ?rs) b"] True
      emplace_scopes [OF assms(2,3)]
    by (simp add: add_replicateAcross_def)
next
  case False
  then show ?thesis
    using that [of a "replicateAcross (getters L a)"] by (simp add: add_replicateAcross_def)
qed

text \<open>The object that \<open>poke_log_attributes\<close> builds, attribute by attribute.\<close>

definition set_as :: "'v option \<Rightarrow> bool \<Rightarrow> 'v attribute \<Rightarrow> bool" where
  "set_as v b x \<longleftrightarrow> (case v of None \<Rightarrow> val_of x = None | Some y \<Rightarrow> x = Attribute (Some y) b)"

definition scope_pairs :: "poke_args \<Rightarrow> (scope \<times> i32) list" where
  "scope_pairs p = zip (take (nat (replicateAcross_len p)) (replicateAcross_keys p))
     (map ucast (take (nat (replicateAcross_len p)) (replicateAcross_vals p)))"

definition extra_pairs :: "poke_args \<Rightarrow> (string \<times> string) list" where
  "extra_pairs p = zip (map until_nul (take (nat (extras_len p)) (extras_keys p)))
     (map until_nul (take (nat (extras_len p)) (extras_vals p)))"

definition poked :: "poke_args \<Rightarrow> log_attributes \<Rightarrow> bool" where
  "poked p g \<longleftrightarrow>
     set_as (replicationFactor_val p) (replicationFactor_inh p) (replicationFactor g) \<and>
     set_as (syncedCopies_val p) (syncedCopies_inh p) (syncedCopies g) \<and>
     set_as (maxWritesInFlight_val p) (maxWritesInFlight_inh p) (maxWritesInFlight g) \<and>
     set_as (singleWriter_val p) (singleWriter_inh p) (singleWriter g) \<and>
     set_as (syncReplicationScope_val p) (syncReplicationScope_inh p) (syncReplicationScope g) \<and>
     set_as (scdEnabled_val p) (scdEnabled_inh p) (scdEnabled g) \<and>
     set_as (localScdEnabled_val p) (localScdEnabled_inh p) (localScdEnabled g) \<and>
     set_as (stickyCopySets_val p) (stickyCopySets_inh p) (stickyCopySets g) \<and>
     val_of (replicateAcross g) = (if 0 < replicateAcross_len p then Some (scope_pairs p) else None) \<and>
     (if backlogDuration_flag p
      then (case backlogDuration_val p of
              None \<Rightarrow> True
            | Some v \<Rightarrow> backlogDuration g = Attribute (Some (Some (scast v))) (backlogDuration_inh p))
      else val_of (backlogDuration g) = None) \<and>
     (case val_of (extras g) of
        None \<Rightarrow> extras_len p \<le> 0
      | Some es \<Rightarrow> umap_wf es \<and> map_of es = map_of (rev (extra_pairs p)))"

lemma set_as_added: "val_of d = None \<Longrightarrow> set_as v b (added v b d)"
  by (cases v) (simp_all add: set_as_def added_def)

lemma poke_getters:
  assumes lib: "attrs_lib_ok L"
    and ra: "nat (replicateAcross_len p) \<le> length (replicateAcross_keys p)"
      "nat (replicateAcross_len p) \<le> length (replicateAcross_vals p)"
    and ex: "terminated (extras_len p) (extras_keys p)" "terminated (extras_len p) (extras_vals p)"
  shows "\<exists>a. poke_log_attributes L p = Inr a \<and> poked p (getters L a)"
proof -
  define d where "d = getters L (LogAttributes L)"
  have d: "no_values d" using lib by (simp add: d_def attrs_lib_ok_def)
  define a1 where "a1 = ADD_ATTR (with_syncReplicationScope L) (syncReplicationScope_val p) (syncReplicationScope_inh p)
    (ADD_ATTR (with_singleWriter L) (singleWriter_val p) (singleWriter_inh p)
    (ADD_ATTR (with_maxWritesInFlight L) (maxWritesInFlight_val p) (maxWritesInFlight_inh p)
    (ADD_ATTR (with_syncedCopies L) (syncedCopies_val p) (syncedCopies_inh p)
    (ADD_ATTR (with_replicationFactor L) (replicationFactor_val p) (replicationFactor_inh p) (LogAttributes L)))))"
  have a1: "getters L a1 = d\<lparr>replicationFactor := added (replicationFactor_val p) (replicationFactor_inh p) (replicationFactor d),
      syncedCopies := added (syncedCopies_val p) (syncedCopies_inh p) (syncedCopies d),
      maxWritesInFlight := added (maxWritesInFlight_val p) (maxWritesInFlight_inh p) (maxWritesInFlight d),
      singleWriter := added (singleWriter_val p) (singleWriter_inh p) (singleWriter d),
      syncReplicationScope := added (syncReplicationScope_val p) (syncReplicationScope_inh p) (syncReplicationScope d)\<rparr>"
    by (simp add: a1_def ADD_ATTR_getters [OF lib] d_def)
  obtain a2 x2 where a2: "add_replicateAcross L p a1 = Inr a2" "getters L a2 = (getters L a1)\<lparr>replicateAcross := x2\<rparr>"
    and x2: "replicateAcross_len p \<le> 0 \<Longrightarrow> x2 = replicateAcross (getters L a1)"
      "0 < replicateAcross_len p \<Longrightarrow> val_of x2 =
       Some (zip (take (nat (replicateAcross_len p)) (replicateAcross_keys p))
              (map ucast (take (nat (replicateAcross_len p)) (replicateAcross_vals p))))"
    by (rule add_replicateAcross_getters [OF lib ra, where a = a1]) (rule that)
  define a3 where "a3 = ADD_MAYBE_ATTR (with_backlogDuration L) (with_backlogDuration_none L) scast
    (backlogDuration_flag p) (backlogDuration_val p) (backlogDuration_inh p) a2"
  obtain x3 where a3: "getters L a3 = (getters L a2)\<lparr>backlogDuration := x3\<rparr>"
    and x3: "\<And>y. backlogDuration_flag p \<Longrightarrow> backlogDuration_val p = Some y \<Longrightarrow>
        x3 = Attribute (Some (Some (scast y))) (backlogDuration_inh p)"
      "\<not> backlogDuration_flag p \<Longrightarrow> x3 = backlogDuration (getters L a2)"
    by (rule ADD_MAYBE_ATTR_getters [OF lib, where f = scast and flag = "backlogDuration_flag p"
          and v = "backlogDuration_val p" and b = "backlogDuration_inh p" and a = a2, folded a3_def])
      (rule that)
  define a4 where "a4 = ADD_ATTR (with_stickyCopySets L) (stickyCopySets_val p) (stickyCopySets_inh p)
    (ADD_ATTR (with_localScdEnabled L) (localScdEnabled_val p) (localScdEnabled_inh p)
    (ADD_ATTR (with_scdEnabled L) (scdEnabled_val p) (scdEnabled_inh p) a3))"
  have a4: "getters L a4 = (getters L a3)\<lparr>scdEnabled := added (scdEnabled_val p) (scdEnabled_inh p) (scdEnabled (getters L a3)),
      localScdEnabled := added (localScdEnabled_val p) (localScdEnabled_inh p) (localScdEnabled (getters L a3)),
      stickyCopySets := added (stickyCopySets_val p) (stickyCopySets_inh p) (stickyCopySets (getters L a3))\<rparr>"
    by (simp add: a4_def ADD_ATTR_getters [OF lib])
  obtain a5 x5 where a5: "add_extras L (extras_len p) (extras_keys p) (extras_vals p) a4 = Inr a5"
      "getters L a5 = (getters L a4)\<lparr>extras := x5\<rparr>"
    and x5: "extras_len p \<le> 0 \<Longrightarrow> x5 = extras (getters L a4)"
      "0 < extras_len p \<Longrightarrow> \<exists>es. val_of x5 = Some es \<and> umap_wf es \<and> map_of es =
       map_of (rev (zip (map until_nul (take (nat (extras_len p)) (extras_keys p)))
                        (map until_nul (take (nat (extras_len p)) (extras_vals p)))))"
    by (rule add_extras_getters [OF lib ex, where a = a4]) (rule that)
  have poke: "poke_log_attributes L p = Inr a5"
    using a2(1) a5(1) by (simp add: poke_log_attributes_def Let_def a1_def a3_def a4_def)
  note eqs = a5(2) a4 a3 a2(2) a1
  note none = d [unfolded no_values_def]
  have "val_of x2 = (if 0 < replicateAcross_len p then Some (scope_pairs p) else None)"
    using x2 none a1 by (simp add: scope_pairs_def not_less)
  moreover have "val_of x3 = None" if "\<not> backlogDuration_flag p"
    using x3(2) [OF that] none by (simp add: a1 a2(2))
  moreover have "case val_of x5 of None \<Rightarrow> extras_len p \<le> 0
      | Some es \<Rightarrow> umap_wf es \<and> map_of es = map_of (rev (extra_pairs p))"
    using x5 none by (cases "0 < extras_len p") (auto simp: eqs not_less extra_pairs_def)
  ultimately have "poked p (getters L a5)"
    using none x3(1) by (simp add: poked_def eqs set_as_added split: option.split)
  with poke show ?thesis by blast
qed

section \<open>Reading back what was built\<close>

text \<open>
  What a caller reads for an attribute it passed: a flag that says whether there is a value, and for
  a value the converted value and its inherited flag.
\<close>

definition peeked_as :: "('v \<Rightarrow> 'b) \<Rightarrow> 'v option \<Rightarrow> bool \<Rightarrow> 'b peek_out \<Rightarrow> bool" where
  "peeked_as f v inh out \<longleftrightarrow>
     po_flag out = (v \<noteq> None) \<and> (case v of None \<Rightarrow> True | Some x \<Rightarrow> po_val out = f x \<and> po_inh out = inh)"

lemma PEEK_set_as: "set_as v inh x \<Longrightarrow> peeked_as f v inh (PEEK f x out)"
  by (cases v) (simp_all add: peeked_as_def PEEK_def set_as_def)

lemma map_snd_zip_map:
  "length xs = length ys \<Longrightarrow> map (f \<circ> snd) (zip xs (map g ys)) = map (\<lambda>v. f (g v)) ys"
  by (rule nth_equalityI) auto

lemma scope_pairs_columns:
  assumes "nat (replicateAcross_len p) \<le> length (replicateAcross_keys p)"
    "nat (replicateAcross_len p) \<le> length (replicateAcross_vals p)"
  shows "length (scope_pairs p) = nat (replicateAcross_len p)"
    and "map fst (scope_pairs p) = take (nat (replicateAcross_len p)) (replicateAcross_keys p)"
    and "map (scast \<circ> snd) (scope_pairs p) =
      map (\<lambda>v. scast (ucast v :: i32)) (take (nat (replicateAcross_len p)) (replicateAcross_vals p))"
  using assms by (simp_all add: scope_pairs_def map_snd_zip_map)

lemma peek_replicateAcross:
  assumes "val_of x = (if 0 < replicateAcross_len p then Some (scope_pairs p) else None)"
    and "nat (replicateAcross_len p) \<le> length (replicateAcross_keys p)"
      "nat (replicateAcross_len p) \<le> length (replicateAcross_vals p)"
    and "nat (replicateAcross_len p) \<le> length ks" "nat (replicateAcross_len p) \<le> length vs"
    and "len = (case val_of x of Some rs \<Rightarrow> int (length rs) | None \<Rightarrow> -1)"
  obtains ks' vs' where "PEEK_LIST_PAIR x len (ks, vs) = Inr (ks', vs')"
    "0 < replicateAcross_len p \<Longrightarrow> len = replicateAcross_len p \<and>
       take (nat (replicateAcross_len p)) ks' = map fst (scope_pairs p) \<and>
       take (nat (replicateAcross_len p)) vs' = map (scast \<circ> snd) (scope_pairs p)"
    "replicateAcross_len p \<le> 0 \<Longrightarrow> len = -1"
proof (cases "0 < replicateAcross_len p")
  case True
  note len = scope_pairs_columns(1) [OF assms(2,3)]
  show ?thesis
    by (rule that [of "map fst (scope_pairs p) @ drop (nat (replicateAcross_len p)) ks"
          "map (scast \<circ> snd) (scope_pairs p) @ drop (nat (replicateAcross_len p)) vs"])
      (use True assms len peek_scopes [of "nat (replicateAcross_len p)" "scope_pairs p" ks vs] in
        \<open>simp_all add: PEEK_LIST_PAIR_def\<close>)
next
  case False
  then show ?thesis using assms that [of ks vs] by (simp add: PEEK_LIST_PAIR_def)
qed

lemma peek_backlog:
  assumes "poked p g"
  shows "backlogDuration_flag p \<Longrightarrow> backlogDuration_val p = Some v \<Longrightarrow>
      po_flag (PEEK_MAYBE (backlogDuration g) out) \<and> po_val_flag (PEEK_MAYBE (backlogDuration g) out) \<and>
      po_val (PEEK_MAYBE (backlogDuration g) out) = scast v \<and>
      po_inh (PEEK_MAYBE (backlogDuration g) out) = backlogDuration_inh p"
    and "\<not> backlogDuration_flag p \<Longrightarrow> \<not> po_flag (PEEK_MAYBE (backlogDuration g) out)"
  using assms by (simp_all add: poked_def PEEK_MAYBE_def)

lemma peek_extras:
  assumes "poked p (getters L a)"
  shows "case peek_log_attributes_extras L a of (keys, vals) \<Rightarrow>
      length keys = length vals \<and> distinct keys \<and> map_of (zip keys vals) = map_of (rev (extra_pairs p))"
  using assms
  by (auto simp: poked_def peek_log_attributes_extras_def zip_map_fst_snd extra_pairs_def
      split: option.splits)


text \<open>
  Updating extras keeps the others: afterwards a key has the value of its last occurrence in the
  arguments and otherwise the one it had, and it exists if either of them gives it one.
\<close>

lemma update_log_attrs_extras_lookup:
  assumes lib: "attrs_lib_ok L" and "terminated len keys" "terminated len vals"
    and old: "umap_wf (case val_of (extras (getters L a)) of Some es \<Rightarrow> es | None \<Rightarrow> [])"
  obtains a' es where "update_log_attrs_extras L a len keys vals = Inr a'"
    "getters L a' = (getters L a)\<lparr>extras := extras (getters L a')\<rparr>"
    "val_of (extras (getters L a')) = Some es" "umap_wf es"
    "map_of es = map_of (case val_of (extras (getters L a)) of Some es \<Rightarrow> es | None \<Rightarrow> []) ++
       map_of (rev (zip (map until_nul (take (nat len) keys)) (map until_nul (take (nat len) vals))))"
proof -
  let ?old = "case val_of (extras (getters L a)) of Some es \<Rightarrow> es | None \<Rightarrow> []"
  obtain es where es: "put_extras keys vals len ?old = Inr es" "umap_wf es"
    "map_of es = map_of ?old ++
       map_of (rev (zip (map until_nul (take (nat len) keys)) (map until_nul (take (nat len) vals))))"
    by (rule put_extras_lookup [OF assms(2,3) old])
  have upd: "update_log_attrs_extras L a len keys vals = Inr (with_extras_value L es a)"
    using es(1) by (cases "0 < len") (simp_all add: update_log_attrs_extras_def put_extras_def Let_def)
  obtain b where b: "getters L (with_extras_value L es a) = (getters L a)\<lparr>extras := Attribute (Some es) b\<rparr>"
    using attrs_lib_plain_values(3) [OF lib] by (rule exE)
  have others: "getters L (with_extras_value L es a) =
      (getters L a)\<lparr>extras := extras (getters L (with_extras_value L es a))\<rparr>"
    by (simp add: b)
  have "val_of (extras (getters L (with_extras_value L es a))) = Some es" by (simp add: b)
  from that [OF upd others this es(2,3)] show ?thesis .
qed

section \<open>Attributes as a record\<close>

text \<open>An implementation of the class that keeps the attributes in a record.\<close>

definition record_attrs :: "log_attributes attrs_lib" where
  "record_attrs = \<lparr>
     LogAttributes = \<lparr>replicationFactor = Attribute None False, syncedCopies = Attribute None False, maxWritesInFlight = Attribute None False, singleWriter = Attribute None False, syncReplicationScope = Attribute None False, replicateAcross = Attribute None False, backlogDuration = Attribute None False, scdEnabled = Attribute None False, localScdEnabled = Attribute None False, stickyCopySets = Attribute None False, extras = Attribute None False\<rparr>,
     with_replicationFactor = \<lambda>v a. a\<lparr>replicationFactor := v\<rparr>,
     with_replicationFactor_value = \<lambda>v a. a\<lparr>replicationFactor := Attribute (Some v) False\<rparr>,
     with_syncedCopies = \<lambda>v a. a\<lparr>syncedCopies := v\<rparr>,
     with_maxWritesInFlight = \<lambda>v a. a\<lparr>maxWritesInFlight := v\<rparr>,
     with_singleWriter = \<lambda>v a. a\<lparr>singleWriter := v\<rparr>,
     with_syncReplicationScope = \<lambda>v a. a\<lparr>syncReplicationScope := v\<rparr>,
     with_replicateAcross_value = \<lambda>rs a. a\<lparr>replicateAcross := Attribute (Some rs) False\<rparr>,
     with_backlogDuration = \<lambda>v a. a\<lparr>backlogDuration := v\<rparr>,
     with_backlogDuration_none = \<lambda>a. a\<lparr>backlogDuration := Attribute (Some None) False\<rparr>,
     with_scdEnabled = \<lambda>v a. a\<lparr>scdEnabled := v\<rparr>,
     with_localScdEnabled = \<lambda>v a. a\<lparr>localScdEnabled := v\<rparr>,
     with_stickyCopySets = \<lambda>v a. a\<lparr>stickyCopySets := v\<rparr>,
     with_extras_value = \<lambda>es a. a\<lparr>extras := Attribute (Some es) False\<rparr>,
     getters = id,
     value_of_empty = StdException ''no value''\<rparr>"

lemma record_attrs_ok: "attrs_lib_ok record_attrs"
  unfolding attrs_lib_ok_def record_attrs_def no_values_def by (intro conjI allI exI) simp_all

definition sample_args :: poke_args where
  "sample_args = \<lparr>
     replicationFactor_val = Some 3, replicationFactor_inh = False,
     syncedCopies_val = None, syncedCopies_inh = False,
     maxWritesInFlight_val = Some (- 1), maxWritesInFlight_inh = True,
     singleWriter_val = Some True, singleWriter_inh = False,
     syncReplicationScope_val = None, syncReplicationScope_inh = False,
     replicateAcross_len = 2, replicateAcross_keys = [1, 4], replicateAcross_vals = [3, 2],
     replicateAcross_inh = True,
     backlogDuration_flag = True, backlogDuration_val = Some 60, backlogDuration_inh = False,
     scdEnabled_val = None, scdEnabled_inh = False,
     localScdEnabled_val = Some False, localScdEnabled_inh = False,
     stickyCopySets_val = None, stickyCopySets_inh = False,
     extras_len = 1, extras_keys = [''k'' @ [CHR 0x00]], extras_vals = [''v'' @ [CHR 0x00]]\<rparr>"

definition sample_places :: peek_mem where
  "sample_places =
     (let n = \<lparr>po_flag = False, po_val = 0, po_inh = False\<rparr>;
          b = \<lparr>po_flag = False, po_val = False, po_inh = False\<rparr>
      in \<lparr>replicationFactor_out = n, syncedCopies_out = n, maxWritesInFlight_out = n,
          singleWriter_out = b,
          syncReplicationScope_out = \<lparr>po_flag = False, po_val = 0, po_inh = False\<rparr>,
          replicateAcross_keys_out = [0, 0], replicateAcross_vals_out = [0, 0],
          replicateAcross_inh_out = False,
          backlogDuration_out = \<lparr>po_flag = False, po_val = 0, po_inh = False, po_val_flag = False\<rparr>,
          scdEnabled_out = b, localScdEnabled_out = b, stickyCopySets_out = b\<rparr>)"


end
