(* ===== verification/Store_Config.thy ===== *)
theory Store_Config
  imports Store_Ffi
begin

text \<open>
  The versioned configuration store (\<open>hs_versioned_config_store.cpp\<close>): the function that extracts
  the version from a stored value, and the requests and callbacks of reading and updating a
  configuration. The store is LogDevice's.
\<close>

section \<open>The version of a value\<close>

text \<open>
  \<open>std::stoll\<close>: white space, an optional sign and decimal digits; what follows is ignored. No digits
  or a number outside \<open>int64_t\<close> is an exception.
\<close>

definition is_digit :: "char \<Rightarrow> bool" where
  "is_digit c \<longleftrightarrow> of_char c \<in> {48..57 :: nat}"

definition is_space :: "char \<Rightarrow> bool" where
  "is_space c \<longleftrightarrow> of_char c \<in> {9, 10, 11, 12, 13, 32 :: nat}"

definition digits_value :: "string \<Rightarrow> nat" where
  "digits_value ds = fold (\<lambda>c n. 10 * n + (of_char c - 48)) ds 0"

definition unsigned_prefix :: "string \<Rightarrow> nat option" where
  "unsigned_prefix s =
     (let ds = takeWhile is_digit s in if ds = [] then None else Some (digits_value ds))"

definition signed_prefix :: "string \<Rightarrow> int option" where
  "signed_prefix s =
     (case s of
        c # s' \<Rightarrow>
          if c = CHR ''-'' then map_option (\<lambda>n. - int n) (unsigned_prefix s')
          else if c = CHR ''+'' then map_option int (unsigned_prefix s')
          else map_option int (unsigned_prefix s)
      | [] \<Rightarrow> None)"

definition stoll :: "string \<Rightarrow> int result" where
  "stoll s =
     (case signed_prefix (dropWhile is_space s) of
        None \<Rightarrow> Inl (StdException ''invalid_argument'')
      | Some v \<Rightarrow>
          if - (2 ^ 63) \<le> v \<and> v < 2 ^ 63 then Inr v else Inl (StdException ''out_of_range''))"

text \<open>The loop that looks for the colon.\<close>

fun colon_index :: "string \<Rightarrow> nat" where
  "colon_index [] = 0"
| "colon_index (c # s) = (if c = CHR '':'' then 0 else Suc (colon_index s))"

text \<open>\<open>extract_function\<close>; an exception is caught and leaves the version at 0.\<close>

definition extract_function :: "string \<Rightarrow> u64 option" where
  "extract_function s =
     (let i = colon_index s;
          version = (case stoll (take i s) of Inl _ \<Rightarrow> 0 | Inr v \<Rightarrow> word_of_int v) :: u64
      in if version \<noteq> 0 then Some version else None)"

section \<open>Requests and callbacks\<close>

record vcs_value_callback_data =
  vv_st :: status
  vv_val_len :: int
  vv_value :: "string option"

record vcs_write_callback_data =
  vw_st :: status
  vw_version :: u64
  vw_val_len :: int
  vw_value :: "string option"

text \<open>The callback of both ways to read.\<close>

definition value_cb ::
    "int \<Rightarrow> nat \<Rightarrow> status \<Rightarrow> string \<Rightarrow> vcs_value_callback_data cb_mem \<Rightarrow> vcs_value_callback_data cb_mem" where
  "value_cb cap mvar st val = cb_finish cap mvar (\<lambda>d.
     let d = d\<lparr>vv_st := st\<rparr> in
     if st = E_OK then d\<lparr>vv_val_len := int (length val), vv_value := copyString val\<rparr> else d)"

definition write_cb ::
    "int \<Rightarrow> nat \<Rightarrow> status \<Rightarrow> u64 \<Rightarrow> string \<Rightarrow> vcs_write_callback_data cb_mem
       \<Rightarrow> vcs_write_callback_data cb_mem" where
  "write_cb cap mvar st version val = cb_finish cap mvar (\<lambda>d.
     let d = d\<lparr>vw_st := st\<rparr> in
     if st = E_OK \<or> st = E_VERSION_MISMATCH
     then d\<lparr>vw_version := version, vw_val_len := int (length val), vw_value := copyString val\<rparr>
     else d)"

text \<open>\<open>VersionedConfigStore::Condition\<close>.\<close>

datatype vcs_condition = IfVersion u64 | Overwrite | CreateIfNotExists

text \<open>The methods of \<open>VersionedConfigStore\<close> that are called, with their callbacks.\<close>

datatype vcs_request =
    getConfig string
      "status \<Rightarrow> string \<Rightarrow> vcs_value_callback_data cb_mem \<Rightarrow> vcs_value_callback_data cb_mem" "u64 option"
  | getLatestConfig string
      "status \<Rightarrow> string \<Rightarrow> vcs_value_callback_data cb_mem \<Rightarrow> vcs_value_callback_data cb_mem"
  | updateConfig string string vcs_condition
      "status \<Rightarrow> u64 \<Rightarrow> string \<Rightarrow> vcs_write_callback_data cb_mem \<Rightarrow> vcs_write_callback_data cb_mem"

definition logdevice_vcs_get_config ::
    "string \<Rightarrow> u64 option \<Rightarrow> nat \<Rightarrow> int \<Rightarrow> vcs_request" where
  "logdevice_vcs_get_config key base_version mvar cap =
     (case base_version of
        Some v \<Rightarrow> getConfig key (value_cb cap mvar) (Some v)
      | None \<Rightarrow> getConfig key (value_cb cap mvar) None)"

definition logdevice_vcs_get_latest_config :: "string \<Rightarrow> nat \<Rightarrow> int \<Rightarrow> vcs_request" where
  "logdevice_vcs_get_latest_config key mvar cap = getLatestConfig key (value_cb cap mvar)"

definition logdevice_vcs_update_config ::
    "string \<Rightarrow> string \<Rightarrow> nat \<Rightarrow> nat \<Rightarrow> int \<Rightarrow> u64 \<Rightarrow> nat \<Rightarrow> int \<Rightarrow> vcs_request result" where
  "logdevice_vcs_update_config key buf offset val_len condition_mode version mvar cap =
     (case slice buf offset val_len of
        Inl e \<Rightarrow> Inl e
      | Inr val \<Rightarrow> Inr (
          if condition_mode = 2 then updateConfig key val Overwrite (write_cb cap mvar)
          else if condition_mode = 3 then updateConfig key val CreateIfNotExists (write_cb cap mvar)
          else updateConfig key val (IfVersion version) (write_cb cap mvar)))"

section \<open>Decimal numbers are read back\<close>

lemma char_of_digit: "d < 10 \<Longrightarrow> of_char (char_of (48 + d) :: char) = (48 + d :: nat)"
  by (simp add: of_char_of)

lemma digits_value_snoc: "digits_value (ds @ [c]) = 10 * digits_value ds + (of_char c - 48)"
  by (simp add: digits_value_def)

lemma decimal_digits: "list_all is_digit (decimal n)"
proof (induction n rule: decimal.induct)
  case (1 n)
  then show ?case by (cases "n < 10") (simp_all add: decimal.simps [of n] is_digit_def char_of_digit)
qed

lemma decimal_value: "digits_value (decimal n) = n"
proof (induction n rule: decimal.induct)
  case (1 n)
  show ?case
  proof (cases "n < 10")
    case True
    then show ?thesis by (simp add: decimal.simps [of n] digits_value_def char_of_digit)
  next
    case False
    then have "digits_value (decimal n) = 10 * (n div 10) + n mod 10"
      using 1 by (simp add: decimal.simps [of n] digits_value_snoc char_of_digit)
    then show ?thesis by simp
  qed
qed

lemma decimal_head: obtains c s where "decimal n = c # s" "is_digit c"
proof (cases "decimal n")
  case Nil
  then show ?thesis by (simp add: decimal_not_Nil)
next
  case (Cons c s)
  then show ?thesis using that decimal_digits [of n] by simp
qed

lemma unsigned_prefix_decimal: "unsigned_prefix (decimal n) = Some n"
proof -
  have "takeWhile is_digit (decimal n) = decimal n"
    using decimal_digits [of n] by (simp add: list_all_iff)
  show ?thesis
    unfolding unsigned_prefix_def \<open>takeWhile is_digit (decimal n) = decimal n\<close>
    by (simp add: decimal_value decimal_not_Nil)
qed

lemma digit_facts: "is_digit c \<Longrightarrow> \<not> is_space c \<and> c \<noteq> CHR ''-'' \<and> c \<noteq> CHR ''+'' \<and> c \<noteq> CHR '':''"
  by (auto simp: is_digit_def is_space_def)

lemma signed_prefix_to_string: "signed_prefix (dropWhile is_space (to_string z)) = Some z"
proof -
  obtain c s where cs: "decimal (nat z) = c # s" "is_digit c" by (rule decimal_head)
  have "\<not> is_space (CHR ''-'')" by (simp add: is_space_def)
  then show ?thesis
    using cs digit_facts [OF cs(2)] unsigned_prefix_decimal [of "nat z"]
    by (simp add: to_string_def signed_prefix_def unsigned_prefix_decimal)
qed

lemma colon_index_to_string: "colon_index (to_string z @ CHR '':'' # v) = length (to_string z)"
proof -
  have "CHR '':'' \<notin> set s \<Longrightarrow> colon_index (s @ CHR '':'' # v) = length s" for s
    by (induction s) auto
  moreover have "CHR '':'' \<notin> set (to_string z)"
    using decimal_digits digit_facts by (auto simp: to_string_def list_all_iff)
  ultimately show ?thesis by blast
qed

text \<open>
  \<^bold>\<open>C24.\<close> A value that starts with a version number in decimal and a colon has that version, if the
  number is not 0 and fits 64 bits with a sign; otherwise it has none. A negative number is not
  refused: its version is the number modulo \<open>2^64\<close>.
\<close>

theorem extract_version:
  "extract_function (to_string z @ '':'' @ v) =
     (if z \<noteq> 0 \<and> - (2 ^ 63) \<le> z \<and> z < 2 ^ 63 then Some (word_of_int z) else None)"
proof -
  have take: "take (colon_index (to_string z @ '':'' @ v)) (to_string z @ '':'' @ v) = to_string z"
    by (simp add: colon_index_to_string)
  have "(word_of_int z :: u64) = 0 \<longleftrightarrow> z = 0" if "- (2 ^ 63) \<le> z" "z < 2 ^ 63"
  proof -
    have "(word_of_int z :: u64) = 0 \<longleftrightarrow> 2 ^ 64 dvd z"
      by (simp add: word_of_int_eq_0_iff)
    also have "\<dots> \<longleftrightarrow> z = 0" using that zdvd_imp_le [of "2 ^ 64" z] zdvd_imp_le [of "2 ^ 64" "- z"] by auto
    finally show ?thesis .
  qed
  then show ?thesis
    unfolding extract_function_def take Let_def
    by (auto simp: stoll_def signed_prefix_to_string)
qed

lemma negative_version: "extract_function ''-1:x'' = Some (2 ^ 64 - 1)"
  by code_simp

end
