(* ===== verification/Store_Reader.thy ===== *)
theory Store_Reader
  imports Store_Checkpoint
begin

text \<open>
  Readers (\<open>hs_reader.cpp\<close>): creating them, the operations that only report a status, reading records
  or a gap into memory of the caller, and writing or removing checkpoints of a checkpointed reader.
  LogDevice's reader is represented by what its methods return.
\<close>

section \<open>Readers\<close>

text \<open>\<open>new_logdevice_reader\<close> ends the process if the client gives no reader.\<close>

definition new_logdevice_reader ::
    "(nat \<Rightarrow> int \<Rightarrow> 'r option) \<Rightarrow> nat \<Rightarrow> int \<Rightarrow> 'r result" where
  "new_logdevice_reader createReader max_logs buffer_size =
     (case createReader max_logs buffer_size of None \<Rightarrow> Inl exit_1 | Some reader \<Rightarrow> Inr reader)"

text \<open>
  \<open>new_sync_checkpointed_reader\<close> moves the reader out of its handle, and the checkpoint store too
  unless stores are shared; \<open>create\<close> is LogDevice's factory.
\<close>

definition new_sync_checkpointed_reader ::
    "bool \<Rightarrow> (string \<Rightarrow> 'r option \<Rightarrow> 's option \<Rightarrow> u32 \<Rightarrow> 'c) \<Rightarrow> string \<Rightarrow> 'r option \<Rightarrow> 's option \<Rightarrow> u32
       \<Rightarrow> 'c \<times> 'r option \<times> 's option" where
  "new_sync_checkpointed_reader shared create reader_name reader_rep store_rep num_retries =
     (create reader_name reader_rep store_rep num_retries, None,
      if shared then store_rep else None)"

text \<open>
  \<open>START_READING\<close>, \<open>STOP_READING\<close> and the two functions that start from a checkpoint turn the result
  of the method into a status.
\<close>

definition START_READING :: "(u64 \<Rightarrow> u64 \<Rightarrow> u64 \<Rightarrow> int \<times> status) \<Rightarrow> u64 \<Rightarrow> u64 \<Rightarrow> u64 \<Rightarrow> status" where
  "START_READING startReading logid start until =
     (case startReading logid start until of (ret, err) \<Rightarrow> status_of_ret ret err)"

definition STOP_READING :: "(u64 \<Rightarrow> int \<times> status) \<Rightarrow> u64 \<Rightarrow> status" where
  "STOP_READING stopReading logid = (case stopReading logid of (ret, err) \<Rightarrow> status_of_ret ret err)"

definition ld_checkpointed_reader_start_reading_from_ckp ::
    "(u64 \<Rightarrow> u64 \<Rightarrow> int \<times> status) \<Rightarrow> u64 \<Rightarrow> u64 \<Rightarrow> status" where
  "ld_checkpointed_reader_start_reading_from_ckp startReadingFromCheckpoint logid until =
     (case startReadingFromCheckpoint logid until of (ret, err) \<Rightarrow> status_of_ret ret err)"

definition ld_start_reading_from_ckp_or_start ::
    "(u64 \<Rightarrow> u64 \<Rightarrow> u64 \<Rightarrow> int \<times> status) \<Rightarrow> u64 \<Rightarrow> u64 \<Rightarrow> u64 \<Rightarrow> status" where
  "ld_start_reading_from_ckp_or_start startReadingFromCheckpoint logid start until =
     (case startReadingFromCheckpoint logid start until of (ret, err) \<Rightarrow> status_of_ret ret err)"

text \<open>
  Predicates and options of a reader, which the bindings pass on to the method of that name. Setters
  return the changed reader. A timeout is a signed number of milliseconds.
\<close>

definition IS_READING :: "('r \<Rightarrow> u64 \<Rightarrow> bool) \<Rightarrow> 'r \<Rightarrow> u64 \<Rightarrow> bool" where
  "IS_READING isReading reader logid = isReading reader logid"

definition IS_READING_ANY :: "('r \<Rightarrow> bool) \<Rightarrow> 'r \<Rightarrow> bool" where
  "IS_READING_ANY isReadingAny reader = isReadingAny reader"

definition SET_TIMEOUT :: "('r \<Rightarrow> int \<Rightarrow> int \<times> 'r) \<Rightarrow> 'r \<Rightarrow> i32 \<Rightarrow> int \<times> 'r" where
  "SET_TIMEOUT setTimeout reader timeout = setTimeout reader (sint timeout)"

definition WITHOUT_PAYLOAD :: "('r \<Rightarrow> 'r) \<Rightarrow> 'r \<Rightarrow> 'r" where
  "WITHOUT_PAYLOAD withoutPayload reader = withoutPayload reader"

definition INCLUDE_BYTEOFFSET :: "('r \<Rightarrow> 'r) \<Rightarrow> 'r \<Rightarrow> 'r" where
  "INCLUDE_BYTEOFFSET includeByteOffset reader = includeByteOffset reader"

definition WAIT_ONLY_WHEN_NO_DATA :: "('r \<Rightarrow> 'r) \<Rightarrow> 'r \<Rightarrow> 'r" where
  "WAIT_ONLY_WHEN_NO_DATA waitOnlyWhenNoData reader = waitOnlyWhenNoData reader"

section \<open>Reading\<close>

text \<open>LogDevice's \<open>DataRecord\<close> and \<open>GapRecord\<close>, as far as the code uses them.\<close>

record data_record =
  dr_logid :: u64
  dr_lsn :: u64
  dr_timestamp :: i64
  dr_batch_offset :: i32
  dr_payload :: string
  dr_byte_offset :: u64

datatype gap_type = DATALOSS | other_gap nat

record gap_record =
  gr_logid :: u64
  gr_type :: gap_type
  gr_lo :: u64
  gr_hi :: u64

text \<open>\<open>logdevice_data_record_t\<close> and \<open>logdevice_gap_record_t\<close>, the structs of the interface.\<close>

record logdevice_data_record =
  ldr_logid :: u64
  ldr_lsn :: u64
  ldr_timestamp :: i64
  ldr_batch_offset :: i64
  ldr_payload :: "string option"
  ldr_payload_len :: u64
  ldr_byte_offset :: u64

record logdevice_gap_record =
  lgr_logid :: u64
  lgr_gaptype :: gap_type
  lgr_lo :: u64
  lgr_hi :: u64

definition copy_data_record :: "data_record \<Rightarrow> logdevice_data_record" where
  "copy_data_record r = \<lparr>
     ldr_logid = dr_logid r,
     ldr_lsn = dr_lsn r,
     ldr_timestamp = dr_timestamp r,
     ldr_batch_offset = scast (dr_batch_offset r),
     ldr_payload = copyString (dr_payload r),
     ldr_payload_len = of_nat (length (dr_payload r)),
     ldr_byte_offset = dr_byte_offset r\<rparr>"

text \<open>The loop that copies the records into the array of the caller.\<close>

fun copy_records ::
    "data_record list \<Rightarrow> nat \<Rightarrow> logdevice_data_record list \<Rightarrow> logdevice_data_record list result" where
  "copy_records [] i data_out = Inr data_out"
| "copy_records (r # data) i data_out =
     (if i < length data_out
      then copy_records data (Suc i) (data_out[i := copy_data_record r])
      else Inl out_of_bounds)"

text \<open>
  \<open>READ\<close> with what the method \<open>read\<close> gave: its result, the records, the gap and \<open>err\<close>. The result is
  the status, the array, the gap of the caller and \<open>*len_out\<close>. The \<open>assert\<close> is taken as active.
\<close>

definition READ ::
    "int \<Rightarrow> data_record list \<Rightarrow> gap_record \<Rightarrow> status
       \<Rightarrow> logdevice_data_record list \<Rightarrow> logdevice_gap_record option
       \<Rightarrow> (status \<times> logdevice_data_record list \<times> logdevice_gap_record option \<times> int) result" where
  "READ nread data gap err data_out gap_out =
     (if nread \<ge> 0
      then (case copy_records data 0 data_out of
              Inl e \<Rightarrow> Inl e
            | Inr data_out \<Rightarrow> Inr (E_OK, data_out, gap_out, nread))
      else if err \<noteq> E_GAP then Inl (StdException ''assert'')
      else (case gap_out of
              Some _ \<Rightarrow>
                Inr (E_OK, data_out,
                     Some \<lparr>lgr_logid = gr_logid gap, lgr_gaptype = gr_type gap, lgr_lo = gr_lo gap,
                           lgr_hi = gr_hi gap\<rparr>, nread)
            | None \<Rightarrow>
                if gr_type gap = DATALOSS then Inr (E_DATALOSS, data_out, None, nread)
                else Inr (E_OK, data_out, None, nread)))"

section \<open>Checkpoints of a reader\<close>

text \<open>The methods of \<open>CheckpointedReaderBase\<close> and \<open>SyncCheckpointedReader\<close> that are called.\<close>

datatype crb_request =
    asyncWriteCheckpoints "(u64 \<times> u64) list" status_cb
  | asyncWriteLastReadCheckpoints status_cb "u64 list"
  | asyncRemoveCheckpoints "u64 list" status_cb
  | asyncRemoveAllCheckpoints status_cb
  | syncWriteCheckpoints "(u64 \<times> u64) list"
  | syncWriteLastReadCheckpoints "u64 list"

definition crb_write_checkpoints ::
    "u64 list \<Rightarrow> u64 list \<Rightarrow> u64 \<Rightarrow> nat \<Rightarrow> int \<Rightarrow> crb_request result" where
  "crb_write_checkpoints logids lsns len mvar cap =
     (case fill_map omap_put logids lsns (uint len) [] of
        Inl e \<Rightarrow> Inl e
      | Inr checkpoints \<Rightarrow> Inr (asyncWriteCheckpoints checkpoints (status_callback cap mvar)))"

definition crb_write_last_read_checkpoints ::
    "u64 list \<Rightarrow> u64 \<Rightarrow> nat \<Rightarrow> int \<Rightarrow> crb_request result" where
  "crb_write_last_read_checkpoints logids len mvar cap =
     (case slice logids 0 (unat len) of
        Inl e \<Rightarrow> Inl e
      | Inr ls \<Rightarrow> Inr (asyncWriteLastReadCheckpoints (status_callback cap mvar) ls))"

definition crb_asyncRemoveCheckpoints :: "u64 list \<Rightarrow> u64 \<Rightarrow> nat \<Rightarrow> int \<Rightarrow> crb_request result" where
  "crb_asyncRemoveCheckpoints logids len mvar cap =
     (case slice logids 0 (unat len) of
        Inl e \<Rightarrow> Inl e
      | Inr ls \<Rightarrow> Inr (asyncRemoveCheckpoints ls (status_callback cap mvar)))"

definition crb_asyncRemoveAllCheckpoints :: "nat \<Rightarrow> int \<Rightarrow> crb_request" where
  "crb_asyncRemoveAllCheckpoints mvar cap = asyncRemoveAllCheckpoints (status_callback cap mvar)"

definition sync_write_checkpoints :: "u64 list \<Rightarrow> u64 list \<Rightarrow> u64 \<Rightarrow> crb_request result" where
  "sync_write_checkpoints logids lsns len =
     (case fill_map omap_put logids lsns (uint len) [] of
        Inl e \<Rightarrow> Inl e
      | Inr checkpoints \<Rightarrow> Inr (syncWriteCheckpoints checkpoints))"

definition sync_write_last_read_checkpoints :: "u64 list \<Rightarrow> u64 \<Rightarrow> crb_request result" where
  "sync_write_last_read_checkpoints logids len =
     (case slice logids 0 (unat len) of
        Inl e \<Rightarrow> Inl e
      | Inr ls \<Rightarrow> Inr (syncWriteLastReadCheckpoints ls))"

section \<open>What a read delivers\<close>

lemma copy_records_all:
  "i + length data \<le> length data_out \<Longrightarrow>
   copy_records data i data_out =
     Inr (take i data_out @ map copy_data_record data @ drop (i + length data) data_out)"
proof (induction data arbitrary: i data_out)
  case Nil
  then show ?case by simp
next
  case (Cons r data)
  then have i: "i < length data_out" by simp
  then have "take (Suc i) (data_out[i := copy_data_record r]) = take i data_out @ [copy_data_record r]"
    by (simp add: take_Suc_conv_app_nth)
  with Cons i show ?case by simp
qed

lemma copy_data_record_payload:
  "(case ldr_payload (copy_data_record r) of None \<Rightarrow> [] | Some b \<Rightarrow> b) = dr_payload r"
  by (simp add: copy_data_record_def copyString_contents)

text \<open>
  A read whose records fit the array of the caller delivers them in order in its first
  entries, field by field and with their payloads copied, leaves the rest of the array and the
  gap alone, and reports \<open>OK\<close> and the number of records.
\<close>

theorem read_delivers:
  assumes "nread = int (length data)" "length data \<le> length data_out"
  shows "\<exists>out. READ nread data gap err data_out gap_out = Inr (E_OK, out, gap_out, nread) \<and>
     length out = length data_out \<and> drop (length data) out = drop (length data) data_out \<and>
     (\<forall>i < length data.
        ldr_logid (out ! i) = dr_logid (data ! i) \<and> ldr_lsn (out ! i) = dr_lsn (data ! i) \<and>
        ldr_timestamp (out ! i) = dr_timestamp (data ! i) \<and>
        sint (ldr_batch_offset (out ! i)) = sint (dr_batch_offset (data ! i)) \<and>
        (case ldr_payload (out ! i) of None \<Rightarrow> [] | Some b \<Rightarrow> b) = dr_payload (data ! i) \<and>
        ldr_payload_len (out ! i) = of_nat (length (dr_payload (data ! i))) \<and>
        ldr_byte_offset (out ! i) = dr_byte_offset (data ! i))"
proof -
  let ?out = "map copy_data_record data @ drop (length data) data_out"
  have "READ nread data gap err data_out gap_out = Inr (E_OK, ?out, gap_out, nread)"
    using copy_records_all [of 0 data data_out] assms by (simp add: READ_def)
  moreover have "sint (ldr_batch_offset (copy_data_record r)) = sint (dr_batch_offset r)" for r
    by (simp add: copy_data_record_def sint_up_scast is_up)
  ultimately show ?thesis
    using assms by (intro exI [of _ ?out]) (simp add: nth_append copy_data_record_payload, simp add: copy_data_record_def)
qed

definition sample_record :: data_record where
  "sample_record = \<lparr>dr_logid = 1, dr_lsn = 2, dr_timestamp = 3, dr_batch_offset = 0,
     dr_payload = ''ab'', dr_byte_offset = 7\<rparr>"

definition sample_gap :: gap_record where
  "sample_gap = \<lparr>gr_logid = 1, gr_type = DATALOSS, gr_lo = 4, gr_hi = 9\<rparr>"

theorem read_delivers_witness:
  "\<exists>out. READ 1 [sample_record] sample_gap E_OK [copy_data_record sample_record] None =
     Inr (E_OK, out, None, 1) \<and> ldr_lsn (out ! 0) = 2"
  using read_delivers [of 1 "[sample_record]" "[copy_data_record sample_record]" sample_gap E_OK None]
  by (auto simp: sample_record_def)

text \<open>
  A gap in the log is reported in the place the caller gave for it; without such a place, only lost
  data is an error.
\<close>

lemma read_gap:
  "nread < 0 \<Longrightarrow> READ nread data gap E_GAP data_out gap_out =
     Inr (if gap_out = None \<and> gr_type gap = DATALOSS then E_DATALOSS else E_OK, data_out,
          map_option (\<lambda>_. \<lparr>lgr_logid = gr_logid gap, lgr_gaptype = gr_type gap, lgr_lo = gr_lo gap,
            lgr_hi = gr_hi gap\<rparr>) gap_out, nread)"
  by (simp add: READ_def split: option.split)

text \<open>
  Unlike \<open>checkpoint_store_remove_checkpoints\<close>, removing checkpoints through a reader names every
  log of the array.
\<close>

lemma crb_remove_all_listed:
  "unat len \<le> length logids \<Longrightarrow>
   crb_asyncRemoveCheckpoints logids len mvar cap =
     Inr (asyncRemoveCheckpoints (take (unat len) logids) (status_callback cap mvar))"
  by (simp add: crb_asyncRemoveCheckpoints_def slice_def)

end
