(* ===== verification/Store_Writer.thy ===== *)
theory Store_Writer
  imports Store_Ffi
begin

text \<open>
  Writers (\<open>hs_writer.cpp\<close>): the attributes of an append, appending one payload synchronously or with
  a callback, and appending a batch of payloads. LogDevice's client and its codec of batches are
  parameters.
\<close>

section \<open>Attributes of an append\<close>

text \<open>\<open>KeyType\<close> is a byte; \<open>optional_keys\<close> and \<open>counters\<close> are ordered maps.\<close>

record append_attributes =
  optional_keys :: "(u8 \<times> string) list"
  counters :: "(u8 \<times> i64) list option"

definition new_AppendAttributes :: append_attributes where
  "new_AppendAttributes = \<lparr>optional_keys = [], counters = None\<rparr>"

definition ld_cons_append_attributes ::
    "u8 list \<Rightarrow> string list \<Rightarrow> int \<Rightarrow> u8 list \<Rightarrow> i64 list \<Rightarrow> int \<Rightarrow> append_attributes
       \<Rightarrow> append_attributes result" where
  "ld_cons_append_attributes keytypes keyvals optional_keys_len counter_key counter_val counters_len attrs =
     (case (if optional_keys_len > 0 then fill_map omap_put keytypes keyvals optional_keys_len []
            else Inr []) of
        Inl e \<Rightarrow> Inl e
      | Inr ks \<Rightarrow>
          (case (if counters_len \<ge> 0
                 then (case fill_map omap_put counter_key counter_val counters_len [] of
                         Inl e \<Rightarrow> Inl e | Inr cs \<Rightarrow> Inr (Some cs))
                 else Inr None) of
             Inl e \<Rightarrow> Inl e
           | Inr cs \<Rightarrow> Inr (attrs\<lparr>optional_keys := ks, counters := cs\<rparr>)))"

definition ld_new_append_attributes ::
    "u8 list \<Rightarrow> string list \<Rightarrow> int \<Rightarrow> u8 list \<Rightarrow> i64 list \<Rightarrow> int \<Rightarrow> append_attributes result" where
  "ld_new_append_attributes keytypes keyvals optional_keys_len counter_key counter_val counters_len =
     ld_cons_append_attributes keytypes keyvals optional_keys_len counter_key counter_val counters_len
       new_AppendAttributes"

section \<open>Appending one payload\<close>

text \<open>
  \<open>Client::appendSync\<close> returns a sequence number and sets the timestamp and \<open>err\<close>; \<open>lsn_invalid\<close> is
  LogDevice's \<open>LSN_INVALID\<close>. The result is the status, \<open>*ts\<close> and \<open>*lsn_ret\<close>.
\<close>

definition append_payload_sync ::
    "u64 \<Rightarrow> (u64 \<Rightarrow> string \<Rightarrow> append_attributes \<Rightarrow> u64 \<times> i64 \<times> status) \<Rightarrow> u64 \<Rightarrow> string \<Rightarrow> nat \<Rightarrow> nat
       \<Rightarrow> append_attributes \<Rightarrow> i64 option \<Rightarrow> u64 \<Rightarrow> (status \<times> i64 option \<times> u64) result" where
  "append_payload_sync lsn_invalid appendSync logid payload offset len attrs ts lsn_ret =
     (case slice payload offset len of
        Inl e \<Rightarrow> Inl e
      | Inr p \<Rightarrow>
          (case appendSync logid p attrs of
             (res, timestamp, err) \<Rightarrow>
               let ts = poke_out timestamp ts in
               if res = lsn_invalid then Inr (err, ts, lsn_ret)
               else Inr (E_OK, ts, res)))"

definition logdevice_append_sync ::
    "u64 \<Rightarrow> (u64 \<Rightarrow> string \<Rightarrow> append_attributes \<Rightarrow> u64 \<times> i64 \<times> status) \<Rightarrow> u64 \<Rightarrow> string \<Rightarrow> nat \<Rightarrow> nat
       \<Rightarrow> i64 option \<Rightarrow> u64 \<Rightarrow> (status \<times> i64 option \<times> u64) result" where
  "logdevice_append_sync lsn_invalid appendSync logid payload offset len ts lsn_ret =
     append_payload_sync lsn_invalid appendSync logid payload offset len new_AppendAttributes ts lsn_ret"

definition logdevice_append_with_attrs_sync ::
    "u64 \<Rightarrow> (u64 \<Rightarrow> string \<Rightarrow> append_attributes \<Rightarrow> u64 \<times> i64 \<times> status) \<Rightarrow> u64 \<Rightarrow> string \<Rightarrow> nat \<Rightarrow> nat
       \<Rightarrow> u8 \<Rightarrow> string \<Rightarrow> i64 option \<Rightarrow> u64 \<Rightarrow> (status \<times> i64 option \<times> u64) result" where
  "logdevice_append_with_attrs_sync lsn_invalid appendSync logid payload offset len keytype keyval ts lsn_ret =
     append_payload_sync lsn_invalid appendSync logid payload offset len
       (new_AppendAttributes\<lparr>optional_keys := omap_put keytype keyval []\<rparr>) ts lsn_ret"

text \<open>\<open>logdevice_append_cb_data_t\<close> and the callback of all asynchronous appends.\<close>

record append_cb_data =
  acb_st :: status
  acb_logid :: u64
  acb_lsn :: u64
  acb_timestamp :: i64

definition append_cb ::
    "int \<Rightarrow> nat \<Rightarrow> status \<Rightarrow> u64 \<Rightarrow> u64 \<Rightarrow> i64 \<Rightarrow> append_cb_data cb_mem \<Rightarrow> append_cb_data cb_mem" where
  "append_cb cap mvar st logid lsn timestamp =
     cb_finish cap mvar
       (\<lambda>d. d\<lparr>acb_st := st, acb_logid := logid, acb_lsn := lsn, acb_timestamp := timestamp\<rparr>)"

type_synonym append_callback =
  "status \<Rightarrow> u64 \<Rightarrow> u64 \<Rightarrow> i64 \<Rightarrow> append_cb_data cb_mem \<Rightarrow> append_cb_data cb_mem"

text \<open>\<open>Client::append\<close> takes the callback, returns an \<open>int\<close> and sets \<open>err\<close>.\<close>

definition append_payload_async ::
    "nat \<Rightarrow> int \<Rightarrow> (u64 \<Rightarrow> string \<Rightarrow> append_callback \<Rightarrow> append_attributes \<Rightarrow> int \<times> status)
       \<Rightarrow> u64 \<Rightarrow> string \<Rightarrow> nat \<Rightarrow> nat \<Rightarrow> append_attributes \<Rightarrow> status result" where
  "append_payload_async mvar cap client_append logid payload offset len attrs =
     (case slice payload offset len of
        Inl e \<Rightarrow> Inl e
      | Inr p \<Rightarrow>
          (case client_append logid p (append_cb cap mvar) attrs of
             (ret, err) \<Rightarrow> Inr (status_of_ret ret err)))"

definition logdevice_append_async ::
    "(u64 \<Rightarrow> string \<Rightarrow> append_callback \<Rightarrow> append_attributes \<Rightarrow> int \<times> status)
       \<Rightarrow> u64 \<Rightarrow> string \<Rightarrow> nat \<Rightarrow> nat \<Rightarrow> nat \<Rightarrow> int \<Rightarrow> status result" where
  "logdevice_append_async client_append logid payload offset len mvar cap =
     append_payload_async mvar cap client_append logid payload offset len new_AppendAttributes"

definition logdevice_append_with_attrs_async ::
    "(u64 \<Rightarrow> string \<Rightarrow> append_callback \<Rightarrow> append_attributes \<Rightarrow> int \<times> status)
       \<Rightarrow> u64 \<Rightarrow> string \<Rightarrow> nat \<Rightarrow> nat \<Rightarrow> u8 \<Rightarrow> string \<Rightarrow> nat \<Rightarrow> int \<Rightarrow> status result" where
  "logdevice_append_with_attrs_async client_append logid payload offset len keytype keyval mvar cap =
     append_payload_async mvar cap client_append logid payload offset len
       (new_AppendAttributes\<lparr>optional_keys := omap_put keytype keyval []\<rparr>)"

section \<open>Appending a batch\<close>

text \<open>
  LogDevice's codec of batches and its client: the size an estimator computes for the payloads
  appended to it, the blob an encoder with a capacity and a size produces from the payloads
  appended to it, and \<open>ClientImpl::appendBatched\<close>.
\<close>

record 'b batch_lib =
  calculateSize :: "string list \<Rightarrow> nat"
  encode :: "int \<Rightarrow> nat \<Rightarrow> u8 \<Rightarrow> int \<Rightarrow> string list \<Rightarrow> 'b"
  appendBatched :: "u64 \<Rightarrow> 'b \<Rightarrow> append_callback \<Rightarrow> append_attributes \<Rightarrow> int \<times> status"

text \<open>One round of the loops over the payloads: the \<open>i\<close>-th payload, wrapped and appended.\<close>

definition wrap_payload ::
    "string list \<Rightarrow> (nat \<Rightarrow> i32 result) \<Rightarrow> (nat \<Rightarrow> i64 result) \<Rightarrow> nat \<Rightarrow> string list \<Rightarrow> string list result" where
  "wrap_payload payloads offset_at len_at i acc =
     (case read_elem payloads i of
        Inl e \<Rightarrow> Inl e
      | Inr p \<Rightarrow>
          (case offset_at i of
             Inl e \<Rightarrow> Inl e
           | Inr off \<Rightarrow>
               (case len_at i of
                  Inl e \<Rightarrow> Inl e
                | Inr len \<Rightarrow>
                    if sint off < 0 \<or> sint len < 0 then Inl out_of_bounds
                    else (case slice p (nat (sint off)) (nat (sint len)) of
                            Inl e \<Rightarrow> Inl e
                          | Inr b \<Rightarrow> Inr (acc @ [b])))))"

text \<open>One round of the loop over the attributes; \<open>undefined_key\<close> is \<open>KeyType::UNDEFINED\<close>.\<close>

definition put_key ::
    "u8 \<Rightarrow> u8 list \<Rightarrow> string list \<Rightarrow> nat \<Rightarrow> (u8 \<times> string) list \<Rightarrow> (u8 \<times> string) list result" where
  "put_key undefined_key keytypes keyvals i m =
     (case read_elem keytypes i of
        Inl e \<Rightarrow> Inl e
      | Inr keytype \<Rightarrow>
          if keytype \<noteq> undefined_key
          then (case read_str keyvals i of Inl e \<Rightarrow> Inl e | Inr v \<Rightarrow> Inr (omap_put keytype v m))
          else Inr m)"

definition APPEND_BATCH ::
    "'b batch_lib \<Rightarrow> u8 \<Rightarrow> u64 \<Rightarrow> string list \<Rightarrow> (nat \<Rightarrow> i32 result) \<Rightarrow> (nat \<Rightarrow> i64 result) \<Rightarrow> int
       \<Rightarrow> u8 \<Rightarrow> int \<Rightarrow> int \<Rightarrow> u8 list \<Rightarrow> string list \<Rightarrow> nat \<Rightarrow> int \<Rightarrow> status result" where
  "APPEND_BATCH L undefined_key logid payloads offset_at len_at total_len compression zstd_level
       attrs_len attrs_keytypes attrs_keyvals mvar cap =
     (case fold_result (wrap_payload payloads offset_at len_at) [0..<nat total_len] [] of
        Inl e \<Rightarrow> Inl e
      | Inr estimated \<Rightarrow>
          (let total_blob_bytes = calculateSize L estimated in
           case fold_result (wrap_payload payloads offset_at len_at) [0..<nat total_len] [] of
             Inl e \<Rightarrow> Inl e
           | Inr appended \<Rightarrow>
               (let blob = encode L total_len total_blob_bytes compression zstd_level appended in
                case fold_result (put_key undefined_key attrs_keytypes attrs_keyvals) [0..<nat attrs_len] [] of
                  Inl e \<Rightarrow> Inl e
                | Inr ks \<Rightarrow>
                    (case appendBatched L logid blob (append_cb cap mvar) (new_AppendAttributes\<lparr>optional_keys := ks\<rparr>) of
                       (rv, err) \<Rightarrow> Inr (status_of_ret rv err)))))"

definition logdevice_append_batch_rts ::
    "'b batch_lib \<Rightarrow> u8 \<Rightarrow> u64 \<Rightarrow> string list \<Rightarrow> i64 list \<Rightarrow> int \<Rightarrow> u8 \<Rightarrow> int \<Rightarrow> int \<Rightarrow> u8 list \<Rightarrow> string list
       \<Rightarrow> nat \<Rightarrow> int \<Rightarrow> status result" where
  "logdevice_append_batch_rts L undefined_key logid payloads payload_lens total_len =
     APPEND_BATCH L undefined_key logid payloads (\<lambda>_. Inr 0) (read_elem payload_lens) total_len"

definition logdevice_append_batch ::
    "'b batch_lib \<Rightarrow> u8 \<Rightarrow> u64 \<Rightarrow> string list \<Rightarrow> i32 list \<Rightarrow> i32 list \<Rightarrow> int \<Rightarrow> u8 \<Rightarrow> int \<Rightarrow> int \<Rightarrow> u8 list
       \<Rightarrow> string list \<Rightarrow> nat \<Rightarrow> int \<Rightarrow> status result" where
  "logdevice_append_batch L undefined_key logid payloads payload_offsets payload_lens total_len =
     APPEND_BATCH L undefined_key logid payloads (read_elem payload_offsets)
       (\<lambda>i. map_sum id scast (read_elem payload_lens i)) total_len"

section \<open>What a batch contains\<close>

text \<open>The payloads of a batch: the given range of each buffer.\<close>

definition batch_slices :: "string list \<Rightarrow> i32 list \<Rightarrow> i32 list \<Rightarrow> nat \<Rightarrow> string list" where
  "batch_slices payloads offsets lens n =
     map (\<lambda>i. take (nat (sint (lens ! i))) (drop (nat (sint (offsets ! i))) (payloads ! i))) [0..<n]"

definition batch_ok :: "string list \<Rightarrow> i32 list \<Rightarrow> i32 list \<Rightarrow> nat \<Rightarrow> bool" where
  "batch_ok payloads offsets lens n \<longleftrightarrow>
     n \<le> length payloads \<and> n \<le> length offsets \<and> n \<le> length lens \<and>
     list_all (\<lambda>i. 0 \<le> sint (offsets ! i) \<and> 0 \<le> sint (lens ! i) \<and>
       nat (sint (offsets ! i)) + nat (sint (lens ! i)) \<le> length (payloads ! i)) [0..<n]"

lemma wrap_payloads:
  "batch_ok payloads offsets lens n \<Longrightarrow>
   fold_result (wrap_payload payloads (read_elem offsets) (\<lambda>i. map_sum id scast (read_elem lens i)))
     [0..<n] [] = Inr (batch_slices payloads offsets lens n)"
proof (induction n)
  case 0
  then show ?case by (simp add: batch_slices_def)
next
  case (Suc n)
  have "sint (scast (lens ! n) :: i64) = sint (lens ! n)" by (simp add: sint_up_scast is_up)
  with Suc show ?case
    by (simp add: fold_result_append wrap_payload_def read_elem_def slice_def batch_ok_def batch_slices_def)
qed

lemma put_keys:
  "n \<le> length keytypes \<Longrightarrow> n \<le> length keyvals \<Longrightarrow>
   list_all (\<lambda>b. CHR 0x00 \<in> set b) (take n keyvals) \<Longrightarrow>
   \<exists>m. fold_result (put_key u keytypes keyvals) [0..<n] [] = Inr m \<and> omap_wf m \<and> map_of m u = None"
proof (induction n)
  case 0
  then show ?case by simp
next
  case (Suc n)
  then have "list_all (\<lambda>b. CHR 0x00 \<in> set b) (take n keyvals)"
    by (simp add: take_Suc_conv_app_nth)
  with Suc obtain m where m: "fold_result (put_key u keytypes keyvals) [0..<n] [] = Inr m" "omap_wf m"
      "map_of m u = None" by auto
  have "CHR 0x00 \<in> set (keyvals ! n)"
    using Suc.prems by (simp add: list_all_iff take_Suc_conv_app_nth)
  then have "put_key u keytypes keyvals n m =
      Inr (if keytypes ! n = u then m
           else omap_put (keytypes ! n) (takeWhile (\<lambda>c. c \<noteq> CHR 0x00) (keyvals ! n)) m)"
    using Suc.prems by (simp add: put_key_def read_elem_def read_str_def c_str_def)
  with m show ?case by (simp add: fold_result_append omap_put_wf omap_put_lookup)
qed

text \<open>
  \<^bold>\<open>C25.\<close> A batch that is handed to the client contains, after decoding, the requested range of every
  buffer in the order of the buffers. The encoder gets the number of payloads and the size estimated
  for exactly these payloads, no attribute of the undefined key type is passed on, and the status is
  \<open>OK\<close> if the client accepts the batch and the client's error otherwise.
\<close>

theorem append_batch_payloads:
  assumes codec: "\<forall>n size c z ps. n = int (length ps) \<and> size = calculateSize L ps \<longrightarrow>
      decode (encode L n size c z ps) = Some ps"
    and ok: "batch_ok payloads offsets lens (nat total_len)" "0 \<le> total_len"
    and keys: "nat attrs_len \<le> length keytypes" "nat attrs_len \<le> length keyvals"
      "list_all (\<lambda>b. CHR 0x00 \<in> set b) (take (nat attrs_len) keyvals)"
  shows "\<exists>blob attrs.
     logdevice_append_batch L undefined_key logid payloads offsets lens total_len compression zstd_level
       attrs_len keytypes keyvals mvar cap =
       Inr (case appendBatched L logid blob (append_cb cap mvar) attrs of (rv, err) \<Rightarrow> if rv = 0 then E_OK else err) \<and>
     decode blob = Some (batch_slices payloads offsets lens (nat total_len)) \<and>
     map_of (optional_keys attrs) undefined_key = None"
proof -
  let ?ps = "batch_slices payloads offsets lens (nat total_len)"
  let ?blob = "encode L total_len (calculateSize L ?ps) compression zstd_level ?ps"
  obtain m where m: "fold_result (put_key undefined_key keytypes keyvals) [0..<nat attrs_len] [] = Inr m"
      "map_of m undefined_key = None"
    using put_keys [OF keys] by blast
  have "decode ?blob = Some ?ps"
  proof -
    have "total_len = int (length ?ps)" using ok(2) by (simp add: batch_slices_def)
    with codec show ?thesis by blast
  qed
  then show ?thesis
    using wrap_payloads [OF ok(1)] m
    by (intro exI [of _ ?blob] exI [of _ "new_AppendAttributes\<lparr>optional_keys := m\<rparr>"])
      (simp add: logdevice_append_batch_def APPEND_BATCH_def status_of_ret_def split: prod.split)
qed

text \<open>A codec that keeps the payloads as they are.\<close>

definition list_batch :: "string list batch_lib" where
  "list_batch = \<lparr>calculateSize = \<lambda>ps. sum_list (map length ps),
     encode = \<lambda>_ _ _ _ ps. ps, appendBatched = \<lambda>_ _ _ _. (0, E_OK)\<rparr>"

theorem append_batch_payloads_witness:
  "\<exists>blob attrs.
     logdevice_append_batch list_batch 255 9 [''abcd'', ''xyz''] [1, 0] [2, 3] 2 0 0 1 [4] [''k'' @ [CHR 0x00]] 5 0 =
       Inr (case appendBatched list_batch 9 blob (append_cb 0 5) attrs of (rv, err) \<Rightarrow> if rv = 0 then E_OK else err) \<and>
     Some blob = Some [''bc'', ''xyz''] \<and> map_of (optional_keys attrs) 255 = None"
proof -
  have slices: "batch_slices [''abcd'', ''xyz''] [1, 0] [2, 3] 2 = [''bc'', ''xyz'']" by code_simp
  have ok: "batch_ok [''abcd'', ''xyz''] [1, 0] [2, 3] (nat 2)" by code_simp
  show ?thesis
    using append_batch_payloads [where L = list_batch and decode = Some and payloads = "[''abcd'', ''xyz'']"
        and offsets = "[1, 0]" and lens = "[2, 3]" and total_len = 2 and attrs_len = 1 and keytypes = "[4]"
        and keyvals = "[''k'' @ [CHR 0x00]]" and undefined_key = 255 and logid = 9 and compression = 0
        and zstd_level = 0 and mvar = 5 and cap = 0, OF _ ok] slices
    by (simp add: list_batch_def)
qed

end
