(* ===== verification/Store_Logs.thy ===== *)
theory Store_Logs
  imports Store_Attributes
begin

text \<open>
  Log groups and log directories (\<open>hs_logconfigtypes.cpp\<close>): the attributes of the head and the tail of
  a log, creating, finding, changing and removing log groups and directories, and walking through a
  directory. A function of the interface passes a request with a callback to LogDevice's client;
  the client answers later by running the callback on memory of the Haskell caller.
\<close>

section \<open>LogDevice's log groups and directories\<close>

text \<open>
  What the getters of \<open>LogGroup\<close> and \<open>Directory\<close> return; \<open>'a\<close> is the type of \<open>LogAttributes\<close>. The
  children and the log groups of a directory are maps from names.
\<close>

record 'a log_group =
  lg_name :: string
  lg_full_name :: string
  lg_range :: "u64 \<times> u64"
  lg_attrs :: 'a
  lg_version :: u64

datatype 'a directory =
  Directory (dir_name: string) (dir_full_name: string) (dir_version: u64) (dir_attrs: 'a)
    (dir_children: "(string \<times> 'a directory) list") (dir_logs: "(string \<times> 'a log_group) list")

text \<open>LogDevice's \<open>LogTailAttributes\<close>, and what of \<open>LogHeadAttributes\<close> is read.\<close>

record lib_tail_attributes =
  lt_last_released_real_lsn :: u64
  lt_last_timestamp :: i64
  lt_byte_offset :: u64

record lib_head_attributes =
  lh_trim_point_timestamp :: i64
  lh_trim_point :: u64

section \<open>Callbacks\<close>

text \<open>
  \<open>make_loggroup_cb_data_t\<close> and \<open>make_directory_cb_data_t\<close>, which differ in the handle they hold;
  a null handle is \<^const>\<open>None\<close>.
\<close>

record 'h make_cb_data =
  mk_st :: status
  mk_handle :: "'h option"
  mk_failure_reason :: string

record logsconfig_status_cb_data =
  ls_st :: status
  ls_version :: u64
  ls_failure_reason :: string

record log_head_attributes_cb_data =
  hd_st :: status
  hd_head_attributes :: "lib_head_attributes option"

record logdevice_log_tail_attributes =
  last_released_real_lsn :: u64
  last_timestamp :: i64
  tail_offsets :: u64

record log_tail_attributes_cb_data =
  tl_st :: status
  tl_tail_attributes :: "logdevice_log_tail_attributes option"

type_synonym 'h make_callback =
  "status \<Rightarrow> 'h option \<Rightarrow> string \<Rightarrow> 'h make_cb_data cb_mem \<Rightarrow> 'h make_cb_data cb_mem"

type_synonym logsconfig_callback =
  "status \<Rightarrow> u64 \<Rightarrow> string \<Rightarrow> logsconfig_status_cb_data cb_mem \<Rightarrow> logsconfig_status_cb_data cb_mem"

definition make_cb :: "int \<Rightarrow> nat \<Rightarrow> 'h make_callback" where
  "make_cb cap mvar st ptr failure_reason =
     cb_finish cap mvar
       (\<lambda>d. d\<lparr>mk_st := st, mk_handle := ptr, mk_failure_reason := strdup failure_reason\<rparr>)"

definition logsconfig_cb :: "int \<Rightarrow> nat \<Rightarrow> logsconfig_callback" where
  "logsconfig_cb cap mvar st version failure_reason =
     cb_finish cap mvar
       (\<lambda>d. d\<lparr>ls_st := st, ls_version := version, ls_failure_reason := strdup failure_reason\<rparr>)"

definition head_attributes_cb ::
    "int \<Rightarrow> nat \<Rightarrow> status \<Rightarrow> lib_head_attributes option \<Rightarrow> log_head_attributes_cb_data cb_mem
       \<Rightarrow> log_head_attributes_cb_data cb_mem" where
  "head_attributes_cb cap mvar st head_attrs_ptr =
     cb_finish cap mvar (\<lambda>d. d\<lparr>hd_st := st, hd_head_attributes := head_attrs_ptr\<rparr>)"

definition tail_attributes_cb ::
    "int \<Rightarrow> nat \<Rightarrow> status \<Rightarrow> lib_tail_attributes option \<Rightarrow> log_tail_attributes_cb_data cb_mem
       \<Rightarrow> log_tail_attributes_cb_data cb_mem" where
  "tail_attributes_cb cap mvar st tail_attr_ptr =
     cb_finish cap mvar (\<lambda>d. d\<lparr>tl_st := st, tl_tail_attributes :=
       map_option (\<lambda>t. \<lparr>last_released_real_lsn = lt_last_released_real_lsn t,
         last_timestamp = lt_last_timestamp t, tail_offsets = lt_byte_offset t\<rparr>) tail_attr_ptr\<rparr>)"

text \<open>
  Memory of the callers that pass a pointer for the status and one for the result. Either may be the
  null pointer.
\<close>

record 'r get_mem =
  gm_st_out :: "status option"
  gm_result :: "'r option"
  gm_putmvars :: "(int \<times> nat) list"

definition gm_wake :: "int \<Rightarrow> nat \<Rightarrow> 'r get_mem \<Rightarrow> 'r get_mem" where
  "gm_wake cap mvar m = m\<lparr>gm_putmvars := gm_putmvars m @ [(cap, mvar)]\<rparr>"

text \<open>
  \<open>ld_client_get_loggroup\<close> and \<open>ld_client_get_loggroup_by_id\<close>: the status is written without a test of
  the pointer, and the branch taken for a null result pointer writes through it.
\<close>

definition get_loggroup_cb ::
    "int \<Rightarrow> nat \<Rightarrow> status \<Rightarrow> 'a log_group option \<Rightarrow> 'a log_group option get_mem
       \<Rightarrow> 'a log_group option get_mem result" where
  "get_loggroup_cb cap mvar st loggroup_ptr m =
     (if gm_st_out m = None then Inl null_pointer
      else let m = m\<lparr>gm_st_out := Some st\<rparr> in
        if gm_result m \<noteq> None \<and> loggroup_ptr \<noteq> None
        then Inr (gm_wake cap mvar (m\<lparr>gm_result := Some loggroup_ptr\<rparr>))
        else if gm_result m = None then Inl null_pointer
        else Inr (gm_wake cap mvar (m\<lparr>gm_result := Some None\<rparr>)))"

definition logid_has_group_cb ::
    "int \<Rightarrow> nat \<Rightarrow> status \<Rightarrow> 'a log_group option \<Rightarrow> bool get_mem \<Rightarrow> bool get_mem result" where
  "logid_has_group_cb cap mvar st loggroup m =
     (if gm_st_out m = None \<or> gm_result m = None then Inl null_pointer
      else Inr (gm_wake cap mvar (m\<lparr>gm_st_out := Some st, gm_result := Some (loggroup \<noteq> None)\<rparr>)))"

definition get_directory_cb ::
    "int \<Rightarrow> nat \<Rightarrow> status \<Rightarrow> 'a directory option \<Rightarrow> 'a directory option get_mem
       \<Rightarrow> 'a directory option get_mem" where
  "get_directory_cb cap mvar st logdir m =
     gm_wake cap mvar
       (if gm_st_out m \<noteq> None \<and> gm_result m \<noteq> None
        then (let m = m\<lparr>gm_st_out := Some st\<rparr> in
              if logdir \<noteq> None then m\<lparr>gm_result := Some logdir\<rparr> else m)
        else m)"

section \<open>Requests\<close>

text \<open>The asynchronous methods of \<open>Client\<close> that are called, with their callbacks.\<close>

datatype 'a config_request =
    getHeadAttributes u64
      "status \<Rightarrow> lib_head_attributes option \<Rightarrow> log_head_attributes_cb_data cb_mem
         \<Rightarrow> log_head_attributes_cb_data cb_mem"
  | getTailAttributes u64
      "status \<Rightarrow> lib_tail_attributes option \<Rightarrow> log_tail_attributes_cb_data cb_mem
         \<Rightarrow> log_tail_attributes_cb_data cb_mem"
  | makeLogGroup string "u64 \<times> u64" 'a bool "'a log_group make_callback"
  | getLogGroup string
      "status \<Rightarrow> 'a log_group option \<Rightarrow> 'a log_group option get_mem \<Rightarrow> 'a log_group option get_mem result"
  | getLogGroupById u64
      "status \<Rightarrow> 'a log_group option \<Rightarrow> 'a log_group option get_mem \<Rightarrow> 'a log_group option get_mem result"
  | hasLogGroupById u64 "status \<Rightarrow> 'a log_group option \<Rightarrow> bool get_mem \<Rightarrow> bool get_mem result"
  | removeLogGroup string logsconfig_callback
  | makeDirectory string bool 'a "'a directory make_callback"
  | removeDirectory string bool logsconfig_callback
  | getDirectory string
      "status \<Rightarrow> 'a directory option \<Rightarrow> 'a directory option get_mem \<Rightarrow> 'a directory option get_mem"
  | renamePath string string logsconfig_callback
  | setAttributes string 'a logsconfig_callback
  | setLogGroupRange string "u64 \<times> u64" logsconfig_callback

text \<open>
  Passing a request on: the client returns an \<open>int\<close> and sets \<open>err\<close>. The result of a function is the
  status it returns and the request it passed on.
\<close>

definition submit ::
    "('a config_request \<Rightarrow> int \<times> status) \<Rightarrow> 'a config_request \<Rightarrow> status \<times> 'a config_request" where
  "submit client req = (case client req of (ret, err) \<Rightarrow> (status_of_ret ret err, req))"

text \<open>\<open>attrs ? *attrs : LogAttributes()\<close>.\<close>

definition attrs_or_default :: "'a attrs_lib \<Rightarrow> 'a option \<Rightarrow> 'a" where
  "attrs_or_default L attrs = (case attrs of Some a \<Rightarrow> a | None \<Rightarrow> LogAttributes L)"

definition get_head_attributes ::
    "('a config_request \<Rightarrow> int \<times> status) \<Rightarrow> u64 \<Rightarrow> nat \<Rightarrow> int \<Rightarrow> status \<times> 'a config_request" where
  "get_head_attributes client logid mvar cap =
     submit client (getHeadAttributes logid (head_attributes_cb cap mvar))"

definition get_trim_point_timestamp :: "lib_head_attributes \<Rightarrow> i64" where
  "get_trim_point_timestamp head_attributes = lh_trim_point_timestamp head_attributes"

definition get_trim_point :: "lib_head_attributes \<Rightarrow> u64" where
  "get_trim_point head_attributes = lh_trim_point head_attributes"

definition valid_log_tail_attributes :: "u64 \<Rightarrow> logdevice_log_tail_attributes \<Rightarrow> bool" where
  "valid_log_tail_attributes lsn_invalid attributes \<longleftrightarrow>
     last_released_real_lsn attributes \<noteq> lsn_invalid \<and> last_timestamp attributes \<noteq> 0"

definition ld_client_get_tail_attributes ::
    "('a config_request \<Rightarrow> int \<times> status) \<Rightarrow> u64 \<Rightarrow> nat \<Rightarrow> int \<Rightarrow> status \<times> 'a config_request" where
  "ld_client_get_tail_attributes client logid mvar cap =
     submit client (getTailAttributes logid (tail_attributes_cb cap mvar))"

definition ld_client_make_loggroup ::
    "'a attrs_lib \<Rightarrow> ('a config_request \<Rightarrow> int \<times> status) \<Rightarrow> string \<Rightarrow> u64 \<Rightarrow> u64 \<Rightarrow> 'a option \<Rightarrow> bool
       \<Rightarrow> nat \<Rightarrow> int \<Rightarrow> status \<times> 'a config_request" where
  "ld_client_make_loggroup L client path start end' attrs mk_intermediate_dirs mvar cap =
     submit client
       (makeLogGroup path (start, end') (attrs_or_default L attrs) mk_intermediate_dirs (make_cb cap mvar))"

text \<open>The next three do not look at what the client returns.\<close>

definition ld_client_get_loggroup :: "string \<Rightarrow> nat \<Rightarrow> int \<Rightarrow> 'a config_request" where
  "ld_client_get_loggroup path mvar cap = getLogGroup path (get_loggroup_cb cap mvar)"

definition ld_client_get_loggroup_by_id :: "u64 \<Rightarrow> nat \<Rightarrow> int \<Rightarrow> 'a config_request" where
  "ld_client_get_loggroup_by_id logid mvar cap = getLogGroupById logid (get_loggroup_cb cap mvar)"

definition ld_client_logid_has_group :: "u64 \<Rightarrow> nat \<Rightarrow> int \<Rightarrow> 'a config_request" where
  "ld_client_logid_has_group logid mvar cap = hasLogGroupById logid (logid_has_group_cb cap mvar)"

definition ld_client_remove_loggroup ::
    "('a config_request \<Rightarrow> int \<times> status) \<Rightarrow> string \<Rightarrow> nat \<Rightarrow> int \<Rightarrow> status \<times> 'a config_request" where
  "ld_client_remove_loggroup client path mvar cap =
     submit client (removeLogGroup path (logsconfig_cb cap mvar))"

definition ld_loggroup_get_range :: "'a log_group \<Rightarrow> u64 \<times> u64" where
  "ld_loggroup_get_range grp = (fst (lg_range grp), snd (lg_range grp))"

definition ld_client_set_attributes ::
    "('a config_request \<Rightarrow> int \<times> status) \<Rightarrow> string \<Rightarrow> 'a \<Rightarrow> nat \<Rightarrow> int \<Rightarrow> status \<times> 'a config_request" where
  "ld_client_set_attributes client path attrs mvar cap =
     submit client (setAttributes path attrs (logsconfig_cb cap mvar))"

definition ld_loggroup_update_extra_attrs ::
    "'a attrs_lib \<Rightarrow> ('a config_request \<Rightarrow> int \<times> status) \<Rightarrow> 'a log_group \<Rightarrow> int \<Rightarrow> string list \<Rightarrow> string list
       \<Rightarrow> nat \<Rightarrow> int \<Rightarrow> (status \<times> 'a config_request) result" where
  "ld_loggroup_update_extra_attrs L client grp len keys vals mvar cap =
     (let logAttrs = lg_attrs grp;
          es = (case val_of (extras (getters L logAttrs)) of Some es \<Rightarrow> es | None \<Rightarrow> [])
      in case (if len > 0 then put_extras keys vals len es else Inr es) of
           Inl e \<Rightarrow> Inl e
         | Inr es \<Rightarrow>
             Inr (ld_client_set_attributes client (until_nul (lg_full_name grp))
                    (with_extras_value L es logAttrs) mvar cap))"

definition ld_client_make_directory ::
    "'a attrs_lib \<Rightarrow> ('a config_request \<Rightarrow> int \<times> status) \<Rightarrow> string \<Rightarrow> bool \<Rightarrow> 'a option
       \<Rightarrow> nat \<Rightarrow> int \<Rightarrow> status \<times> 'a config_request" where
  "ld_client_make_directory L client path mk_intermediate_dirs attrs mvar cap =
     submit client
       (makeDirectory path mk_intermediate_dirs (attrs_or_default L attrs) (make_cb cap mvar))"

definition ld_client_remove_directory ::
    "('a config_request \<Rightarrow> int \<times> status) \<Rightarrow> string \<Rightarrow> bool \<Rightarrow> nat \<Rightarrow> int \<Rightarrow> status \<times> 'a config_request" where
  "ld_client_remove_directory client path recursive mvar cap =
     submit client (removeDirectory path recursive (logsconfig_cb cap mvar))"

definition ld_client_get_directory ::
    "('a config_request \<Rightarrow> int \<times> status) \<Rightarrow> string \<Rightarrow> nat \<Rightarrow> int \<Rightarrow> status \<times> 'a config_request" where
  "ld_client_get_directory client path mvar cap =
     submit client (getDirectory path (get_directory_cb cap mvar))"

definition ld_client_sync_logsconfig_version :: "(u64 \<Rightarrow> bool \<times> status) \<Rightarrow> u64 \<Rightarrow> status" where
  "ld_client_sync_logsconfig_version syncLogsConfigVersion version =
     (case syncLogsConfigVersion version of
        (ret, err) \<Rightarrow> if ret \<or> err = E_LOGS_SECTION_MISSING then E_OK else err)"

definition ld_client_rename ::
    "('a config_request \<Rightarrow> int \<times> status) \<Rightarrow> string \<Rightarrow> string \<Rightarrow> nat \<Rightarrow> int \<Rightarrow> status \<times> 'a config_request" where
  "ld_client_rename client from_path to_path mvar cap =
     submit client (renamePath from_path to_path (logsconfig_cb cap mvar))"

definition ld_client_set_log_group_range ::
    "('a config_request \<Rightarrow> int \<times> status) \<Rightarrow> string \<Rightarrow> u64 \<Rightarrow> u64 \<Rightarrow> nat \<Rightarrow> int
       \<Rightarrow> status \<times> 'a config_request" where
  "ld_client_set_log_group_range client path start end' mvar cap =
     submit client (setLogGroupRange path (start, end') (logsconfig_cb cap mvar))"

text \<open>
  The synchronous functions: the client returns the object, or nothing and sets \<open>err\<close>; \<open>*result\<close> is
  written only on success.
\<close>

definition handle_or_err :: "'h option \<times> status \<Rightarrow> 'h option \<Rightarrow> status \<times> 'h option" where
  "handle_or_err r result_place =
     (case r of (Some h, _) \<Rightarrow> (E_OK, Some h) | (None, err) \<Rightarrow> (err, result_place))"

definition ld_client_make_loggroup_sync ::
    "'a attrs_lib \<Rightarrow> (string \<Rightarrow> u64 \<times> u64 \<Rightarrow> 'a \<Rightarrow> bool \<Rightarrow> 'a log_group option \<times> status)
       \<Rightarrow> string \<Rightarrow> u64 \<Rightarrow> u64 \<Rightarrow> 'a option \<Rightarrow> bool \<Rightarrow> 'a log_group option
       \<Rightarrow> status \<times> 'a log_group option" where
  "ld_client_make_loggroup_sync L makeLogGroupSync path start end' attrs mk_intermediate_dirs place =
     handle_or_err (makeLogGroupSync path (start, end') (attrs_or_default L attrs) mk_intermediate_dirs) place"

definition ld_client_get_loggroup_sync ::
    "(string \<Rightarrow> 'a log_group option \<times> status) \<Rightarrow> string \<Rightarrow> 'a log_group option
       \<Rightarrow> status \<times> 'a log_group option" where
  "ld_client_get_loggroup_sync getLogGroupSync path place = handle_or_err (getLogGroupSync path) place"

definition ld_client_remove_loggroup_sync ::
    "(string \<Rightarrow> u64 \<Rightarrow> bool \<times> u64 \<times> status) \<Rightarrow> string \<Rightarrow> u64 \<Rightarrow> status \<times> u64" where
  "ld_client_remove_loggroup_sync removeLogGroupSync path version =
     (case removeLogGroupSync path version of
        (ret, version, err) \<Rightarrow> (if ret then E_OK else err, version))"

definition ld_client_make_directory_sync ::
    "'a attrs_lib \<Rightarrow> (string \<Rightarrow> bool \<Rightarrow> 'a \<Rightarrow> 'a directory option \<times> status)
       \<Rightarrow> string \<Rightarrow> bool \<Rightarrow> 'a option \<Rightarrow> 'a directory option \<Rightarrow> status \<times> 'a directory option" where
  "ld_client_make_directory_sync L makeDirectorySync path mk_intermediate_dirs attrs place =
     handle_or_err (makeDirectorySync path mk_intermediate_dirs (attrs_or_default L attrs)) place"

section \<open>Directories\<close>

text \<open>\<open>DIR_MAP_ATTR_KEYS\<close> with \<open>getKeys\<close>: the vector of the keys, its length and its data.\<close>

definition getKeys :: "(string \<times> 'v) list \<Rightarrow> string list" where
  "getKeys container = fold (\<lambda>x keys. keys @ [fst x]) container []"

definition DIR_MAP_ATTR_KEYS :: "('a directory \<Rightarrow> (string \<times> 'v) list) \<Rightarrow> 'a directory \<Rightarrow> nat \<times> string list" where
  "DIR_MAP_ATTR_KEYS attr_map dir = (let keys = getKeys (attr_map dir) in (length keys, keys))"

text \<open>\<open>LD_LOGDIRECTORY_MAP_ATTR\<close>: an attribute of the child or log group of a name.\<close>

definition LD_LOGDIRECTORY_MAP_ATTR ::
    "('a directory \<Rightarrow> (string \<times> 'v) list) \<Rightarrow> ('v \<Rightarrow> 'r) \<Rightarrow> 'r \<Rightarrow> 'a directory \<Rightarrow> string \<Rightarrow> 'r" where
  "LD_LOGDIRECTORY_MAP_ATTR attr_map find_fun not_fun dir key =
     (case map_of (attr_map dir) key of Some v \<Rightarrow> find_fun v | None \<Rightarrow> not_fun)"

definition ld_logdir_child_name :: "'a directory \<Rightarrow> string \<Rightarrow> string option" where
  "ld_logdir_child_name = LD_LOGDIRECTORY_MAP_ATTR dir_children (Some \<circ> dir_name) None"

definition ld_logdir_child_full_name :: "'a directory \<Rightarrow> string \<Rightarrow> string option" where
  "ld_logdir_child_full_name = LD_LOGDIRECTORY_MAP_ATTR dir_children (Some \<circ> dir_full_name) None"

definition ld_logdir_child_version :: "'a directory \<Rightarrow> string \<Rightarrow> u64" where
  "ld_logdir_child_version = LD_LOGDIRECTORY_MAP_ATTR dir_children dir_version 0"

definition ld_logdir_log_name :: "'a directory \<Rightarrow> string \<Rightarrow> string option" where
  "ld_logdir_log_name = LD_LOGDIRECTORY_MAP_ATTR dir_logs (Some \<circ> lg_name) None"

definition ld_logdir_log_full_name :: "'a directory \<Rightarrow> string \<Rightarrow> string option" where
  "ld_logdir_log_full_name = LD_LOGDIRECTORY_MAP_ATTR dir_logs (Some \<circ> lg_full_name) None"

definition ld_logdir_log_version :: "'a directory \<Rightarrow> string \<Rightarrow> u64" where
  "ld_logdir_log_version = LD_LOGDIRECTORY_MAP_ATTR dir_logs lg_version 0"

definition ld_logdir_log_attrs :: "'a directory \<Rightarrow> string \<Rightarrow> 'a option" where
  "ld_logdir_log_attrs = LD_LOGDIRECTORY_MAP_ATTR dir_logs (Some \<circ> lg_attrs) None"

text \<open>\<open>*start\<close> and \<open>*end\<close> keep their values if there is no such log group.\<close>

definition ld_logdir_logs_range :: "'a directory \<Rightarrow> string \<Rightarrow> u64 \<times> u64 \<Rightarrow> u64 \<times> u64" where
  "ld_logdir_logs_range dir key places =
     (case map_of (dir_logs dir) key of
        Some grp \<Rightarrow> (fst (lg_range grp), snd (lg_range grp))
      | None \<Rightarrow> places)"

text \<open>The recursive walk, appending to the vector of the caller.\<close>

fun get_logs_name :: "'a directory \<Rightarrow> bool \<Rightarrow> string list \<Rightarrow> string list" where
  "get_logs_name (Directory name full version attrs children logs) recurse lognames =
     (let lognames = fold (\<lambda>(key, val) acc. acc @ [lg_full_name val]) logs lognames
      in if recurse
         then fold (\<lambda>kv acc. get_logs_name (snd kv) recurse acc) children lognames
         else lognames)"

definition ld_logdirectory_get_logs_name :: "'a directory \<Rightarrow> bool \<Rightarrow> nat \<times> string list" where
  "ld_logdirectory_get_logs_name dir recursive =
     (let lognames = get_logs_name dir recursive [] in (length lognames, lognames))"

section \<open>The walk lists every log group once\<close>

text \<open>
  A log group has a position in a directory: the keys of the directories on the way and its own key.
  Without recursion only the groups of the directory itself count.
\<close>

inductive located :: "bool \<Rightarrow> string list \<Rightarrow> 'a log_group \<Rightarrow> 'a directory \<Rightarrow> bool"
  for recurse :: bool where
  here: "(k, grp) \<in> set (dir_logs d) \<Longrightarrow> located recurse [k] grp d"
| below: "recurse \<Longrightarrow> (k, c) \<in> set (dir_children d) \<Longrightarrow> located recurse path grp c \<Longrightarrow>
    located recurse (k # path) grp d"

inductive_cases located_in: "located recurse path grp (Directory name full version attrs children logs)"

text \<open>The keys of the two maps of a directory are distinct, in all directories below it too.\<close>

fun dir_wf :: "'a directory \<Rightarrow> bool" where
  "dir_wf (Directory name full version attrs children logs) \<longleftrightarrow>
     distinct (map fst logs) \<and> distinct (map fst children) \<and>
     list_all (\<lambda>kv. dir_wf (snd kv)) children"

text \<open>The reference: the positions and groups in the order of the walk.\<close>

fun groups_of :: "bool \<Rightarrow> 'a directory \<Rightarrow> (string list \<times> 'a log_group) list" where
  "groups_of recurse (Directory name full version attrs children logs) =
     map (\<lambda>(k, grp). ([k], grp)) logs @
     (if recurse
      then concat (map (\<lambda>kc. map (\<lambda>(path, grp). (fst kc # path, grp)) (groups_of recurse (snd kc))) children)
      else [])"

lemma append_names: "fold (\<lambda>(key, val) acc. acc @ [lg_full_name val]) logs acc = acc @ map (lg_full_name \<circ> snd) logs"
  by (induction logs arbitrary: acc) auto

lemma get_logs_name_groups: "get_logs_name d recurse acc = acc @ map (lg_full_name \<circ> snd) (groups_of recurse d)"
proof (induction d arbitrary: acc)
  case (Directory name full version attrs children logs)
  have walk: "fold (\<lambda>kv acc. get_logs_name (snd kv) recurse acc) cs acc =
      acc @ concat (map (\<lambda>kc. map (lg_full_name \<circ> snd) (groups_of recurse (snd kc))) cs)"
    if "set cs \<subseteq> set children" for cs acc
    using that
  proof (induction cs arbitrary: acc)
    case Nil
    then show ?case by simp
  next
    case (Cons c cs)
    then have "get_logs_name (snd c) recurse acc =
        acc @ map (lg_full_name \<circ> snd) (groups_of recurse (snd c))"
      by (intro Directory.IH [of c]) (auto simp: snds.simps)
    with Cons show ?case by simp
  qed
  show ?case
    using walk [OF order_refl]
    by (cases recurse) (simp_all add: append_names [unfolded split_def] map_concat comp_def split_def)
qed

lemma groups_of_located: "(path, grp) \<in> set (groups_of recurse d) \<longleftrightarrow> located recurse path grp d"
proof (induction d arbitrary: path)
  case (Directory name full version attrs children logs)
  have IH: "(path, grp) \<in> set (groups_of recurse (snd c)) \<longleftrightarrow> located recurse path grp (snd c)"
    if "c \<in> set children" for c path
    using that by (intro Directory.IH [of c]) (auto simp: snds.simps)
  have "(path, grp) \<in> set (groups_of recurse (Directory name full version attrs children logs)) \<longleftrightarrow>
      (\<exists>k. path = [k] \<and> (k, grp) \<in> set logs) \<or>
      (recurse \<and> (\<exists>k c p. path = k # p \<and> (k, c) \<in> set children \<and> located recurse p grp c))"
    using IH by (fastforce simp: image_iff)
  also have "\<dots> \<longleftrightarrow> located recurse path grp (Directory name full version attrs children logs)"
    by (auto elim!: located_in intro: located.here [of _ _ "Directory name full version attrs children logs", simplified]
        located.below [of _ _ _ "Directory name full version attrs children logs", simplified])
  finally show ?case .
qed

lemma groups_of_nonempty_paths: "(path, grp) \<in> set (groups_of recurse d) \<Longrightarrow> path \<noteq> []"
  by (auto simp: groups_of_located elim: located.cases)

lemma distinct_prefixed:
  assumes "distinct (map fst cs)" "\<And>c. c \<in> set cs \<Longrightarrow> distinct (map fst (f c))"
  shows "distinct (map fst (concat (map (\<lambda>c. map (\<lambda>(path, grp). (fst c # path, grp)) (f c)) cs)))"
  using assms
proof (induction cs)
  case Nil
  then show ?case by simp
next
  case (Cons c cs)
  let ?F = "\<lambda>c. map (\<lambda>(path, grp). (fst c # path, grp)) (f c)"
  have own: "map fst (?F c) = map ((#) (fst c)) (map fst (f c))"
    by (simp add: split_def comp_def)
  have inj: "distinct (map ((#) (fst c)) ps)" if "distinct ps" for ps
    using that by (simp add: distinct_map)
  have first: "distinct (map fst (?F c))"
    unfolding own using Cons.prems(2) [of c] by (intro inj) simp
  have rest: "distinct (map fst (concat (map ?F cs)))"
    using Cons by simp
  have "p \<notin> set (map fst (concat (map ?F cs)))" if "p \<in> set (map fst (?F c))" for p
  proof
    assume "p \<in> set (map fst (concat (map ?F cs)))"
    then have "hd p \<in> fst ` set cs" by force
    moreover have "hd p = fst c" using that unfolding own by auto
    ultimately show False using Cons.prems(1) by simp
  qed
  with first rest have "distinct (map fst (?F c) @ map fst (concat (map ?F cs)))"
    unfolding distinct_append by blast
  then show ?case by (simp only: list.map concat.simps map_append)
qed

lemma groups_of_distinct: "dir_wf d \<Longrightarrow> distinct (map fst (groups_of recurse d))"
proof (induction d)
  case (Directory name full version attrs children logs)
  let ?below = "concat (map (\<lambda>kc. map (\<lambda>(path, grp). (fst kc # path, grp)) (groups_of recurse (snd kc))) children)"
  have "distinct (map fst (groups_of recurse (snd c)))" if "c \<in> set children" for c
    using that Directory.prems by (intro Directory.IH [of c]) (auto simp: snds.simps list_all_iff)
  with Directory.prems have below: "distinct (map fst ?below)" by (intro distinct_prefixed) auto
  have here: "distinct (map fst (map (\<lambda>(k, grp). ([k], grp)) logs))"
    using Directory.prems by (simp add: split_def comp_def distinct_map inj_on_def)
  have apart: "p \<notin> set (map fst ?below)" if "p \<in> set (map fst (map (\<lambda>(k, grp). ([k], grp)) logs))" for p
    using that groups_of_nonempty_paths by fastforce
  show ?case
  proof (cases recurse)
    case True
    then have eq: "groups_of recurse (Directory name full version attrs children logs) =
        map (\<lambda>(k, grp). ([k], grp)) logs @ ?below" by simp
    show ?thesis unfolding eq map_append distinct_append using here below apart by blast
  next
    case False
    then show ?thesis using here by simp
  qed
qed

text \<open>
  \<^bold>\<open>C26.\<close> Listing the log groups of a directory returns the full name of every log group in it exactly
  once, in all directories below it if the listing is recursive and only in the directory itself if
  not, and the length of the list.
\<close>

theorem logs_listed_once:
  assumes "dir_wf dir"
  shows "\<exists>gs. distinct (map fst gs) \<and> set gs = {(path, grp). located recursive path grp dir} \<and>
    ld_logdirectory_get_logs_name dir recursive = (length gs, map (lg_full_name \<circ> snd) gs)"
proof (intro exI conjI)
  show "distinct (map fst (groups_of recursive dir))" using assms by (rule groups_of_distinct)
  show "set (groups_of recursive dir) = {(path, grp). located recursive path grp dir}"
    by (auto simp: groups_of_located)
  show "ld_logdirectory_get_logs_name dir recursive =
      (length (groups_of recursive dir), map (lg_full_name \<circ> snd) (groups_of recursive dir))"
    by (simp add: ld_logdirectory_get_logs_name_def get_logs_name_groups)
qed

definition sample_group :: "string \<Rightarrow> log_attributes log_group" where
  "sample_group name = \<lparr>lg_name = name, lg_full_name = ''/s/'' @ name, lg_range = (1, 1),
     lg_attrs = LogAttributes record_attrs, lg_version = 1\<rparr>"

definition sample_directory :: "log_attributes directory" where
  "sample_directory =
     Directory ''s'' ''/s'' 1 (LogAttributes record_attrs)
       [(''d'', Directory ''d'' ''/s/d'' 1 (LogAttributes record_attrs) [] [(''a'', sample_group ''d/a'')])]
       [(''a'', sample_group ''a''), (''b'', sample_group ''b'')]"

theorem logs_listed_once_witness:
  "dir_wf sample_directory \<and>
   ld_logdirectory_get_logs_name sample_directory True = (3, [''/s/a'', ''/s/b'', ''/s/d/a'']) \<and>
   (\<exists>gs. distinct (map fst gs) \<and> set gs = {(path, grp). located True path grp sample_directory} \<and>
     length gs = 3)"
proof -
  have wf: "dir_wf sample_directory" by (simp add: sample_directory_def)
  have run: "ld_logdirectory_get_logs_name sample_directory True = (3, [''/s/a'', ''/s/b'', ''/s/d/a''])"
    by (simp add: ld_logdirectory_get_logs_name_def sample_directory_def sample_group_def)
  from logs_listed_once [OF wf, of True] obtain gs where
    "distinct (map fst gs)" "set gs = {(path, grp). located True path grp sample_directory}"
    "ld_logdirectory_get_logs_name sample_directory True = (length gs, map (lg_full_name \<circ> snd) gs)"
    by blast
  with wf run show ?thesis by auto
qed

section \<open>Changing extras of a log group\<close>

text \<open>The attributes sent are those of \<^const>\<open>update_log_attrs_extras\<close> on the group's attributes.\<close>

lemma update_extra_attrs_request:
  "ld_loggroup_update_extra_attrs L client grp len keys vals mvar cap =
     (case update_log_attrs_extras L (lg_attrs grp) len keys vals of
        Inl e \<Rightarrow> Inl e
      | Inr a \<Rightarrow> Inr (ld_client_set_attributes client (until_nul (lg_full_name grp)) a mvar cap))"
  by (simp add: ld_loggroup_update_extra_attrs_def update_log_attrs_extras_def Let_def split: sum.split)


definition tagged_group :: "log_attributes log_group" where
  "tagged_group = (sample_group ''a'')\<lparr>lg_attrs :=
     with_extras_value record_attrs [(''k'', ''v'')] (LogAttributes record_attrs)\<rparr>"


end
