(* ===== verification/Store_Client.thy ===== *)
theory Store_Client
  imports Store_Logs
begin

text \<open>
  The client of the log store (\<open>hs_logdevice.cpp\<close>): creating it, its settings, and the requests for
  the tail of a log, trimming, and searching by time or key. LogDevice's client is a parameter.
\<close>

section \<open>Creating a client and its settings\<close>

definition new_logdevice_client ::
    "(string \<Rightarrow> 'c option \<times> status) \<Rightarrow> string \<Rightarrow> 'c option \<Rightarrow> status \<times> 'c option" where
  "new_logdevice_client create config_path client_ret = handle_or_err (create config_path) client_ret"

text \<open>
  \<open>value_or(nullptr)\<close> builds a \<open>std::string\<close> from the null pointer when the setting has no value, which
  the standard library answers with an exception.
\<close>

definition string_from_null :: cpp_error where
  "string_from_null = StdException ''basic_string: construction from null is not valid''"

definition ld_client_get_settings :: "(string \<Rightarrow> string option) \<Rightarrow> string \<Rightarrow> string result" where
  "ld_client_get_settings get name =
     (case get name of Some v \<Rightarrow> Inr v | None \<Rightarrow> Inl string_from_null)"

text \<open>A positive result ends the process.\<close>

definition ld_client_set_settings ::
    "(string \<Rightarrow> string \<Rightarrow> int \<times> status) \<Rightarrow> string \<Rightarrow> string \<Rightarrow> status result" where
  "ld_client_set_settings set_setting name val =
     (case set_setting name val of
        (ret, err) \<Rightarrow>
          if ret = 0 then Inr E_OK
          else if ret < 0 then Inr err
          else Inl exit_1)"

section \<open>Requests\<close>

record is_log_empty_cb_data =
  ie_st :: status
  ie_empty :: bool

definition is_log_empty_cb ::
    "int \<Rightarrow> nat \<Rightarrow> status \<Rightarrow> bool \<Rightarrow> is_log_empty_cb_data cb_mem \<Rightarrow> is_log_empty_cb_data cb_mem" where
  "is_log_empty_cb cap mvar st is_empty = cb_finish cap mvar (\<lambda>d. d\<lparr>ie_st := st, ie_empty := is_empty\<rparr>)"

text \<open>The callback of \<open>ld_client_get_tail_lsn\<close> and \<open>ld_client_find_time\<close>.\<close>

definition lsn_cb :: "int \<Rightarrow> nat \<Rightarrow> status \<Rightarrow> u64 \<Rightarrow> u64 get_mem \<Rightarrow> u64 get_mem" where
  "lsn_cb cap mvar st lsn m =
     gm_wake cap mvar
       (if gm_st_out m \<noteq> None \<and> gm_result m \<noteq> None
        then m\<lparr>gm_st_out := Some st, gm_result := Some lsn\<rparr> else m)"

definition trim_cb :: "int \<Rightarrow> nat \<Rightarrow> status \<Rightarrow> unit get_mem \<Rightarrow> unit get_mem" where
  "trim_cb cap mvar st m = gm_wake cap mvar (m\<lparr>gm_st_out := poke_out st (gm_st_out m)\<rparr>)"

record find_key_mem =
  fk_st_out :: "status option"
  fk_lo_lsn_out :: "u64 option"
  fk_hi_lsn_out :: "u64 option"
  fk_putmvars :: "(int \<times> nat) list"

definition find_key_cb ::
    "int \<Rightarrow> nat \<Rightarrow> status \<Rightarrow> u64 \<Rightarrow> u64 \<Rightarrow> find_key_mem \<Rightarrow> find_key_mem" where
  "find_key_cb cap mvar st lo hi m =
     m\<lparr>fk_st_out := poke_out st (fk_st_out m),
       fk_lo_lsn_out := poke_out lo (fk_lo_lsn_out m),
       fk_hi_lsn_out := poke_out hi (fk_hi_lsn_out m),
       fk_putmvars := fk_putmvars m @ [(cap, mvar)]\<rparr>"

datatype client_request =
    isLogEmpty u64 "status \<Rightarrow> bool \<Rightarrow> is_log_empty_cb_data cb_mem \<Rightarrow> is_log_empty_cb_data cb_mem"
  | getTailLSN u64 "status \<Rightarrow> u64 \<Rightarrow> u64 get_mem \<Rightarrow> u64 get_mem"
  | trim u64 u64 "status \<Rightarrow> unit get_mem \<Rightarrow> unit get_mem"
  | findTime u64 i64 "status \<Rightarrow> u64 \<Rightarrow> u64 get_mem \<Rightarrow> u64 get_mem" int
  | findKey u64 string "status \<Rightarrow> u64 \<Rightarrow> u64 \<Rightarrow> find_key_mem \<Rightarrow> find_key_mem" int

text \<open>
  The result is what the function returns and the request it passed on. Only the first function turns
  the client's result into a status.
\<close>

definition ld_client_is_log_empty ::
    "(client_request \<Rightarrow> int \<times> status) \<Rightarrow> u64 \<Rightarrow> nat \<Rightarrow> int \<Rightarrow> status \<times> client_request" where
  "ld_client_is_log_empty client logid mvar cap =
     (let req = isLogEmpty logid (is_log_empty_cb cap mvar)
      in case client req of (rv, err) \<Rightarrow> (status_of_ret rv err, req))"

definition ld_client_get_tail_lsn ::
    "(client_request \<Rightarrow> int) \<Rightarrow> u64 \<Rightarrow> nat \<Rightarrow> int \<Rightarrow> int \<times> client_request" where
  "ld_client_get_tail_lsn client logid mvar cap =
     (let req = getTailLSN logid (lsn_cb cap mvar) in (client req, req))"

definition ld_client_trim ::
    "(client_request \<Rightarrow> int) \<Rightarrow> u64 \<Rightarrow> u64 \<Rightarrow> nat \<Rightarrow> int \<Rightarrow> int \<times> client_request" where
  "ld_client_trim client logid lsn mvar cap =
     (let req = trim logid lsn (trim_cb cap mvar) in (client req, req))"

definition ld_client_find_time ::
    "(client_request \<Rightarrow> int) \<Rightarrow> u64 \<Rightarrow> i64 \<Rightarrow> int \<Rightarrow> nat \<Rightarrow> int \<Rightarrow> int \<times> client_request" where
  "ld_client_find_time client logid timestamp accuracy mvar cap =
     (let req = findTime logid timestamp (lsn_cb cap mvar) accuracy in (client req, req))"

definition ld_client_find_key ::
    "(client_request \<Rightarrow> int) \<Rightarrow> u64 \<Rightarrow> string \<Rightarrow> int \<Rightarrow> nat \<Rightarrow> int \<Rightarrow> int \<times> client_request" where
  "ld_client_find_key client logid key accuracy mvar cap =
     (let req = findKey logid key (find_key_cb cap mvar) accuracy in (client req, req))"

section \<open>What callers can rely on\<close>

text \<open>
  The callback of a sequence number writes both results or neither, the one of a key search each
  result that has a place; both wake the caller exactly once in any case.
\<close>

lemma lsn_cb_both_or_none:
  "gm_putmvars (lsn_cb cap mvar st lsn m) = gm_putmvars m @ [(cap, mvar)]"
  "gm_st_out m = None \<or> gm_result m = None \<Longrightarrow>
   gm_st_out (lsn_cb cap mvar st lsn m) = gm_st_out m \<and> gm_result (lsn_cb cap mvar st lsn m) = gm_result m"
  by (auto simp: lsn_cb_def gm_wake_def)

end
