(* ===== verification/Store_Query.thy ===== *)
theory Store_Query
  imports Query_Ffi
begin

text \<open>
  The C interface of LogDevice's own query tool (\<open>hs_ldquery.cpp\<close>), which the source marks as to be
  replaced by the interface of \<open>Query_Ffi\<close>. The functions are translated from their own source, and
  shown to agree with those of \<open>Query_Ffi\<close> wherever the replacement does not change behaviour.
\<close>

section \<open>Tables and columns\<close>

definition ldquery_show_tables ::
    "TableMetadata list \<Rightarrow> nat \<times> (string list \<times> string list) option" where
  "ldquery_show_tables tables =
     (if tables \<noteq> []
      then (let (tables_name, tables_description) =
              fold (\<lambda>table (ns, ds). (ns @ [tm_name table], ds @ [tm_description table])) tables ([], [])
            in (length tables_name, Some (tables_name, tables_description)))
      else (0, None))"

definition ldquery_show_table_columns ::
    "(DataType \<Rightarrow> string) \<Rightarrow> TableMetadata list \<Rightarrow> string
       \<Rightarrow> nat \<times> (string list \<times> string list \<times> string list) option" where
  "ldquery_show_table_columns type_as_string tables table_name =
     (case find (\<lambda>table. tm_name table = table_name) tables of
        Some r \<Rightarrow>
          (let (cols_name, cols_type, cols_desc) =
             fold (\<lambda>col (ns, ts, ds).
                     (ns @ [tc_name col], ts @ [type_as_string (tc_type col)], ds @ [tc_description col]))
               (tm_columns r) ([], [], [])
           in (length cols_name, Some (cols_name, cols_type, cols_desc)))
      | None \<Rightarrow> (0, None))"

section \<open>Queries and their results\<close>

text \<open>Only \<open>LDQueryError\<close> is caught.\<close>

definition ldquery_query :: "query_exception + QueryResult list \<Rightarrow> run_outcome" where
  "ldquery_query outcome =
     (case outcome of
        Inr results_ \<Rightarrow>
          if results_ \<noteq> [] then Ran (length results_) (Some results_) None
          else Ran 0 None None
      | Inl (Ex_LDQueryError what) \<Rightarrow> Ran 0 None (Some what)
      | Inl (Ex_ToHs what) \<Rightarrow> Escaped what
      | Inl (Ex_other what) \<Rightarrow> Escaped what)"

text \<open>\<open>GET_VEC_INDEX_VAL\<close>: the size and the data of a vector of the result at an index.\<close>

definition GET_VEC_INDEX_VAL ::
    "(QueryResult \<Rightarrow> 'v list) \<Rightarrow> QueryResult list \<Rightarrow> nat \<Rightarrow> (nat \<times> 'v list) option" where
  "GET_VEC_INDEX_VAL vec datas i =
     (if i < length datas then (let data = vec (datas ! i) in Some (length data, data)) else None)"

definition ld_queryResults_rows_len :: "QueryResult list \<Rightarrow> nat \<Rightarrow> nat option" where
  "ld_queryResults_rows_len datas i =
     (if i < length datas then Some (length (qr_rows (datas ! i))) else None)"

definition ld_queryResults_rows_val :: "QueryResult list \<Rightarrow> nat \<Rightarrow> nat \<Rightarrow> (nat \<times> string list) option" where
  "ld_queryResults_rows_val datas i row =
     (if i < length datas \<and> row < length (qr_rows (datas ! i))
      then (let data = qr_rows (datas ! i) ! row in Some (length data, data)) else None)"

definition ld_queryResults_metadata_failures ::
    "QueryResult list \<Rightarrow> nat \<Rightarrow> (nat \<times> (int list \<times> string list \<times> string list) option) option" where
  "ld_queryResults_metadata_failures datas i =
     (if i < length datas
      then (let data = qm_failures (qr_metadata (datas ! i)) in
            if data \<noteq> []
            then (let (key, address, failure_reason) =
                    fold (\<lambda>(k, a, r) (ks, as, rs). (ks @ [k], as @ [a], rs @ [r])) data ([], [], [])
                  in Some (length data, Some (key, address, failure_reason)))
            else Some (0, None))
      else None)"

section \<open>Agreement with the interface that replaces it\<close>

lemma push_two: "fold (\<lambda>x (as, bs). (as @ [f x], bs @ [g x])) xs (as\<^sub>0, bs\<^sub>0) = (as\<^sub>0 @ map f xs, bs\<^sub>0 @ map g xs)"
  by (induction xs arbitrary: as\<^sub>0 bs\<^sub>0) auto

lemma push_three:
  "fold (\<lambda>x (as, bs, cs). (as @ [f x], bs @ [g x], cs @ [h x])) xs (as\<^sub>0, bs\<^sub>0, cs\<^sub>0) =
     (as\<^sub>0 @ map f xs, bs\<^sub>0 @ map g xs, cs\<^sub>0 @ map h xs)"
  by (induction xs arbitrary: as\<^sub>0 bs\<^sub>0 cs\<^sub>0) auto

lemma push_failures:
  "fold (\<lambda>(k, a, r) (ks, as, rs). (ks @ [k], as @ [a], rs @ [r])) xs (ks\<^sub>0, as\<^sub>0, rs\<^sub>0) =
     (ks\<^sub>0 @ map fst xs, as\<^sub>0 @ map (fst \<circ> snd) xs, rs\<^sub>0 @ map (snd \<circ> snd) xs)"
  by (induction xs arbitrary: ks\<^sub>0 as\<^sub>0 rs\<^sub>0) auto

text \<open>
  Replacing LogDevice's query interface by the common one changes nothing that a caller can
  see of tables, columns and results, and nothing of a query unless it ends in a \<open>ToHsException\<close>:
  that exception leaves the old function and is reported by the new one.
\<close>

theorem ldquery_agrees_with_query:
  "ldquery_show_tables tables = query_show_tables tables \<and>
   ldquery_show_table_columns type_as_string tables name =
     query_show_table_columns type_as_string tables name \<and>
   GET_VEC_INDEX_VAL qr_headers datas i = queryResults__headers datas i \<and>
   GET_VEC_INDEX_VAL qr_cols_max_size datas i = queryResults__cols_max_size datas i \<and>
   ld_queryResults_rows_len datas i = queryResults__rows_len datas i \<and>
   ld_queryResults_rows_val datas i row = queryResults__rows_val datas i row \<and>
   ld_queryResults_metadata_failures datas i = queryResults__metadata_failures datas i \<and>
   ldquery_query outcome =
     (case outcome of Inl (Ex_ToHs what) \<Rightarrow> Escaped what | _ \<Rightarrow> run_query outcome)"
proof (intro conjI)
  show "ldquery_show_tables tables = query_show_tables tables"
    by (simp add: ldquery_show_tables_def query_show_tables_def push_two Let_def)
  show "ldquery_show_table_columns type_as_string tables name =
      query_show_table_columns type_as_string tables name"
    by (simp add: ldquery_show_table_columns_def query_show_table_columns_def push_three Let_def comp_def
        split: option.split)
  show "ld_queryResults_metadata_failures datas i = queryResults__metadata_failures datas i"
    by (simp add: ld_queryResults_metadata_failures_def queryResults__metadata_failures_def push_failures Let_def)
  show "ldquery_query outcome =
      (case outcome of Inl (Ex_ToHs what) \<Rightarrow> Escaped what | _ \<Rightarrow> run_query outcome)"
    by (simp add: ldquery_query_def run_query_def split: sum.split query_exception.split)
qed (simp_all add: GET_VEC_INDEX_VAL_def queryResults__headers_def queryResults__cols_max_size_def
      ld_queryResults_rows_len_def queryResults__rows_len_def ld_queryResults_rows_val_def
      queryResults__rows_val_def Let_def)

end
