(* ===== verification/Store_Accessors.thy ===== *)
theory Store_Accessors
  imports Store_Logs Store_Query
begin

text \<open>
  What Haskell reads of the objects that callbacks hand over: the tail attributes of a log, log groups,
  directories (\<open>hs_logconfigtypes.cpp\<close>) and the counters of a query (\<open>hs_ldquery.cpp\<close>). A null handle is
  \<^const>\<open>None\<close>; of a returned C string the reader sees the bytes before the first zero.
\<close>

section \<open>Accessors\<close>

definition rep_field :: "('h \<Rightarrow> 'v) \<Rightarrow> 'h option \<Rightarrow> 'v result" where
  "rep_field f rep = (case rep of None \<Rightarrow> Inl null_pointer | Some h \<Rightarrow> Inr (f h))"

definition ld_client_get_tail_attributes_lsn :: "logdevice_log_tail_attributes option \<Rightarrow> u64 result" where
  "ld_client_get_tail_attributes_lsn tail_attr = rep_field last_released_real_lsn tail_attr"

definition ld_client_get_tail_attributes_last_timestamp :: "logdevice_log_tail_attributes option \<Rightarrow> i64 result" where
  "ld_client_get_tail_attributes_last_timestamp tail_attr = rep_field last_timestamp tail_attr"

definition ld_client_get_tail_attributes_bytes_offset :: "logdevice_log_tail_attributes option \<Rightarrow> u64 result" where
  "ld_client_get_tail_attributes_bytes_offset tail_attr = rep_field tail_offsets tail_attr"

definition ld_loggroup_get_name :: "'a log_group option \<Rightarrow> string result" where
  "ld_loggroup_get_name grp = rep_field (strdup \<circ> lg_name) grp"

definition ld_loggroup_get_fully_qualified_name :: "'a log_group option \<Rightarrow> string result" where
  "ld_loggroup_get_fully_qualified_name grp = rep_field (strdup \<circ> lg_full_name) grp"

definition ld_loggroup_get_attrs :: "'a log_group option \<Rightarrow> 'a result" where
  "ld_loggroup_get_attrs grp = rep_field lg_attrs grp"

definition ld_loggroup_get_version :: "'a log_group option \<Rightarrow> u64 result" where
  "ld_loggroup_get_version grp = rep_field lg_version grp"

definition ld_logdirectory_name :: "'a directory option \<Rightarrow> string result" where
  "ld_logdirectory_name dir = rep_field (strdup \<circ> dir_name) dir"

definition ld_logdirectory_full_name :: "'a directory option \<Rightarrow> string result" where
  "ld_logdirectory_full_name dir = rep_field (strdup \<circ> dir_full_name) dir"

definition ld_logdirectory_get_version :: "'a directory option \<Rightarrow> u64 result" where
  "ld_logdirectory_get_version dir = rep_field dir_version dir"

definition ld_logdirectory_get_attrs :: "'a directory option \<Rightarrow> 'a result" where
  "ld_logdirectory_get_attrs dir = rep_field dir_attrs dir"

definition ld_queryResults_metadata_contacted_nodes :: "QueryResult list \<Rightarrow> nat \<Rightarrow> u64 option" where
  "ld_queryResults_metadata_contacted_nodes datas i =
     (if i < length datas then Some (qm_contacted_nodes (qr_metadata (datas ! i))) else None)"

definition ld_queryResults_metadata_latency :: "QueryResult list \<Rightarrow> nat \<Rightarrow> u64 option" where
  "ld_queryResults_metadata_latency datas i =
     (if i < length datas then Some (qm_latency (qr_metadata (datas ! i))) else None)"

lemmas accessor_defs = rep_field_def ld_client_get_tail_attributes_lsn_def
  ld_client_get_tail_attributes_last_timestamp_def ld_client_get_tail_attributes_bytes_offset_def
  ld_loggroup_get_name_def ld_loggroup_get_fully_qualified_name_def ld_loggroup_get_attrs_def
  ld_loggroup_get_version_def ld_logdirectory_name_def ld_logdirectory_full_name_def
  ld_logdirectory_get_version_def ld_logdirectory_get_attrs_def

section \<open>What is read is what was handed over\<close>

text \<open>
  From the callback to the accessors: Haskell reads the tail LogDevice reported, and reads through a null
  pointer exactly if LogDevice reported none.
\<close>

theorem tail_attributes_read:
  assumes "cb_data m = Some d0"
  shows "\<exists>d. cb_data (tail_attributes_cb cap mvar st tail m) = Some d \<and> tl_st d = st \<and>
    (case tail of
       None \<Rightarrow> ld_client_get_tail_attributes_lsn (tl_tail_attributes d) = Inl null_pointer
     | Some t \<Rightarrow>
         ld_client_get_tail_attributes_lsn (tl_tail_attributes d) = Inr (lt_last_released_real_lsn t) \<and>
         ld_client_get_tail_attributes_last_timestamp (tl_tail_attributes d) = Inr (lt_last_timestamp t) \<and>
         ld_client_get_tail_attributes_bytes_offset (tl_tail_attributes d) = Inr (lt_byte_offset t))"
  using assms by (auto simp: tail_attributes_cb_def cb_finish_def accessor_defs split: option.split)

text \<open>
  The same for a log group. A lookup that fails leaves a null handle, and none of the accessors checks
  for it: Haskell has to look at the status first.
\<close>

theorem loggroup_read:
  assumes "get_loggroup_cb cap mvar st grp m = Inr m'" "gm_result m' = Some h"
  shows "gm_st_out m' = Some st \<and>
    (case grp of
       None \<Rightarrow> ld_loggroup_get_name h = Inl null_pointer \<and> ld_loggroup_get_version h = Inl null_pointer
     | Some g \<Rightarrow>
         ld_loggroup_get_name h = Inr (strdup (lg_name g)) \<and>
         ld_loggroup_get_fully_qualified_name h = Inr (strdup (lg_full_name g)) \<and>
         ld_loggroup_get_attrs h = Inr (lg_attrs g) \<and>
         ld_loggroup_get_version h = Inr (lg_version g))"
  using assms
  by (auto simp: get_loggroup_cb_def gm_wake_def accessor_defs Let_def split: if_splits option.splits)

text \<open>
  Not so for directories: on a failed lookup the pointer keeps the value it had, so that the accessors
  read whatever directory the caller had left there.
\<close>

theorem directory_read:
  assumes "gm_st_out m \<noteq> None" "gm_result m = Some old"
  shows "\<exists>h. gm_result (get_directory_cb cap mvar st dir m) = Some h \<and>
    (case dir of
       None \<Rightarrow> h = old
     | Some d \<Rightarrow>
         ld_logdirectory_name h = Inr (strdup (dir_name d)) \<and>
         ld_logdirectory_full_name h = Inr (strdup (dir_full_name d)) \<and>
         ld_logdirectory_get_attrs h = Inr (dir_attrs d) \<and>
         ld_logdirectory_get_version h = Inr (dir_version d))"
  using assms by (auto simp: get_directory_cb_def gm_wake_def accessor_defs Let_def split: option.split)

text \<open>The counters agree with those of the admin query tool.\<close>

lemma ldquery_counters_agree:
  "ld_queryResults_metadata_contacted_nodes datas i = queryResults__metadata_contacted_nodes datas i \<and>
   ld_queryResults_metadata_latency datas i = queryResults__metadata_latency datas i"
  by (simp add: ld_queryResults_metadata_contacted_nodes_def queryResults__metadata_contacted_nodes_def
      ld_queryResults_metadata_latency_def queryResults__metadata_latency_def)

end
