(* ===== verification/Store_Handles.thy ===== *)
theory Store_Handles
  imports Store_Reader
begin

text \<open>
  The handles Haskell holds on objects of the store (\<open>logdevice_client_t\<close>, \<open>logdevice_reader_t\<close>,
  \<open>logdevice_checkpoint_store_t\<close>, \<open>logdevice_sync_checkpointed_reader_t\<close>, \<open>logdevice_vcs_t\<close>): who owns which
  object, how ownership moves, and what freeing a handle destroys. The flag \<open>shared\<close> is the macro
  \<open>HSTREAM_USE_SHARED_CHECKPOINT_STORE\<close>.
\<close>

section \<open>Objects and handles\<close>

text \<open>
  An object is owned through \<open>unique_ptr\<close> or \<open>shared_ptr\<close>; a checkpointed reader owns its reader and its
  store, either of which may be null. A versioned configuration store has only a raw pointer to the
  processor inside a client.
\<close>

datatype ld_object =
    Client_obj
  | Reader_obj
  | Store_obj
  | Ckp_reader_obj "nat option" "nat option"
  | Vcs_obj nat

text \<open>A handle is a struct of one of these types with the one member \<open>rep\<close>, null after a move.\<close>

datatype handle_type =
    logdevice_client_t
  | logdevice_reader_t
  | logdevice_checkpoint_store_t
  | logdevice_sync_checkpointed_reader_t
  | logdevice_vcs_t

fun type_of :: "ld_object \<Rightarrow> handle_type" where
  "type_of Client_obj = logdevice_client_t"
| "type_of Reader_obj = logdevice_reader_t"
| "type_of Store_obj = logdevice_checkpoint_store_t"
| "type_of (Ckp_reader_obj _ _) = logdevice_sync_checkpointed_reader_t"
| "type_of (Vcs_obj _) = logdevice_vcs_t"

record ld_heap =
  handles :: "(handle_type \<times> nat option) option list"  \<comment> \<open>\<open>None\<close>: deleted\<close>
  objects :: "(ld_object \<times> nat) option list"  \<comment> \<open>with the use count; \<open>None\<close>: destroyed\<close>

definition use_after_free :: cpp_error where
  "use_after_free = StdException ''use after free''"

definition new_rep :: "ld_object \<Rightarrow> ld_heap \<Rightarrow> nat \<times> ld_heap" where
  "new_rep ob hp =
     (length (handles hp),
      hp\<lparr>handles := handles hp @ [Some (type_of ob, Some (length (objects hp)))],
         objects := objects hp @ [Some (ob, 1)]\<rparr>)"

text \<open>Reading a handle, and \<open>handle->rep->\<dots>\<close>.\<close>

definition get_rep :: "ld_heap \<Rightarrow> nat \<Rightarrow> nat option result" where
  "get_rep hp h =
     (if h < length (handles hp)
      then (case handles hp ! h of None \<Rightarrow> Inl use_after_free | Some (_, rep) \<Rightarrow> Inr rep)
      else Inl use_after_free)"

definition get_object :: "ld_heap \<Rightarrow> nat \<Rightarrow> ld_object result" where
  "get_object hp ob =
     (if ob < length (objects hp)
      then (case objects hp ! ob of None \<Rightarrow> Inl use_after_free | Some (x, _) \<Rightarrow> Inr x)
      else Inl use_after_free)"

definition deref :: "ld_heap \<Rightarrow> nat \<Rightarrow> ld_object result" where
  "deref hp h =
     (case get_rep hp h of
        Inl e \<Rightarrow> Inl e
      | Inr None \<Rightarrow> Inl null_pointer
      | Inr (Some ob) \<Rightarrow> get_object hp ob)"

section \<open>Creating\<close>

text \<open>\<open>new_file_based_checkpoint_store\<close>: whatever the kind of pointer, the new handle is its owner.\<close>

definition new_file_based_checkpoint_store :: "ld_heap \<Rightarrow> nat \<times> ld_heap" where
  "new_file_based_checkpoint_store hp = new_rep Store_obj hp"

text \<open>\<open>new_rsm_based_checkpoint_store\<close> reads the client of its handle.\<close>

definition new_rsm_based_checkpoint_store :: "nat \<Rightarrow> ld_heap \<Rightarrow> (nat \<times> ld_heap) result" where
  "new_rsm_based_checkpoint_store client hp =
     (case get_rep hp client of Inl e \<Rightarrow> Inl e | Inr _ \<Rightarrow> Inr (new_rep Store_obj hp))"

text \<open>\<open>new_rsm_based_vcs\<close>; \<open>is_impl\<close> says whether the client is a \<open>ClientImpl\<close>.\<close>

definition new_rsm_based_vcs :: "bool \<Rightarrow> nat \<Rightarrow> ld_heap \<Rightarrow> (nat \<times> ld_heap) result" where
  "new_rsm_based_vcs is_impl client hp =
     (case get_rep hp client of
        Inl e \<Rightarrow> Inl e
      | Inr None \<Rightarrow> Inl LdCheck
      | Inr (Some ob) \<Rightarrow> if is_impl then Inr (new_rep (Vcs_obj ob) hp) else Inl LdCheck)"

text \<open>A handle for a new reader, once \<open>new_logdevice_reader\<close> has one.\<close>

definition new_reader_handle :: "nat \<Rightarrow> ld_heap \<Rightarrow> (nat \<times> ld_heap) result" where
  "new_reader_handle client hp =
     (case deref hp client of Inl e \<Rightarrow> Inl e | Inr _ \<Rightarrow> Inr (new_rep Reader_obj hp))"

text \<open>Copying a \<open>shared_ptr\<close>, and moving a pointer out of its handle.\<close>

fun share :: "nat option \<Rightarrow> ld_heap \<Rightarrow> ld_heap" where
  "share None hp = hp"
| "share (Some ob) hp =
     hp\<lparr>objects := (objects hp)[ob := map_option (\<lambda>(x, n). (x, Suc n)) (objects hp ! ob)]\<rparr>"

definition move_out :: "nat \<Rightarrow> ld_heap \<Rightarrow> ld_heap" where
  "move_out h hp = hp\<lparr>handles := (handles hp)[h := map_option (\<lambda>(t, _). (t, None)) (handles hp ! h)]\<rparr>"

text \<open>
  \<open>new_sync_checkpointed_reader\<close>: the effect of \<^const>\<open>new_sync_checkpointed_reader\<close> on the heap.
\<close>

definition new_ckp_reader_handle :: "bool \<Rightarrow> nat \<Rightarrow> nat \<Rightarrow> ld_heap \<Rightarrow> (nat \<times> ld_heap) result" where
  "new_ckp_reader_handle shared reader store hp =
     (case get_rep hp reader of
        Inl e \<Rightarrow> Inl e
      | Inr r \<Rightarrow>
          (case get_rep hp store of
             Inl e \<Rightarrow> Inl e
           | Inr s \<Rightarrow>
               (let hp = move_out reader hp;
                    hp = (if shared then share s hp else move_out store hp)
                in Inr (new_rep (Ckp_reader_obj r s) hp))))"

section \<open>Freeing\<close>

fun owned :: "ld_object \<Rightarrow> nat list" where
  "owned (Ckp_reader_obj r s) = (case r of None \<Rightarrow> [] | Some x \<Rightarrow> [x]) @ (case s of None \<Rightarrow> [] | Some x \<Rightarrow> [x])"
| "owned _ = []"

text \<open>
  Giving up one pointer to an object: the last one destroys it. Then the members of a checkpointed reader go
  too, which own nothing themselves.
\<close>

definition drop_ref :: "nat \<Rightarrow> ld_heap \<Rightarrow> (ld_object option \<times> ld_heap) result" where
  "drop_ref ob hp =
     (if ob < length (objects hp)
      then (case objects hp ! ob of
              None \<Rightarrow> Inl use_after_free
            | Some (x, n) \<Rightarrow>
                if n \<le> 1 then Inr (Some x, hp\<lparr>objects := (objects hp)[ob := None]\<rparr>)
                else Inr (None, hp\<lparr>objects := (objects hp)[ob := Some (x, n - 1)]\<rparr>))
      else Inl use_after_free)"

definition drop_member :: "ld_heap \<Rightarrow> nat \<Rightarrow> ld_heap result" where
  "drop_member hp ob = (case drop_ref ob hp of Inl e \<Rightarrow> Inl e | Inr (_, hp) \<Rightarrow> Inr hp)"

definition release :: "nat option \<Rightarrow> ld_heap \<Rightarrow> ld_heap result" where
  "release rep hp =
     (case rep of
        None \<Rightarrow> Inr hp
      | Some ob \<Rightarrow>
          (case drop_ref ob hp of
             Inl e \<Rightarrow> Inl e
           | Inr (None, hp) \<Rightarrow> Inr hp
           | Inr (Some x, hp) \<Rightarrow> fold_result (\<lambda>ob hp. drop_member hp ob) (owned x) hp))"

text \<open>
  \<open>free_checkpoint_store\<close>, \<open>free_logdevice_vcs\<close>, \<open>free_logdevice_reader\<close> and
  \<open>free_sync_checkpointed_reader\<close> are the same \<open>delete\<close> of a struct with one pointer.
\<close>

definition free_handle :: "nat \<Rightarrow> ld_heap \<Rightarrow> ld_heap result" where
  "free_handle h hp =
     (case get_rep hp h of
        Inl e \<Rightarrow> Inl e
      | Inr rep \<Rightarrow> release rep (hp\<lparr>handles := (handles hp)[h := None]\<rparr>))"

text \<open>What a versioned configuration store does with its processor needs the client to be there.\<close>

definition vcs_processor :: "ld_heap \<Rightarrow> nat \<Rightarrow> ld_object result" where
  "vcs_processor hp h =
     (case deref hp h of
        Inl e \<Rightarrow> Inl e
      | Inr (Vcs_obj client) \<Rightarrow> get_object hp client
      | Inr _ \<Rightarrow> Inl null_pointer)"

section \<open>Programs\<close>

text \<open>What Haskell does with handles, by their numbers.\<close>

datatype handle_op =
    New_client
  | New_reader nat
  | New_file_store
  | New_rsm_store nat
  | New_vcs nat
  | New_ckp_reader nat nat
  | Free nat

fun handle_step :: "bool \<Rightarrow> handle_op \<Rightarrow> ld_heap \<Rightarrow> ld_heap result" where
  "handle_step shared New_client hp = Inr (snd (new_rep Client_obj hp))"
| "handle_step shared (New_reader c) hp = map_sum id snd (new_reader_handle c hp)"
| "handle_step shared New_file_store hp = Inr (snd (new_file_based_checkpoint_store hp))"
| "handle_step shared (New_rsm_store c) hp = map_sum id snd (new_rsm_based_checkpoint_store c hp)"
| "handle_step shared (New_vcs c) hp = map_sum id snd (new_rsm_based_vcs True c hp)"
| "handle_step shared (New_ckp_reader r s) hp = map_sum id snd (new_ckp_reader_handle shared r s hp)"
| "handle_step shared (Free h) hp = free_handle h hp"

definition run_handles :: "bool \<Rightarrow> handle_op list \<Rightarrow> ld_heap result" where
  "run_handles shared ops = fold_result (handle_step shared) ops \<lparr>handles = [], objects = []\<rparr>"

text \<open>
  What the types of Haskell and its finalizers see to: a handle is used at its own type and not after it
  has been freed.
\<close>

definition has_type :: "ld_heap \<Rightarrow> nat \<Rightarrow> handle_type \<Rightarrow> bool" where
  "has_type hp h t \<longleftrightarrow> h < length (handles hp) \<and> map_option fst (handles hp ! h) = Some t"

fun op_typed :: "handle_op \<Rightarrow> ld_heap \<Rightarrow> bool" where
  "op_typed New_client hp \<longleftrightarrow> True"
| "op_typed (New_reader c) hp \<longleftrightarrow> has_type hp c logdevice_client_t"
| "op_typed New_file_store hp \<longleftrightarrow> True"
| "op_typed (New_rsm_store c) hp \<longleftrightarrow> has_type hp c logdevice_client_t"
| "op_typed (New_vcs c) hp \<longleftrightarrow> has_type hp c logdevice_client_t"
| "op_typed (New_ckp_reader r s) hp \<longleftrightarrow>
     has_type hp r logdevice_reader_t \<and> has_type hp s logdevice_checkpoint_store_t"
| "op_typed (Free h) hp \<longleftrightarrow> h < length (handles hp) \<and> handles hp ! h \<noteq> None"

fun ops_typed :: "bool \<Rightarrow> handle_op list \<Rightarrow> ld_heap \<Rightarrow> bool" where
  "ops_typed shared [] hp \<longleftrightarrow> True"
| "ops_typed shared (op # ops) hp \<longleftrightarrow>
     op_typed op hp \<and> (case handle_step shared op hp of Inl _ \<Rightarrow> True | Inr hp' \<Rightarrow> ops_typed shared ops hp')"

section \<open>Counting owners\<close>

fun handle_refs :: "(handle_type \<times> nat option) option \<Rightarrow> nat list" where
  "handle_refs (Some (_, Some ob)) = [ob]"
| "handle_refs _ = []"

fun object_refs :: "(ld_object \<times> nat) option \<Rightarrow> nat list" where
  "object_refs (Some (x, _)) = owned x"
| "object_refs None = []"

definition owners :: "ld_heap \<Rightarrow> nat \<Rightarrow> nat" where
  "owners hp ob =
     (\<Sum>h\<leftarrow>handles hp. count_list (handle_refs h) ob) + (\<Sum>x\<leftarrow>objects hp. count_list (object_refs x) ob)"

definition use_count :: "ld_heap \<Rightarrow> nat \<Rightarrow> nat" where
  "use_count hp ob =
     (if ob < length (objects hp) then case objects hp ! ob of None \<Rightarrow> 0 | Some (_, n) \<Rightarrow> n else 0)"

text \<open>
  The use count of an object is the number of its owners, the pointers held in local variables among
  them; types agree; and what a checkpointed reader owns owns nothing.
\<close>

definition count_inv :: "nat list \<Rightarrow> ld_heap \<Rightarrow> bool" where
  "count_inv locals hp \<longleftrightarrow>
     (\<forall>ob. use_count hp ob = owners hp ob + count_list locals ob) \<and>
     (\<forall>ob x n. ob < length (objects hp) \<longrightarrow> objects hp ! ob = Some (x, n) \<longrightarrow> 0 < n)"

definition type_inv :: "ld_heap \<Rightarrow> bool" where
  "type_inv hp \<longleftrightarrow>
     (\<forall>t ob x. Some (t, Some ob) \<in> set (handles hp) \<longrightarrow> get_object hp ob = Inr x \<longrightarrow> type_of x = t) \<and>
     (\<forall>t. Some (t, None) \<in> set (handles hp) \<longrightarrow> t = logdevice_reader_t \<or> t = logdevice_checkpoint_store_t)"

definition leaf_inv :: "ld_heap \<Rightarrow> bool" where
  "leaf_inv hp \<longleftrightarrow>
     (\<forall>ob x y z. get_object hp ob = Inr x \<longrightarrow> y \<in> set (owned x) \<longrightarrow> get_object hp y = Inr z \<longrightarrow> owned z = [])"

lemma sum_list_map_update:
  fixes f :: "'a \<Rightarrow> nat"
  assumes "i < length xs"
  shows "sum_list (map f (xs[i := v])) + f (xs ! i) = sum_list (map f xs) + f v"
  using assms by (induction xs arbitrary: i) (auto split: nat.split)

lemma sum_list_map_pos:
  fixes f :: "'a \<Rightarrow> nat"
  shows "x \<in> set xs \<Longrightarrow> 0 < f x \<Longrightarrow> 0 < sum_list (map f xs)"
  by (induction xs) auto

lemma sum_list_map_zero:
  fixes f :: "'a \<Rightarrow> nat"
  shows "(\<And>x. x \<in> set xs \<Longrightarrow> f x = 0) \<Longrightarrow> sum_list (map f xs) = 0"
  by (induction xs) auto

lemma owners_set_handle:
  assumes "h < length (handles hp)"
  shows "owners (hp\<lparr>handles := (handles hp)[h := v]\<rparr>) ob + count_list (handle_refs (handles hp ! h)) ob =
    owners hp ob + count_list (handle_refs v) ob"
  using sum_list_map_update [OF assms, of "\<lambda>h. count_list (handle_refs h) ob" v] by (simp add: owners_def)

lemma owners_set_object:
  assumes "b < length (objects hp)"
  shows "owners (hp\<lparr>objects := (objects hp)[b := v]\<rparr>) ob + count_list (object_refs (objects hp ! b)) ob =
    owners hp ob + count_list (object_refs v) ob"
  using sum_list_map_update [OF assms, of "\<lambda>h. count_list (object_refs h) ob" v] by (simp add: owners_def)

lemma use_count_set_object:
  assumes "b < length (objects hp)"
  shows "use_count (hp\<lparr>objects := (objects hp)[b := v]\<rparr>) ob =
    (if ob = b then (case v of None \<Rightarrow> 0 | Some (_, n) \<Rightarrow> n) else use_count hp ob)"
  using assms by (auto simp: use_count_def)

lemma use_count_set_handle [simp]: "use_count (hp\<lparr>handles := hs\<rparr>) ob = use_count hp ob"
  by (simp add: use_count_def)

lemma count_list_append_nat: "count_list (xs @ ys) ob = count_list xs ob + count_list ys ob"
  by (induction xs) auto

subsection \<open>Each primitive keeps the counts\<close>

lemma count_inv_new_rep:
  assumes "count_inv (owned x @ locals) hp"
  shows "count_inv locals (snd (new_rep x hp))"
proof -
  have fresh: "owners hp (length (objects hp)) = 0" "count_list (owned x @ locals) (length (objects hp)) = 0"
    using assms unfolding count_inv_def by (auto simp: use_count_def dest: spec [of _ "length (objects hp)"])
  have "owners (snd (new_rep x hp)) ob =
      owners hp ob + (if ob = length (objects hp) then 1 else 0) + count_list (owned x) ob" for ob
    by (simp add: owners_def new_rep_def)
  moreover have "use_count (snd (new_rep x hp)) ob =
      use_count hp ob + (if ob = length (objects hp) then 1 else 0)" for ob
    by (auto simp: use_count_def new_rep_def nth_append)
  moreover have "use_count hp ob = owners hp ob + count_list (owned x) ob + count_list locals ob" for ob
    using assms by (simp add: count_inv_def count_list_append_nat)
  ultimately show ?thesis
    using assms unfolding count_inv_def by (auto simp: new_rep_def nth_append less_Suc_eq)
qed

lemma count_inv_set_handle:
  assumes "count_inv locals hp" "h < length (handles hp)" "handle_refs v = []"
  shows "count_inv (handle_refs (handles hp ! h) @ locals) (hp\<lparr>handles := (handles hp)[h := v]\<rparr>)"
  using assms owners_set_handle [OF assms(2), of v] by (simp add: count_inv_def count_list_append_nat)

lemma count_inv_move_out:
  assumes "count_inv locals hp" "h < length (handles hp)"
  shows "count_inv (handle_refs (handles hp ! h) @ locals) (move_out h hp)"
  unfolding move_out_def using assms
  by (intro count_inv_set_handle) (auto split: option.split simp: map_option_case)

lemma count_inv_share:
  assumes "count_inv locals hp" "\<forall>ob. s = Some ob \<longrightarrow> 0 < use_count hp ob"
  shows "count_inv ((case s of None \<Rightarrow> [] | Some ob \<Rightarrow> [ob]) @ locals) (share s hp)"
proof (cases s)
  case (Some b)
  then obtain x n where b: "b < length (objects hp)" "objects hp ! b = Some (x, n)"
    using assms(2) by (auto simp: use_count_def split: if_splits option.splits)
  have "owners (share s hp) ob = owners hp ob" for ob
    using owners_set_object [OF b(1), of "Some (x, Suc n)" ob] b Some by simp
  moreover have "use_count (share s hp) ob = use_count hp ob + (if ob = b then 1 else 0)" for ob
    using use_count_set_object [OF b(1), of "Some (x, Suc n)" ob] b Some by (auto simp: use_count_def)
  ultimately show ?thesis
    using assms(1) Some b unfolding count_inv_def by (auto simp: nth_list_update)
qed (use assms in simp)

lemma count_inv_drop_ref:
  assumes "count_inv (b # locals) hp"
  shows "\<exists>d hp'. drop_ref b hp = Inr (d, hp') \<and> count_inv ((case d of None \<Rightarrow> [] | Some x \<Rightarrow> owned x) @ locals) hp' \<and>
    handles hp' = handles hp \<and> (\<forall>x. d = Some x \<longrightarrow> get_object hp b = Inr x) \<and>
    (\<forall>ob x. get_object hp' ob = Inr x \<longrightarrow> get_object hp ob = Inr x) \<and>
    (\<forall>ob x. ob \<noteq> b \<longrightarrow> get_object hp ob = Inr x \<longrightarrow> get_object hp' ob = Inr x)"
proof -
  have eq: "use_count hp ob = owners hp ob + count_list locals ob + (if ob = b then 1 else 0)" for ob
    using assms by (auto simp: count_inv_def)
  have "0 < use_count hp b" using eq [of b] by simp
  then obtain x n where b: "b < length (objects hp)" "objects hp ! b = Some (x, n)"
    by (auto simp: use_count_def split: if_splits option.splits)
  have n: "0 < n" "use_count hp b = n"
    using assms b by (auto simp: count_inv_def use_count_def)
  have pos: "\<forall>ob x n. ob < length (objects hp) \<longrightarrow> objects hp ! ob = Some (x, n) \<longrightarrow> 0 < n"
    using assms by (simp add: count_inv_def)
  show ?thesis
  proof (cases "n \<le> 1")
    case True
    let ?hp = "hp\<lparr>objects := (objects hp)[b := None]\<rparr>"
    have "use_count ?hp ob = owners ?hp ob + count_list (owned x @ locals) ob" for ob
      using owners_set_object [OF b(1), of None ob] use_count_set_object [OF b(1), of None ob] b eq [of ob] n True
      by (simp add: count_list_append_nat split: if_splits)
    then have "count_inv (owned x @ locals) ?hp"
      using pos b(1) by (auto simp: count_inv_def nth_list_update split: if_splits)
    moreover have "drop_ref b hp = Inr (Some x, ?hp)" using True b by (simp add: drop_ref_def)
    moreover have "get_object ?hp ob = (if ob = b then Inl use_after_free else get_object hp ob)" for ob
      using b by (simp add: get_object_def)
    moreover have "get_object hp b = Inr x" using b by (simp add: get_object_def)
    ultimately show ?thesis by (auto split: if_splits)
  next
    case False
    let ?hp = "hp\<lparr>objects := (objects hp)[b := Some (x, n - 1)]\<rparr>"
    have "use_count ?hp ob = owners ?hp ob + count_list locals ob" for ob
      using owners_set_object [OF b(1), of "Some (x, n - 1)" ob]
        use_count_set_object [OF b(1), of "Some (x, n - 1)" ob] b eq [of ob] n False
      by (simp split: if_splits)
    then have "count_inv locals ?hp"
      using pos False b(1) by (auto simp: count_inv_def nth_list_update split: if_splits)
    moreover have "drop_ref b hp = Inr (None, ?hp)" using False b by (simp add: drop_ref_def)
    moreover have "get_object ?hp ob = get_object hp ob" for ob
      using b by (auto simp: get_object_def nth_list_update)
    ultimately show ?thesis by auto
  qed
qed

subsection \<open>Owned objects are there\<close>

lemma owners_handle:
  assumes "Some (t, Some ob) \<in> set (handles hp)"
  shows "0 < owners hp ob"
proof -
  have "0 < (\<Sum>h\<leftarrow>handles hp. count_list (handle_refs h) ob)"
    by (rule sum_list_map_pos [OF assms]) simp
  then show ?thesis by (simp add: owners_def)
qed

lemma owners_member:
  assumes "get_object hp b = Inr x" "y \<in> set (owned x)"
  shows "0 < owners hp y"
proof -
  obtain n where "b < length (objects hp)" "objects hp ! b = Some (x, n)"
    using assms(1) by (auto simp: get_object_def split: if_splits option.splits)
  then have "Some (x, n) \<in> set (objects hp)" using nth_mem by metis
  moreover have "count_list (owned x) y \<noteq> 0" using assms(2) by (simp add: count_list_0_iff)
  ultimately have "0 < (\<Sum>x\<leftarrow>objects hp. count_list (object_refs x) y)"
    by (intro sum_list_map_pos [of "Some (x, n)"]) simp_all
  then show ?thesis by (simp add: owners_def)
qed

lemma owned_alive:
  assumes "count_inv locals hp" "0 < owners hp ob \<or> ob \<in> set locals"
  shows "\<exists>x. get_object hp ob = Inr x"
proof -
  have "use_count hp ob = owners hp ob + count_list locals ob" using assms(1) by (simp add: count_inv_def)
  moreover have "ob \<in> set locals \<Longrightarrow> count_list locals ob \<noteq> 0" by (simp add: count_list_0_iff)
  ultimately have "0 < use_count hp ob" using assms(2) by auto
  then show ?thesis by (auto simp: use_count_def get_object_def split: if_splits option.splits)
qed

lemma alive_count:
  assumes "get_object hp ob = Inr x" "count_inv locals hp"
  shows "0 < use_count hp ob"
proof -
  obtain n where "ob < length (objects hp)" "objects hp ! ob = Some (x, n)"
    using assms(1) by (auto simp: get_object_def split: if_splits option.splits)
  then show ?thesis using assms(2) unfolding count_inv_def by (simp add: use_count_def)
qed

lemma fresh_unowned:
  assumes "count_inv locals hp"
  shows "owners hp (length (objects hp)) = 0 \<and> length (objects hp) \<notin> set locals"
proof -
  have "\<not> (\<exists>x. get_object hp (length (objects hp)) = Inr x)" by (simp add: get_object_def)
  then show ?thesis using owned_alive [OF assms, of "length (objects hp)"] by fastforce
qed

subsection \<open>Types\<close>

lemma get_object_handles [simp]: "get_object (hp\<lparr>handles := hs\<rparr>) ob = get_object hp ob"
  by (simp add: get_object_def)

lemma get_object_move_out [simp]: "get_object (move_out h hp) ob = get_object hp ob"
  by (simp add: move_out_def)

lemma get_object_share [simp]: "get_object (share s hp) ob = get_object hp ob"
proof (cases s)
  case (Some a)
  then show ?thesis by (cases "a = ob") (auto simp: get_object_def split: option.split)
qed simp

lemma handles_share [simp]: "handles (share s hp) = handles hp"
  by (cases s) auto

lemma get_object_new_rep:
  "get_object (snd (new_rep x hp)) ob = (if ob = length (objects hp) then Inr x else get_object hp ob)"
  by (auto simp: get_object_def new_rep_def nth_append)

lemma type_inv_shrink:
  assumes "type_inv hp" "set (handles hp') \<subseteq> insert None (set (handles hp))"
    and "\<And>ob x. get_object hp' ob = Inr x \<Longrightarrow> get_object hp ob = Inr x"
  shows "type_inv hp'"
  using assms unfolding type_inv_def by blast

lemma type_inv_move_out:
  assumes "type_inv hp" "has_type hp h t" "t = logdevice_reader_t \<or> t = logdevice_checkpoint_store_t"
  shows "type_inv (move_out h hp)"
proof -
  obtain rep where "handles hp ! h = Some (t, rep)" using assms(2) by (auto simp: has_type_def)
  then have "set (handles (move_out h hp)) \<subseteq> insert (Some (t, None)) (set (handles hp))"
    by (simp add: move_out_def set_update_subset_insert)
  then show ?thesis
    using assms(1,3) unfolding type_inv_def get_object_move_out by blast
qed

lemma type_inv_new_rep:
  assumes "type_inv hp" "count_inv locals hp"
  shows "type_inv (snd (new_rep x hp))"
proof -
  have old: "ob \<noteq> length (objects hp)" if "Some (t, Some ob) \<in> set (handles hp)" for t ob
    using fresh_unowned [OF assms(2)] owners_handle [OF that] by auto
  have "set (handles (snd (new_rep x hp))) = insert (Some (type_of x, Some (length (objects hp)))) (set (handles hp))"
    by (simp add: new_rep_def)
  then show ?thesis
    using assms(1) old unfolding type_inv_def get_object_new_rep by auto
qed

lemma leaf_inv_shrink:
  assumes "leaf_inv hp" "\<And>ob x. get_object hp' ob = Inr x \<Longrightarrow> get_object hp ob = Inr x"
  shows "leaf_inv hp'"
  using assms unfolding leaf_inv_def by blast

lemma leaf_inv_new_rep:
  assumes "leaf_inv hp" "count_inv (owned x @ locals) hp"
    and "\<And>y z. y \<in> set (owned x) \<Longrightarrow> get_object hp y = Inr z \<Longrightarrow> owned z = []"
  shows "leaf_inv (snd (new_rep x hp))"
proof -
  have "y \<noteq> length (objects hp)" if "get_object hp ob = Inr w" "y \<in> set (owned w)" for ob w y
    using fresh_unowned [OF assms(2)] owners_member [OF that] by auto
  moreover have "length (objects hp) \<notin> set (owned x)" using fresh_unowned [OF assms(2)] by simp
  ultimately show ?thesis
    using assms(1,3) unfolding leaf_inv_def get_object_new_rep by (metis sum.inject(2))
qed

section \<open>Every operation keeps the heap\<close>

definition heap_inv :: "nat list \<Rightarrow> ld_heap \<Rightarrow> bool" where
  "heap_inv locals hp \<longleftrightarrow> count_inv locals hp \<and> type_inv hp \<and> leaf_inv hp"

lemma heap_inv_new_rep:
  assumes "heap_inv (owned x @ locals) hp"
    and "\<And>y z. y \<in> set (owned x) \<Longrightarrow> get_object hp y = Inr z \<Longrightarrow> owned z = []"
  shows "heap_inv locals (snd (new_rep x hp))"
  using assms count_inv_new_rep type_inv_new_rep leaf_inv_new_rep unfolding heap_inv_def by blast

lemma drop_members:
  assumes "count_inv (ys @ locals) hp" "\<And>y z. y \<in> set ys \<Longrightarrow> get_object hp y = Inr z \<Longrightarrow> owned z = []"
  shows "\<exists>hp'. fold_result (\<lambda>ob hp. drop_member hp ob) ys hp = Inr hp' \<and> count_inv locals hp' \<and>
    handles hp' = handles hp \<and> (\<forall>ob x. get_object hp' ob = Inr x \<longrightarrow> get_object hp ob = Inr x)"
  using assms
proof (induction ys arbitrary: hp)
  case (Cons y ys)
  obtain d hp1 where d: "drop_ref y hp = Inr (d, hp1)"
      "count_inv ((case d of None \<Rightarrow> [] | Some x \<Rightarrow> owned x) @ (ys @ locals)) hp1" "handles hp1 = handles hp"
      "\<forall>x. d = Some x \<longrightarrow> get_object hp y = Inr x" "\<forall>ob x. get_object hp1 ob = Inr x \<longrightarrow> get_object hp ob = Inr x"
    using count_inv_drop_ref [of y "ys @ locals" hp] Cons.prems(1) by auto
  have "(case d of None \<Rightarrow> [] | Some x \<Rightarrow> owned x) = []"
    using d(4) Cons.prems(2) by (cases d) auto
  then have "count_inv (ys @ locals) hp1" using d(2) by simp
  moreover have "\<And>z w. z \<in> set ys \<Longrightarrow> get_object hp1 z = Inr w \<Longrightarrow> owned w = []"
    using d(5) Cons.prems(2) by auto
  ultimately obtain hp' where "fold_result (\<lambda>ob hp. drop_member hp ob) ys hp1 = Inr hp'" "count_inv locals hp'"
      "handles hp' = handles hp1" "\<forall>ob x. get_object hp' ob = Inr x \<longrightarrow> get_object hp1 ob = Inr x"
    using Cons.IH by blast
  then show ?case using d by (auto simp: drop_member_def)
qed simp

lemma release_inv:
  assumes "heap_inv ((case rep of None \<Rightarrow> [] | Some b \<Rightarrow> [b]) @ locals) hp"
  shows "\<exists>hp'. release rep hp = Inr hp' \<and> heap_inv locals hp' \<and> handles hp' = handles hp \<and>
    (\<forall>ob x. get_object hp' ob = Inr x \<longrightarrow> get_object hp ob = Inr x)"
proof (cases rep)
  case None
  then show ?thesis using assms by (simp add: release_def)
next
  case (Some b)
  obtain d hp1 where d: "drop_ref b hp = Inr (d, hp1)"
      "count_inv ((case d of None \<Rightarrow> [] | Some x \<Rightarrow> owned x) @ locals) hp1" "handles hp1 = handles hp"
      "\<forall>x. d = Some x \<longrightarrow> get_object hp b = Inr x" "\<forall>ob x. get_object hp1 ob = Inr x \<longrightarrow> get_object hp ob = Inr x"
    using count_inv_drop_ref [of b locals hp] assms Some by (auto simp: heap_inv_def)
  let ?ys = "case d of None \<Rightarrow> [] | Some x \<Rightarrow> owned x"
  have leaf: "owned z = []" if y: "y \<in> set ?ys" "get_object hp1 y = Inr z" for y z
  proof -
    obtain x where "d = Some x" "y \<in> set (owned x)" using y(1) by (cases d) auto
    then show ?thesis using d(4,5) y(2) assms unfolding heap_inv_def leaf_inv_def by blast
  qed
  have "\<exists>hp'. fold_result (\<lambda>ob hp. drop_member hp ob) ?ys hp1 = Inr hp' \<and> count_inv locals hp' \<and>
      handles hp' = handles hp1 \<and> (\<forall>ob x. get_object hp' ob = Inr x \<longrightarrow> get_object hp1 ob = Inr x)"
    by (rule drop_members [OF d(2)]) (rule leaf)
  then obtain hp' where
      hp': "fold_result (\<lambda>ob hp. drop_member hp ob) ?ys hp1 = Inr hp'" "count_inv locals hp'"
      "handles hp' = handles hp1" "\<forall>ob x. get_object hp' ob = Inr x \<longrightarrow> get_object hp1 ob = Inr x"
    by blast
  have "release rep hp = Inr hp'" using Some d(1) hp'(1) by (cases d) (simp_all add: release_def)
  moreover have "type_inv hp'" "leaf_inv hp'"
    using assms hp'(3,4) d(3,5) type_inv_shrink [of hp hp'] leaf_inv_shrink [of hp hp'] by (auto simp: heap_inv_def)
  ultimately show ?thesis using hp' d(3,5) by (auto simp: heap_inv_def)
qed

lemma has_type_rep: "has_type hp h t \<Longrightarrow> \<exists>rep. handles hp ! h = Some (t, rep) \<and> get_rep hp h = Inr rep"
  by (auto simp: has_type_def get_rep_def)

lemma heap_inv_deref:
  assumes "heap_inv locals hp" "has_type hp h t" "get_rep hp h = Inr (Some ob)"
  shows "\<exists>x. get_object hp ob = Inr x \<and> type_of x = t"
proof -
  have "Some (t, Some ob) \<in> set (handles hp)"
    using has_type_rep [OF assms(2)] assms(2,3) nth_mem [of h "handles hp"] by (auto simp: has_type_def)
  then show ?thesis
    using assms(1) owned_alive owners_handle unfolding heap_inv_def type_inv_def by blast
qed

lemma client_rep:
  assumes "heap_inv locals hp" "has_type hp c logdevice_client_t"
  shows "\<exists>ob. get_rep hp c = Inr (Some ob) \<and> get_object hp ob = Inr Client_obj"
proof -
  obtain rep where rep: "handles hp ! c = Some (logdevice_client_t, rep)" "get_rep hp c = Inr rep"
    using has_type_rep [OF assms(2)] by blast
  have "Some (logdevice_client_t, rep) \<in> set (handles hp)"
    using rep(1) assms(2) nth_mem [of c "handles hp"] by (auto simp: has_type_def)
  then obtain ob where "rep = Some ob"
    using assms(1) unfolding heap_inv_def type_inv_def by (cases rep) auto
  then show ?thesis
    using heap_inv_deref [OF assms, of ob] rep(2) by (auto elim: type_of.elims)
qed

lemma free_handle_inv:
  assumes "heap_inv [] hp" "h < length (handles hp)" "handles hp ! h \<noteq> None"
  shows "\<exists>hp'. free_handle h hp = Inr hp' \<and> heap_inv [] hp' \<and> handles hp' = (handles hp)[h := None] \<and>
    (\<forall>ob x. get_object hp' ob = Inr x \<longrightarrow> get_object hp ob = Inr x)"
proof -
  obtain t rep where h: "handles hp ! h = Some (t, rep)" using assms(3) by auto
  let ?hp = "hp\<lparr>handles := (handles hp)[h := None]\<rparr>"
  have refs: "handle_refs (handles hp ! h) = (case rep of None \<Rightarrow> [] | Some b \<Rightarrow> [b])"
    using h by (auto split: option.split)
  have "count_inv ((case rep of None \<Rightarrow> [] | Some b \<Rightarrow> [b]) @ []) ?hp"
    using count_inv_set_handle [of "[]" hp h None] assms(1,2) refs by (simp add: heap_inv_def)
  moreover have "type_inv ?hp" "leaf_inv ?hp"
    using assms(1) type_inv_shrink [of hp ?hp] leaf_inv_shrink [of hp ?hp] set_update_subset_insert
    by (fastforce simp: heap_inv_def)+
  ultimately show ?thesis
    using release_inv [of rep "[]" ?hp] assms(2) h by (auto simp: heap_inv_def free_handle_def get_rep_def)
qed

lemma member_leaf:
  assumes "heap_inv locals hp" "has_type hp h t" "t = logdevice_reader_t \<or> t = logdevice_checkpoint_store_t"
    and "get_rep hp h = Inr (Some y)" "get_object hp y = Inr z"
  shows "owned z = []"
proof -
  have "type_of z = t" using heap_inv_deref [OF assms(1,2,4)] assms(5) by auto
  then show ?thesis using assms(3) by (cases z) auto
qed

lemma new_ckp_reader_inv:
  assumes inv: "heap_inv [] hp"
    and t: "has_type hp r logdevice_reader_t" "has_type hp s logdevice_checkpoint_store_t"
    and rep: "get_rep hp r = Inr rr" "get_rep hp s = Inr sr"
  shows "\<exists>hp2. new_ckp_reader_handle shared r s hp = Inr (new_rep (Ckp_reader_obj rr sr) hp2) \<and>
    handles hp2 = (handles hp)[r := Some (logdevice_reader_t, None),
      s := Some (logdevice_checkpoint_store_t, if shared then sr else None)] \<and>
    objects hp2 = objects (if shared then share sr hp else hp) \<and>
    heap_inv [] (snd (new_rep (Ckp_reader_obj rr sr) hp2))"
proof -
  have h: "r < length (handles hp)" "s < length (handles hp)" "handles hp ! r = Some (logdevice_reader_t, rr)"
      "handles hp ! s = Some (logdevice_checkpoint_store_t, sr)"
    using t rep by (auto simp: has_type_def get_rep_def)
  then have ne: "r \<noteq> s" by auto
  let ?l = "\<lambda>x. case x of None \<Rightarrow> [] | Some b \<Rightarrow> [b]"
  define hp1 where "hp1 = move_out r hp"
  define hp2 where "hp2 = (if shared then share sr hp1 else move_out s hp1)"
  have refs: "handle_refs (handles hp ! r) = ?l rr" "handle_refs (handles hp1 ! s) = ?l sr" "handles hp1 ! s = handles hp ! s"
    using h ne by (auto simp: hp1_def move_out_def split: option.split)
  have c1: "count_inv (?l rr) hp1"
    using count_inv_move_out [of "[]" hp r] inv h refs by (simp add: heap_inv_def hp1_def)
  have "0 < use_count hp1 ob" if "sr = Some ob" for ob
  proof -
    have "\<exists>x. get_object hp1 ob = Inr x" using heap_inv_deref [OF inv t(2)] rep(2) that by (auto simp: hp1_def)
    then show ?thesis using alive_count c1 by blast
  qed
  then have c2: "count_inv (?l sr @ ?l rr) hp2"
    using count_inv_share [OF c1, of sr] count_inv_move_out [OF c1, of s] h refs
    by (auto simp: hp2_def hp1_def move_out_def)
  have same: "get_object hp2 ob = get_object hp ob" for ob by (simp add: hp2_def hp1_def)
  have own: "owned (Ckp_reader_obj rr sr) = ?l rr @ ?l sr" by simp
  have "has_type hp1 s logdevice_checkpoint_store_t" using t(2) refs(3) by (simp add: has_type_def hp1_def move_out_def)
  moreover have t1: "type_inv hp1" using type_inv_move_out [OF _ t(1)] inv by (simp add: heap_inv_def hp1_def)
  ultimately have "type_inv (move_out s hp1)" using type_inv_move_out by blast
  moreover have "type_inv (share sr hp1)" by (rule type_inv_shrink [OF t1]) auto
  ultimately have "type_inv hp2" by (simp add: hp2_def)
  moreover have "leaf_inv hp2" using inv leaf_inv_shrink [of hp hp2] same by (auto simp: heap_inv_def)
  moreover have "count_inv (owned (Ckp_reader_obj rr sr) @ []) hp2"
    using c2 unfolding own count_inv_def by (simp add: count_list_append_nat add.commute)
  ultimately have "heap_inv (owned (Ckp_reader_obj rr sr) @ []) hp2" by (simp add: heap_inv_def)
  moreover have "owned z = []" if "y \<in> set (owned (Ckp_reader_obj rr sr))" "get_object hp2 y = Inr z" for y z
    using that member_leaf [OF inv t(1) _ _, of y z] member_leaf [OF inv t(2) _ _, of y z] rep same
    by (auto split: option.splits)
  ultimately have "heap_inv [] (snd (new_rep (Ckp_reader_obj rr sr) hp2))" by (rule heap_inv_new_rep)
  moreover have "new_ckp_reader_handle shared r s hp = Inr (new_rep (Ckp_reader_obj rr sr) hp2)"
    using rep by (simp add: new_ckp_reader_handle_def hp1_def hp2_def Let_def)
  moreover have "handles hp2 = (handles hp)[r := Some (logdevice_reader_t, None),
      s := Some (logdevice_checkpoint_store_t, if shared then sr else None)]"
  proof -
    have "handles hp1 = (handles hp)[r := Some (logdevice_reader_t, None)]" using h by (simp add: hp1_def move_out_def)
    moreover have "(handles hp1)[s := Some (logdevice_checkpoint_store_t, sr)] = handles hp1"
      using h(4) refs(3) list_update_id [of "handles hp1" s] by simp
    moreover have "handles hp2 = (if shared then handles hp1 else (handles hp1)[s := Some (logdevice_checkpoint_store_t, None)])"
      using h(4) refs(3) by (simp add: hp2_def move_out_def)
    ultimately show ?thesis by (cases shared) simp_all
  qed
  moreover have "objects hp2 = objects (if shared then share sr hp else hp)"
    by (cases sr) (auto simp: hp2_def hp1_def move_out_def)
  ultimately show ?thesis by blast
qed

lemma new_leaf_inv: "heap_inv [] hp \<Longrightarrow> owned x = [] \<Longrightarrow> heap_inv [] (snd (new_rep x hp))"
  using heap_inv_new_rep [of x "[]" hp] by simp

lemma handle_step_inv:
  assumes "heap_inv [] hp" "op_typed op hp"
  shows "\<exists>hp'. handle_step shared op hp = Inr hp' \<and> heap_inv [] hp'"
proof (cases op)
  case (New_reader c)
  then show ?thesis
    using assms client_rep [of "[]" hp c] by (auto simp: new_reader_handle_def deref_def intro!: new_leaf_inv)
next
  case (New_rsm_store c)
  then show ?thesis
    using assms client_rep [of "[]" hp c] by (auto simp: new_rsm_based_checkpoint_store_def intro!: new_leaf_inv)
next
  case (New_vcs c)
  then show ?thesis
    using assms client_rep [of "[]" hp c] by (auto simp: new_rsm_based_vcs_def intro!: new_leaf_inv)
next
  case (New_ckp_reader r s)
  then have t: "has_type hp r logdevice_reader_t" "has_type hp s logdevice_checkpoint_store_t"
    using assms(2) by simp_all
  obtain rr sr where "get_rep hp r = Inr rr" "get_rep hp s = Inr sr"
    using has_type_rep [OF t(1)] has_type_rep [OF t(2)] by blast
  from new_ckp_reader_inv [OF assms(1) t this, of shared] show ?thesis
    using New_ckp_reader by (metis (no_types) handle_step.simps(6) map_sum.simps(2))
next
  case (Free h)
  then show ?thesis using assms free_handle_inv [of hp h] by auto
qed (use assms in \<open>auto simp: new_file_based_checkpoint_store_def intro!: new_leaf_inv\<close>)

lemma heap_inv_empty: "heap_inv [] \<lparr>handles = [], objects = []\<rparr>"
  by (simp add: heap_inv_def count_inv_def type_inv_def leaf_inv_def use_count_def owners_def get_object_def)

lemma run_ops_inv:
  "heap_inv [] hp \<Longrightarrow> ops_typed shared ops hp \<Longrightarrow>
    \<exists>hp'. fold_result (handle_step shared) ops hp = Inr hp' \<and> heap_inv [] hp'"
proof (induction ops arbitrary: hp)
  case (Cons op ops)
  obtain hp1 where "handle_step shared op hp = Inr hp1" "heap_inv [] hp1"
    using handle_step_inv [OF Cons.prems(1), of op shared] Cons.prems(2) by auto
  then show ?case using Cons.IH [of hp1] Cons.prems(2) by simp
qed simp

lemma no_handles_no_objects:
  assumes "heap_inv [] hp" "set (handles hp) \<subseteq> {None}"
  shows "set (objects hp) \<subseteq> {None}"
proof -
  have count: "use_count hp ob = owners hp ob" for ob
    using assms(1) by (simp add: heap_inv_def count_inv_def)
  have owner: "\<exists>b w. get_object hp b = Inr w \<and> ob \<in> set (owned w)" if "get_object hp ob = Inr x" for ob x
  proof (rule ccontr)
    assume none: "\<not> ?thesis"
    have "count_list (handle_refs h) ob = 0" if "h \<in> set (handles hp)" for h
      using assms(2) that by auto
    moreover have "count_list (object_refs v) ob = 0" if v: "v \<in> set (objects hp)" for v
    proof (cases v)
      case (Some p)
      obtain w n where p: "p = (w, n)" by fastforce
      obtain b where "b < length (objects hp)" "objects hp ! b = v"
        using v unfolding in_set_conv_nth by blast
      then have "get_object hp b = Inr w" using Some p by (simp add: get_object_def)
      then have "ob \<notin> set (owned w)" using none by blast
      then show ?thesis using Some p by (simp add: count_list_0_iff)
    qed simp
    ultimately have "owners hp ob = 0" unfolding owners_def by (simp add: sum_list_map_zero)
    moreover have "0 < use_count hp ob" using alive_count [OF that] assms(1) by (auto simp: heap_inv_def)
    ultimately show False using count by simp
  qed
  have dead: "\<nexists>x. get_object hp ob = Inr x" for ob
  proof
    assume "\<exists>x. get_object hp ob = Inr x"
    then obtain b w where b: "get_object hp b = Inr w" "ob \<in> set (owned w)" using owner by blast
    obtain c v where "get_object hp c = Inr v" "b \<in> set (owned v)" using owner [OF b(1)] by blast
    then have "owned w = []" using assms(1) b(1) unfolding heap_inv_def leaf_inv_def by blast
    then show False using b(2) by simp
  qed
  show ?thesis
  proof
    fix w assume "w \<in> set (objects hp)"
    then obtain b where "b < length (objects hp)" "objects hp ! b = w" unfolding in_set_conv_nth by blast
    then show "w \<in> {None}" using dead [of b] by (auto simp: get_object_def split: option.splits)
  qed
qed

section \<open>Properties\<close>



text \<open>
  \<^bold>\<open>C23.\<close> Creating a checkpointed reader takes the reader out of its handle. With shared stores the
  store's handle goes on working, and the store outlives it as long as the reader; without, the handle
  is null from then on and every use of it dereferences a null pointer.
\<close>

theorem checkpointed_reader_ownership:
  assumes "ops_typed shared ops \<lparr>handles = [], objects = []\<rparr>" "run_handles shared ops = Inr hp"
    and "has_type hp r logdevice_reader_t" "deref hp r = Inr Reader_obj" "get_rep hp s = Inr (Some st)"
    and "has_type hp s logdevice_checkpoint_store_t"
  shows "\<exists>h hp'. new_ckp_reader_handle shared r s hp = Inr (h, hp') \<and>
    deref hp' r = Inl null_pointer \<and>
    deref hp' s = (if shared then Inr Store_obj else Inl null_pointer) \<and>
    (\<exists>rd. deref hp' h = Inr (Ckp_reader_obj (Some rd) (Some st))) \<and>
    (\<exists>hp''. free_handle s hp' = Inr hp'' \<and> get_object hp'' st = Inr Store_obj)"
proof -
  have inv: "heap_inv [] hp"
    using run_ops_inv [OF heap_inv_empty assms(1)] assms(2) by (auto simp: run_handles_def)
  obtain rd where rd: "get_rep hp r = Inr (Some rd)"
    using assms(4) by (auto simp: deref_def split: sum.splits option.splits)
  obtain hp2 where hp2: "new_ckp_reader_handle shared r s hp = Inr (new_rep (Ckp_reader_obj (Some rd) (Some st)) hp2)"
      "handles hp2 = (handles hp)[r := Some (logdevice_reader_t, None),
        s := Some (logdevice_checkpoint_store_t, if shared then Some st else None)]"
      "objects hp2 = objects (if shared then share (Some st) hp else hp)"
      "heap_inv [] (snd (new_rep (Ckp_reader_obj (Some rd) (Some st)) hp2))"
    using new_ckp_reader_inv [OF inv assms(3,6) rd assms(5), of shared] by blast
  define hp' where "hp' = snd (new_rep (Ckp_reader_obj (Some rd) (Some st)) hp2)"
  define h where "h = fst (new_rep (Ckp_reader_obj (Some rd) (Some st)) hp2)"
  have idx: "r < length (handles hp)" "s < length (handles hp)" "r \<noteq> s"
    using assms(3,6) by (auto simp: has_type_def)
  have reps: "get_rep hp' r = Inr None" "get_rep hp' s = Inr (if shared then Some st else None)"
      "get_rep hp' h = Inr (Some (length (objects hp2)))" "h = length (handles hp2)"
    using idx hp2(2) by (auto simp: get_rep_def hp'_def h_def new_rep_def nth_append)
  have st: "get_object hp st = Inr Store_obj"
    using heap_inv_deref [OF inv assms(6,5)] by (auto elim: type_of.elims)
  have old: "get_object hp2 ob = get_object hp ob" for ob
    using hp2(3) get_object_share [of "Some st" hp ob] by (auto simp: get_object_def)
  have "st < length (objects hp2)" using st old [of st] by (auto simp: get_object_def split: if_splits)
  then have st': "get_object hp' st = Inr Store_obj"
    using st old by (simp add: hp'_def get_object_new_rep)
  have new: "get_object hp' (length (objects hp2)) = Inr (Ckp_reader_obj (Some rd) (Some st))"
    by (simp add: hp'_def get_object_new_rep)
  obtain hp'' where hp'': "free_handle s hp' = Inr hp''" "heap_inv [] hp''" "handles hp'' = (handles hp')[s := None]"
      "\<forall>ob x. get_object hp'' ob = Inr x \<longrightarrow> get_object hp' ob = Inr x"
    using free_handle_inv [of hp' s] hp2(4) idx reps(2) hp2(2)
    by (auto simp: hp'_def new_rep_def nth_append get_rep_def)
  have "get_rep hp'' h = Inr (Some (length (objects hp2)))" "\<exists>t. has_type hp'' h t"
    using hp''(3) reps(3,4) idx hp2(2) by (auto simp: hp'_def new_rep_def get_rep_def has_type_def nth_append nth_list_update)
  then have "get_object hp'' (length (objects hp2)) = Inr (Ckp_reader_obj (Some rd) (Some st))"
    using heap_inv_deref [OF hp''(2)] hp''(4) new by force
  then have "0 < owners hp'' st" by (rule owners_member) simp
  then have "get_object hp'' st = Inr Store_obj"
    using owned_alive [of "[]" hp'' st] hp''(2,4) st' by (force simp: heap_inv_def)
  moreover have "new_ckp_reader_handle shared r s hp = Inr (h, hp')" using hp2(1) by (simp add: h_def hp'_def)
  moreover have "deref hp' r = Inl null_pointer" "deref hp' s = (if shared then Inr Store_obj else Inl null_pointer)"
      "deref hp' h = Inr (Ckp_reader_obj (Some rd) (Some st))"
    using reps st' new by (simp_all add: deref_def)
  ultimately show ?thesis using hp''(1) by blast
qed

theorem checkpointed_reader_ownership_witness:
  "\<exists>h hp'. new_ckp_reader_handle False 1 2
       \<lparr>handles = [Some (logdevice_client_t, Some 0), Some (logdevice_reader_t, Some 1),
                   Some (logdevice_checkpoint_store_t, Some 2)],
        objects = [Some (Client_obj, 1), Some (Reader_obj, 1), Some (Store_obj, 1)]\<rparr> = Inr (h, hp') \<and>
     deref hp' 2 = Inl null_pointer"
proof -
  let ?ops = "[New_client, New_reader 0, New_rsm_store 0]"
  let ?hp = "\<lparr>handles = [Some (logdevice_client_t, Some 0), Some (logdevice_reader_t, Some 1),
                   Some (logdevice_checkpoint_store_t, Some 2)],
        objects = [Some (Client_obj, 1), Some (Reader_obj, 1), Some (Store_obj, 1)]\<rparr>"
  have "ops_typed False ?ops \<lparr>handles = [], objects = []\<rparr>" by code_simp
  moreover have "run_handles False ?ops = Inr ?hp" by code_simp
  moreover have "has_type ?hp 1 logdevice_reader_t" "has_type ?hp 2 logdevice_checkpoint_store_t"
    by (simp_all add: has_type_def)
  moreover have "deref ?hp 1 = Inr Reader_obj" by (simp add: deref_def get_rep_def get_object_def)
  moreover have "get_rep ?hp 2 = Inr (Some 2)" by (simp add: get_rep_def)
  ultimately show ?thesis
    using checkpointed_reader_ownership [of False ?ops ?hp 1 2 2] by auto
qed

text \<open>
  A versioned configuration store does not own the client it was made from: when Haskell frees the
  last handle of the client first, the store is left with a dangling pointer to its processor.
\<close>

lemma vcs_outlives_client:
  assumes "heap_inv [] hp" "has_type hp c logdevice_client_t" "get_rep hp c = Inr (Some ob)" "use_count hp ob = 1"
    and "new_rsm_based_vcs True c hp = Inr (h, hp1)"
  shows "\<exists>hp2. free_handle c hp1 = Inr hp2 \<and> deref hp2 h = Inr (Vcs_obj ob) \<and> vcs_processor hp2 h = Inl use_after_free"
proof -
  have ob: "ob < length (objects hp)" "objects hp ! ob = Some (Client_obj, 1)"
    using client_rep [OF assms(1,2)] assms(3,4) by (auto simp: get_object_def use_count_def split: if_splits option.splits)
  have hp1: "h = length (handles hp)" "hp1 = snd (new_rep (Vcs_obj ob) hp)"
    using assms(3,5) by (auto simp: new_rsm_based_vcs_def new_rep_def)
  have c: "c < length (handles hp)" using assms(2) by (simp add: has_type_def)
  let ?hp2 = "hp1\<lparr>handles := (handles hp1)[c := None], objects := (objects hp1)[ob := None]\<rparr>"
  have "get_rep hp1 c = Inr (Some ob)" using assms(3) c hp1 by (simp add: get_rep_def new_rep_def nth_append)
  moreover have "objects hp1 ! ob = Some (Client_obj, 1)" "ob < length (objects hp1)"
    using ob hp1(2) by (simp_all add: new_rep_def nth_append)
  ultimately have "free_handle c hp1 = Inr ?hp2"
    by (simp add: free_handle_def release_def drop_ref_def)
  moreover have "deref ?hp2 h = Inr (Vcs_obj ob)"
    using hp1 c ob by (simp add: deref_def get_rep_def get_object_def new_rep_def nth_append nth_list_update)
  moreover have "get_object ?hp2 ob = Inl use_after_free"
    using ob hp1(2) by (simp add: get_object_def new_rep_def)
  ultimately show ?thesis by (auto simp: vcs_processor_def)
qed

end
