(* ===== verification/Fake_Server.thy ===== *)
theory Fake_Server
  imports Store_Logs Store_Config
begin

text \<open>
  The stand-in server of the benchmarks (\<open>bench/cpp/fake_server.cpp\<close>), an asynchronous gRPC server. A
  call object per request moves through the states of \<open>CallStatus\<close> and deletes itself at the end; a
  thread per completion queue drives the objects by the tags the queue returns. gRPC is represented
  by the operations a queue has been given and not yet returned, LogDevice's client by what it answers.
\<close>

section \<open>Calls\<close>

datatype CallStatus = CREATE | PROCESS | FINISH

text \<open>The classes \<open>SIMPLE_RPC_CALL\<close> declares.\<close>

datatype rpc_method = Echo | DescribeCluster | ListShards | LookupShard | CreateStream | Append

record rpc_call =
  rc_method :: rpc_method
  status_' :: CallStatus

text \<open>
  A completion queue with the call objects that use it: the live objects by address, the next fresh
  address, and the tags of the operations started but not yet returned by \<open>Next\<close>.
\<close>

record rpc_queue =
  calls :: "(nat \<times> rpc_call) list"
  next_addr :: nat
  pending :: "nat list"

text \<open>
  What can become of the thread of a queue: it goes on, the process ends because an exception leaves
  the \<open>noexcept\<close> function \<open>proceed\<close>, the thread waits for ever in a handler, or it uses an object that
  has been deleted.
\<close>

datatype thread_outcome = Running rpc_queue | Terminated | Waiting_forever | Use_after_free

datatype handler_outcome = Returned | Threw | Blocked

text \<open>\<open>request_rpc_method\<close> in state \<open>CREATE\<close>: one operation with the object as its tag.\<close>

definition request_call :: "nat \<Rightarrow> rpc_call \<Rightarrow> rpc_queue \<Rightarrow> rpc_queue" where
  "request_call addr c q =
     q\<lparr>calls := AList.update addr (c\<lparr>status_' := PROCESS\<rparr>) (calls q), pending := pending q @ [addr]\<rparr>"

text \<open>The constructor of \<open>RpcCallBase\<close> calls \<open>proceed\<close> on the new object, which is in state \<open>CREATE\<close>.\<close>

definition new_RpcCall :: "rpc_method \<Rightarrow> rpc_queue \<Rightarrow> rpc_queue" where
  "new_RpcCall m q =
     (let c = \<lparr>rc_method = m, status_' = CREATE\<rparr>
      in request_call (next_addr q) c (q\<lparr>next_addr := Suc (next_addr q)\<rparr>))"

definition delete_call :: "nat \<Rightarrow> rpc_queue \<Rightarrow> rpc_queue" where
  "delete_call addr q = q\<lparr>calls := AList.delete addr (calls q)\<rparr>"

definition proceed :: "handler_outcome \<Rightarrow> nat \<Rightarrow> rpc_queue \<Rightarrow> thread_outcome" where
  "proceed handler addr q =
     (case map_of (calls q) addr of
        None \<Rightarrow> Use_after_free
      | Some c \<Rightarrow>
          (case status_' c of
             CREATE \<Rightarrow> Running (request_call addr c q)
           | PROCESS \<Rightarrow>
               (let q = new_RpcCall (rc_method c) q in
                case handler of
                  Threw \<Rightarrow> Terminated
                | Blocked \<Rightarrow> Waiting_forever
                | Returned \<Rightarrow>
                    Running (q\<lparr>calls := AList.update addr (c\<lparr>status_' := FINISH\<rparr>) (calls q),
                               pending := pending q @ [addr]\<rparr>))
           | FINISH \<Rightarrow> Running (delete_call addr q)))"

text \<open>One round of the loop of \<open>HandleRpcs\<close>, for the tag and the flag that \<open>Next\<close> returned.\<close>

definition handle_next :: "handler_outcome \<Rightarrow> nat \<Rightarrow> bool \<Rightarrow> rpc_queue \<Rightarrow> thread_outcome" where
  "handle_next handler tag ok q =
     (let q = q\<lparr>pending := remove1 tag (pending q)\<rparr> in
      if \<not> ok
      then (if map_of (calls q) tag = None then Use_after_free else Running (delete_call tag q))
      else proceed handler tag q)"

text \<open>The calls \<open>HandleRpcs\<close> starts with.\<close>

definition HandleRpcs_start :: rpc_queue where
  "HandleRpcs_start =
     fold new_RpcCall [Echo, DescribeCluster, ListShards, LookupShard, CreateStream, Append]
       \<lparr>calls = [], next_addr = 0, pending = []\<rparr>"

section \<open>Handlers\<close>

record EchoMessage =
  em_msg :: string

definition EchoCall_handler :: "EchoMessage \<Rightarrow> EchoMessage" where
  "EchoCall_handler request = \<lparr>em_msg = em_msg request\<rparr>"

record HStreamCtx =
  ctx_host :: string
  ctx_port :: i32

record ApiServerNode =
  an_id :: nat
  an_host :: string
  an_port :: i32

record DescribeClusterResponse =
  dc_protocolversion :: string
  dc_serverversion :: string
  dc_servernodes :: "ApiServerNode list"

definition DescribeClusterCall_handler :: "HStreamCtx \<Rightarrow> DescribeClusterResponse" where
  "DescribeClusterCall_handler ctx = \<lparr>
     dc_protocolversion = ''0.0.0'', dc_serverversion = ''0.0.0'',
     dc_servernodes = [\<lparr>an_id = 1000, an_host = ctx_host ctx, an_port = ctx_port ctx\<rparr>]\<rparr>"

definition LookupShardCall_handler :: "HStreamCtx \<Rightarrow> u64 \<Rightarrow> u64 \<times> ApiServerNode" where
  "LookupShardCall_handler ctx shardid =
     (shardid, \<lparr>an_id = 1000, an_host = ctx_host ctx, an_port = ctx_port ctx\<rparr>)"

text \<open>\<open>CreateStreamCall::handler\<close> leaves the reply as it was made: its body is a comment.\<close>

definition CreateStreamCall_handler :: "'stream \<Rightarrow> 'stream \<Rightarrow> 'stream" where
  "CreateStreamCall_handler request reply = reply"

text \<open>\<open>std::stoull\<close>: like \<^const>\<open>stoll\<close>, but a sign negates modulo \<open>2^64\<close>.\<close>

definition stoull :: "string \<Rightarrow> u64 result" where
  "stoull s =
     (case signed_prefix (dropWhile is_space s) of
        None \<Rightarrow> Inl (StdException ''invalid_argument'')
      | Some v \<Rightarrow> if \<bar>v\<bar> < 2 ^ 64 then Inr (word_of_int v) else Inl (StdException ''out_of_range''))"

record Shard =
  sh_streamname :: string
  sh_shardid :: u64
  sh_starthashrangekey :: string
  sh_endhashrangekey :: string
  sh_epoch :: u64

definition add_shard :: "'a attrs_lib \<Rightarrow> string \<Rightarrow> 'a log_group \<Rightarrow> Shard list \<Rightarrow> Shard list result" where
  "add_shard L streamname log shards =
     (case val_of (extras (getters L (lg_attrs log))) of
        None \<Rightarrow> Inl (StdException ''Empty extras'')
      | Some es \<Rightarrow>
          (case (map_of es ''startKey'', map_of es ''endKey'', map_of es ''epoch'') of
             (Some startKey, Some endKey, Some epoch) \<Rightarrow>
               (case stoull epoch of
                  Inl e \<Rightarrow> Inl e
                | Inr n \<Rightarrow>
                    Inr (shards @ [\<lparr>sh_streamname = streamname, sh_shardid = fst (lg_range log),
                      sh_starthashrangekey = startKey, sh_endhashrangekey = endKey, sh_epoch = n\<rparr>]))
           | _ \<Rightarrow> Inl (StdException ''Empty attrs'')))"

definition ListShardsCall_handler ::
    "'a attrs_lib \<Rightarrow> (string \<Rightarrow> 'a directory option) \<Rightarrow> string \<Rightarrow> Shard list result" where
  "ListShardsCall_handler L getDirectorySync streamname =
     (let dir_path = ''/hstream/stream/'' @ streamname in
      case getDirectorySync dir_path of
        None \<Rightarrow> Inl (StdException (''getDirectory failed: '' @ dir_path))
      | Some dir \<Rightarrow> fold_result (\<lambda>(k, log). add_shard L streamname log) (dir_logs dir) [])"

text \<open>
  \<open>AppendCall::handler\<close>. The client returns an \<open>int\<close> and may later run the callback with a status and
  the sequence number of the record. The semaphore starts at 0; a handler whose semaphore is never
  posted does not return (\<^const>\<open>None\<close>). A local variable that was never assigned is \<^const>\<open>None\<close>.
\<close>

record AppendRequest =
  ar_streamname :: string
  ar_shardid :: u64
  ar_batchsize :: u32
  ar_payload :: string

record RecordId =
  ri_shardid :: u64
  ri_batchid :: "u64 option"
  ri_batchindex :: nat

record AppendResponse =
  ap_streamname :: string
  ap_shardid :: u64
  ap_recordids :: "RecordId list"

definition AppendCall_callback :: "status \<Rightarrow> u64 \<Rightarrow> u64 option \<times> nat \<Rightarrow> u64 option \<times> nat" where
  "AppendCall_callback st record_lsn vars =
     (case vars of (lsn, sem) \<Rightarrow> if st = E_OK then (Some record_lsn, Suc sem) else (lsn, sem))"

definition AppendCall_handler ::
    "(u64 \<Rightarrow> string \<Rightarrow> int \<times> (status \<times> u64) option) \<Rightarrow> AppendRequest \<Rightarrow> AppendResponse option" where
  "AppendCall_handler appendBatched request =
     (case appendBatched (ar_shardid request) (ar_payload request) of
        (ret, answer) \<Rightarrow>
          (let vars = (None, 0);
               vars = (case answer of Some (st, record_lsn) \<Rightarrow> AppendCall_callback st record_lsn vars | None \<Rightarrow> vars);
               (lsn, sem) = (if ret \<noteq> 0 then (fst vars, Suc (snd vars)) else vars)
           in if sem = 0 then None
              else Some \<lparr>ap_streamname = ar_streamname request, ap_shardid = ar_shardid request,
                ap_recordids = map (\<lambda>i. \<lparr>ri_shardid = ar_shardid request, ri_batchid = lsn, ri_batchindex = i\<rparr>)
                  [0..<unat (ar_batchsize request)]\<rparr>))"

text \<open>How the outcomes of handlers end in \<open>proceed\<close>.\<close>

definition outcome_of_result :: "'r result \<Rightarrow> handler_outcome" where
  "outcome_of_result r = (case r of Inl _ \<Rightarrow> Threw | Inr _ \<Rightarrow> Returned)"

definition outcome_of_option :: "'r option \<Rightarrow> handler_outcome" where
  "outcome_of_option r = (case r of None \<Rightarrow> Blocked | Some _ \<Rightarrow> Returned)"

section \<open>The server\<close>

text \<open>
  \<open>ServerImpl::run\<close> listens on an address and runs one thread for each of \<open>parallelism\<close> queues.
\<close>

definition server_address :: "HStreamCtx \<Rightarrow> string" where
  "server_address ctx = ctx_host ctx @ '':'' @ to_string (sint (ctx_port ctx))"

definition ServerImpl_run :: "nat \<Rightarrow> rpc_queue list" where
  "ServerImpl_run parallelism = replicate parallelism HandleRpcs_start"

subsection \<open>Starting it\<close>

text \<open>
  What Boost makes of the command line: an error, a request for help, or the options that were given;
  \<open>parse_command_line\<close> ends the process with a code or sets the options, with their defaults.
\<close>

datatype parsed_command_line =
    Parse_error
  | Parsed_help
  | Parsed "string option" "i32 option" "string option"

record cli_options =
  cli_host :: string
  cli_port :: i32
  cli_store_config :: string

definition parse_command_line :: "parsed_command_line \<Rightarrow> int + cli_options" where
  "parse_command_line parsed =
     (case parsed of
        Parse_error \<Rightarrow> Inl 1
      | Parsed_help \<Rightarrow> Inl 0
      | Parsed host port store_config \<Rightarrow> Inr \<lparr>
          cli_host = case_option ''0.0.0.0'' id host,
          cli_port = case_option 7570 id port,
          cli_store_config = case_option ''./local-data/logdevice/logdevice.conf'' id store_config\<rparr>)"

text \<open>\<open>main\<close>: the context with its client, which may be null, and the queues of the running server.\<close>

definition fake_server_main ::
    "(string \<Rightarrow> 'c option) \<Rightarrow> nat \<Rightarrow> parsed_command_line \<Rightarrow> int + HStreamCtx \<times> 'c option \<times> rpc_queue list" where
  "fake_server_main create parallelism parsed =
     (case parse_command_line parsed of
        Inl code \<Rightarrow> Inl code
      | Inr opts \<Rightarrow>
          (let client = create (cli_store_config opts);
               hstream_ctx = \<lparr>ctx_host = cli_host opts, ctx_port = cli_port opts\<rparr>
           in Inr (hstream_ctx, client, ServerImpl_run parallelism)))"

text \<open>\<open>hstream_ctx_.ld_client->\<dots>\<close> in a handler.\<close>

definition ld_client :: "'c option \<Rightarrow> ('c \<Rightarrow> 'r result) \<Rightarrow> 'r result" where
  "ld_client client f = (case client of None \<Rightarrow> Inl null_pointer | Some c \<Rightarrow> f c)"

section \<open>Call objects are used while they live\<close>

text \<open>
  The states a queue can reach: \<open>Next\<close> returns any tag whose operation is pending. The flag \<open>ok\<close> of a
  \<open>Finish\<close> is false if the call is dead; that of a request for a call only if the server is being shut
  down.
\<close>

inductive serving :: "bool \<Rightarrow> rpc_queue \<Rightarrow> bool" for shutdown :: bool where
  start: "serving shutdown HandleRpcs_start"
| next_tag: "serving shutdown q \<Longrightarrow> tag \<in> set (pending q) \<Longrightarrow>
    ok \<or> shutdown \<or> status_' (the (map_of (calls q) tag)) = FINISH \<Longrightarrow>
    handle_next handler tag ok q = Running q' \<Longrightarrow> serving shutdown q'"

text \<open>The threads of the server, interleaved: in each step one of them returns a tag from its queue.\<close>

inductive server_running :: "bool \<Rightarrow> nat \<Rightarrow> rpc_queue list \<Rightarrow> bool"
  for shutdown :: bool and parallelism :: nat where
  run: "server_running shutdown parallelism (ServerImpl_run parallelism)"
| thread: "server_running shutdown parallelism qs \<Longrightarrow> i < length qs \<Longrightarrow> tag \<in> set (pending (qs ! i)) \<Longrightarrow>
    ok \<or> shutdown \<or> status_' (the (map_of (calls (qs ! i)) tag)) = FINISH \<Longrightarrow>
    handle_next handler tag ok (qs ! i) = Running q' \<Longrightarrow> server_running shutdown parallelism (qs[i := q'])"

lemma server_running_serving:
  assumes "server_running shutdown parallelism qs" "q \<in> set qs"
  shows "serving shutdown q"
  using assms
proof (induction arbitrary: q)
  case run
  then show ?case by (auto simp: ServerImpl_run_def intro: serving.start)
next
  case (thread qs i tag ok handler q')
  have "serving shutdown q'"
    by (rule serving.next_tag [OF thread.IH [OF nth_mem [OF thread.hyps(2)]] thread.hyps(3-5)])
  then show ?case using thread.prems thread.IH set_update_subset_insert [of qs i q'] by auto
qed

text \<open>
  Every live object has exactly one pending operation, addresses are fresh, and no object is left
  in state \<open>CREATE\<close>.
\<close>

definition queue_inv :: "rpc_queue \<Rightarrow> bool" where
  "queue_inv q \<longleftrightarrow>
     distinct (map fst (calls q)) \<and> distinct (pending q) \<and> set (pending q) = dom (map_of (calls q)) \<and>
     (\<forall>a c. map_of (calls q) a = Some c \<longrightarrow> a < next_addr q \<and> status_' c \<noteq> CREATE)"

text \<open>The objects that wait for a request of a method.\<close>

definition listeners :: "rpc_method \<Rightarrow> rpc_queue \<Rightarrow> nat set" where
  "listeners m q = {a. \<exists>c. map_of (calls q) a = Some c \<and> rc_method c = m \<and> status_' c = PROCESS}"

lemma new_RpcCall_simps [simp]:
  "map_of (calls (new_RpcCall m q)) =
     (map_of (calls q))(next_addr q \<mapsto> \<lparr>rc_method = m, status_' = PROCESS\<rparr>)"
  "pending (new_RpcCall m q) = pending q @ [next_addr q]"
  "next_addr (new_RpcCall m q) = Suc (next_addr q)"
  "distinct (map fst (calls q)) \<Longrightarrow> distinct (map fst (calls (new_RpcCall m q)))"
  by (simp_all add: new_RpcCall_def request_call_def distinct_update)

lemma queue_inv_fresh: "queue_inv q \<Longrightarrow> map_of (calls q) (next_addr q) = None"
  unfolding queue_inv_def by (metis less_irrefl not_Some_eq)

lemma new_RpcCall_inv: "queue_inv q \<Longrightarrow> queue_inv (new_RpcCall m q)"
  using queue_inv_fresh [of q] unfolding queue_inv_def by (auto simp: less_Suc_eq)

lemma new_RpcCall_listeners:
  "queue_inv q \<Longrightarrow>
   listeners m' (new_RpcCall m q) = (if m' = m then insert (next_addr q) (listeners m' q) else listeners m' q)"
  using queue_inv_fresh [of q] by (auto simp: listeners_def)

lemma start_inv: "queue_inv HandleRpcs_start"
  unfolding HandleRpcs_start_def fold_simps id_apply
  by (intro new_RpcCall_inv) (simp_all add: queue_inv_def)

lemma start_listeners: "\<exists>a. listeners m HandleRpcs_start = {a}"
proof -
  have "map_of (calls HandleRpcs_start) =
      [0 \<mapsto> \<lparr>rc_method = Echo, status_' = PROCESS\<rparr>, 1 \<mapsto> \<lparr>rc_method = DescribeCluster, status_' = PROCESS\<rparr>,
       2 \<mapsto> \<lparr>rc_method = ListShards, status_' = PROCESS\<rparr>, 3 \<mapsto> \<lparr>rc_method = LookupShard, status_' = PROCESS\<rparr>,
       4 \<mapsto> \<lparr>rc_method = CreateStream, status_' = PROCESS\<rparr>, 5 \<mapsto> \<lparr>rc_method = Append, status_' = PROCESS\<rparr>]"
    by (simp add: HandleRpcs_start_def eval_nat_numeral)
  then show ?thesis by (cases m) (auto simp: listeners_def split: if_splits)
qed

text \<open>Returning a tag from the queue and starting another operation with it, or deleting its object.\<close>

lemma set_remove_pending:
  "queue_inv q \<Longrightarrow> set (remove1 tag (pending q)) = dom (map_of (calls q)) - {tag}"
  by (simp add: queue_inv_def)

lemma delete_inv: "queue_inv q \<Longrightarrow> queue_inv (delete_call tag (q\<lparr>pending := remove1 tag (pending q)\<rparr>))"
  unfolding queue_inv_def delete_call_def by (auto simp: distinct_delete split: if_splits)

lemma finish_inv:
  assumes "queue_inv q" "map_of (calls q) tag = Some c"
  shows "queue_inv (q\<lparr>calls := AList.update tag (c\<lparr>status_' := FINISH\<rparr>) (calls q),
    pending := remove1 tag (pending q) @ [tag]\<rparr>)"
  using assms unfolding queue_inv_def by (auto simp: distinct_update split: if_splits)

text \<open>The state after a request has been handled.\<close>

definition handled :: "nat \<Rightarrow> rpc_call \<Rightarrow> rpc_queue \<Rightarrow> rpc_queue" where
  "handled tag c q =
     (let q' = new_RpcCall (rc_method c) q
      in q'\<lparr>calls := AList.update tag (c\<lparr>status_' := FINISH\<rparr>) (calls q'),
            pending := remove1 tag (pending q') @ [tag]\<rparr>)"

lemma handle_next_cases:
  assumes inv: "queue_inv q" and tag: "tag \<in> set (pending q)"
  obtains c where "map_of (calls q) tag = Some c" "status_' c = PROCESS \<or> status_' c = FINISH"
    "handle_next handler tag ok q =
       (if \<not> ok \<or> status_' c = FINISH
        then Running (delete_call tag (q\<lparr>pending := remove1 tag (pending q)\<rparr>))
        else case handler of Returned \<Rightarrow> Running (handled tag c q) | Threw \<Rightarrow> Terminated | Blocked \<Rightarrow> Waiting_forever)"
proof -
  obtain c where c: "map_of (calls q) tag = Some c" "status_' c \<noteq> CREATE"
    using inv tag unfolding queue_inv_def by auto
  then have st: "status_' c = PROCESS \<or> status_' c = FINISH" by (cases "status_' c") auto
  have "(new_RpcCall m (q\<lparr>pending := remove1 tag (pending q)\<rparr>))\<lparr>calls := x, pending := y\<rparr> =
      (new_RpcCall m q)\<lparr>calls := x, pending := y\<rparr>"
    "calls (new_RpcCall m (q\<lparr>pending := remove1 tag (pending q)\<rparr>)) = calls (new_RpcCall m q)" for m x y
    by (simp_all add: new_RpcCall_def request_call_def)
  moreover have "remove1 tag (pending q @ [next_addr q]) = remove1 tag (pending q) @ [next_addr q]"
    using tag by (simp add: remove1_append)
  ultimately have "handle_next handler tag ok q =
       (if \<not> ok \<or> status_' c = FINISH
        then Running (delete_call tag (q\<lparr>pending := remove1 tag (pending q)\<rparr>))
        else case handler of Returned \<Rightarrow> Running (handled tag c q) | Threw \<Rightarrow> Terminated | Blocked \<Rightarrow> Waiting_forever)"
    using c st
    by (auto simp: handle_next_def proceed_def handled_def Let_def delete_call_def split: handler_outcome.split)
  with c(1) st show ?thesis by (rule that)
qed

lemma delete_listeners:
  "map_of (calls q) tag = Some c \<Longrightarrow> status_' c = FINISH \<Longrightarrow>
   listeners m (delete_call tag (q\<lparr>pending := ps\<rparr>)) = listeners m q"
  by (auto simp: listeners_def delete_call_def)

lemma handled_inv:
  assumes "queue_inv q" "map_of (calls q) tag = Some c"
  shows "queue_inv (handled tag c q)"
proof -
  have "map_of (calls (new_RpcCall (rc_method c) q)) tag = Some c"
    using assms queue_inv_fresh [OF assms(1)] by auto
  from finish_inv [OF new_RpcCall_inv [OF assms(1)] this] show ?thesis
    by (simp add: handled_def Let_def)
qed

lemma handled_listeners:
  assumes "queue_inv q" "map_of (calls q) tag = Some c" "status_' c = PROCESS"
  shows "listeners m (handled tag c q) =
    (if m = rc_method c then insert (next_addr q) (listeners m q) - {tag} else listeners m q)"
proof -
  have "next_addr q \<noteq> tag" using assms(2) queue_inv_fresh [OF assms(1)] by auto
  then have "listeners m (handled tag c q) = listeners m (new_RpcCall (rc_method c) q) - {tag}"
    by (auto simp: listeners_def handled_def Let_def)
  moreover have "m \<noteq> rc_method c \<Longrightarrow> tag \<notin> listeners m q"
    using assms(2) by (auto simp: listeners_def)
  ultimately show ?thesis using new_RpcCall_listeners [OF assms(1)] by auto
qed

lemma handle_next_keeps:
  assumes inv: "queue_inv q" and tag: "tag \<in> set (pending q)"
    and step: "handle_next handler tag ok q = Running q'"
  shows "queue_inv q'"
    and "ok \<or> status_' (the (map_of (calls q) tag)) = FINISH \<Longrightarrow> (\<And>m. \<exists>a. listeners m q = {a}) \<Longrightarrow> \<exists>a. listeners m q' = {a}"
proof -
  obtain c where c: "map_of (calls q) tag = Some c" "status_' c = PROCESS \<or> status_' c = FINISH"
    and run: "handle_next handler tag ok q =
       (if \<not> ok \<or> status_' c = FINISH
        then Running (delete_call tag (q\<lparr>pending := remove1 tag (pending q)\<rparr>))
        else case handler of Returned \<Rightarrow> Running (handled tag c q) | Threw \<Rightarrow> Terminated | Blocked \<Rightarrow> Waiting_forever)"
    by (rule handle_next_cases [OF inv tag])
  have q': "if \<not> ok \<or> status_' c = FINISH
      then q' = delete_call tag (q\<lparr>pending := remove1 tag (pending q)\<rparr>) else q' = handled tag c q"
    using step run by (auto split: if_splits handler_outcome.splits)
  then show "queue_inv q'"
    using delete_inv [OF inv] handled_inv [OF inv c(1)] by (auto split: if_splits)
  show "\<exists>a. listeners m q' = {a}" if ok: "ok \<or> status_' (the (map_of (calls q) tag)) = FINISH" and one: "\<And>m. \<exists>a. listeners m q = {a}"
  proof (cases "status_' c = FINISH")
    case True
    then show ?thesis using q' one delete_listeners [OF c(1)] by simp
  next
    case False
    with c have p: "status_' c = PROCESS" by simp
    have "tag \<in> listeners (rc_method c) q" using c(1) p by (auto simp: listeners_def)
    then have self: "listeners (rc_method c) q = {tag}" using one [of "rc_method c"] by auto
    have "next_addr q \<noteq> tag" using c(1) queue_inv_fresh [OF inv] by auto
    then have "\<exists>a. listeners m (handled tag c q) = {a}"
      using handled_listeners [OF inv c(1) p, of m] self one [of m] by (cases "m = rc_method c") auto
    then show ?thesis using q' False ok c(1) by simp
  qed
qed

text \<open>
  \<^bold>\<open>C38.\<close> In every state the queues of the server can reach, under every interleaving of its threads, each live call object has exactly one pending
  operation and every tag the queue can return is a live object, so that no object is used after it
  was deleted or deleted twice, whatever the handlers do. As long as the server is not shut down,
  exactly one object listens for each method.
\<close>

theorem call_objects_safe:
  assumes "server_running shutdown parallelism qs" "q \<in> set qs"
  shows "distinct (pending q) \<and> set (pending q) = fst ` set (calls q) \<and>
    (tag \<in> set (pending q) \<longrightarrow> handle_next handler tag ok q \<noteq> Use_after_free) \<and>
    (\<not> shutdown \<longrightarrow> (\<exists>a. listeners m q = {a}))"
proof -
  have "serving shutdown q" using assms by (rule server_running_serving)
  then have "queue_inv q \<and> (\<not> shutdown \<longrightarrow> (\<forall>m. \<exists>a. listeners m q = {a}))"
  proof induction
    case start
    then show ?case using start_inv start_listeners by blast
  next
    case (next_tag q tag ok handler q')
    then show ?case using handle_next_keeps [of q tag handler ok q'] by blast
  qed
  moreover have "handle_next handler tag ok q \<noteq> Use_after_free" if "queue_inv q" "tag \<in> set (pending q)"
    by (rule handle_next_cases [OF that, where handler = handler and ok = ok]) (simp split: handler_outcome.split)
  ultimately show ?thesis unfolding queue_inv_def dom_map_of_conv_image_fst by blast
qed

theorem call_objects_safe_witness:
  "server_running False 2 (ServerImpl_run 2) \<and> (\<exists>a. listeners Append HandleRpcs_start = {a}) \<and>
   handle_next Returned 5 True HandleRpcs_start \<noteq> Use_after_free"
proof -
  have "5 \<in> set (pending HandleRpcs_start)" by (simp add: HandleRpcs_start_def)
  moreover have "HandleRpcs_start \<in> set (ServerImpl_run 2)" by (simp add: ServerImpl_run_def)
  ultimately show ?thesis
    using call_objects_safe [OF server_running.run, where shutdown = False and tag = 5 and m = Append
      and handler = Returned and ok = True] server_running.run [of False 2] by blast
qed

section \<open>What the handlers answer\<close>

text \<open>The shard that describes a log group, if its attributes have what it takes.\<close>

definition shard_of :: "'a attrs_lib \<Rightarrow> string \<Rightarrow> 'a log_group \<Rightarrow> Shard \<Rightarrow> bool" where
  "shard_of L streamname log sh \<longleftrightarrow>
     sh_streamname sh = streamname \<and> sh_shardid sh = fst (lg_range log) \<and>
     (\<exists>es epoch. val_of (extras (getters L (lg_attrs log))) = Some es \<and>
        map_of es ''startKey'' = Some (sh_starthashrangekey sh) \<and>
        map_of es ''endKey'' = Some (sh_endhashrangekey sh) \<and>
        map_of es ''epoch'' = Some epoch \<and> stoull epoch = Inr (sh_epoch sh))"

lemma add_shard_iff:
  "add_shard L streamname log shards = Inr r \<longleftrightarrow> (\<exists>sh. r = shards @ [sh] \<and> shard_of L streamname log sh)"
proof
  assume "add_shard L streamname log shards = Inr r"
  then show "\<exists>sh. r = shards @ [sh] \<and> shard_of L streamname log sh"
    by (auto simp: add_shard_def shard_of_def split: option.splits sum.splits)
next
  assume "\<exists>sh. r = shards @ [sh] \<and> shard_of L streamname log sh"
  then show "add_shard L streamname log shards = Inr r"
    by (auto simp: add_shard_def shard_of_def)
qed

lemma add_shards_iff:
  "fold_result (\<lambda>(k, log). add_shard L streamname log) logs shards = Inr r \<longleftrightarrow>
   (\<exists>new. r = shards @ new \<and> list_all2 (shard_of L streamname) (map snd logs) new)"
proof (induction logs arbitrary: shards)
  case (Cons l logs)
  show ?case
    by (cases l) (simp only: fold_result_Cons_Inr Cons.IH prod.case add_shard_iff list_all2_Cons1 list.map snd_conv,
        fastforce)
qed auto

text \<open>
  \<open>ListShards\<close> answers exactly if the directory of the stream exists and each of its log
  groups has a start key, an end key and a number as epoch in its extra attributes; the answer has
  one shard for each group, in the order of the directory's map. In every other case the handler
  throws inside a \<open>noexcept\<close> function and the process ends, with the first request already.
\<close>

theorem list_shards_served:
  "(ListShardsCall_handler L getDirectorySync streamname = Inr shards \<longleftrightarrow>
     (\<exists>dir. getDirectorySync (''/hstream/stream/'' @ streamname) = Some dir \<and>
        list_all2 (shard_of L streamname) (map snd (dir_logs dir)) shards)) \<and>
   (handle_next (outcome_of_result (ListShardsCall_handler L getDirectorySync streamname)) 2 True
      HandleRpcs_start = Terminated \<longleftrightarrow>
    (\<nexists>dir shards. getDirectorySync (''/hstream/stream/'' @ streamname) = Some dir \<and>
       list_all2 (shard_of L streamname) (map snd (dir_logs dir)) shards))"
proof -
  have iff: "ListShardsCall_handler L getDirectorySync streamname = Inr r \<longleftrightarrow>
     (\<exists>dir. getDirectorySync (''/hstream/stream/'' @ streamname) = Some dir \<and>
        list_all2 (shard_of L streamname) (map snd (dir_logs dir)) r)" for r
    unfolding ListShardsCall_handler_def Let_def by (auto simp: add_shards_iff split: option.split)
  have "handle_next (outcome_of_result h) 2 True HandleRpcs_start = Terminated \<longleftrightarrow>
    (\<nexists>r. h = Inr r)" for h :: "Shard list result"
    by (cases h) (simp_all add: handle_next_def proceed_def outcome_of_result_def HandleRpcs_start_def Let_def)
  with iff show ?thesis by blast
qed

text \<open>
  \<^bold>\<open>C39.\<close> \<open>Append\<close> answers exactly if the client refuses the batch or later reports its success; on success the
  answer has an identifier for each record of the batch, with the sequence number the store gave it
  and the records numbered from 0. When the store reports a failure the semaphore is never posted and
  the thread of the queue waits for ever.
\<close>

theorem append_served:
  assumes "map_of (calls q) addr = Some \<lparr>rc_method = Append, status_' = PROCESS\<rparr>"
    and "appendBatched (ar_shardid request) (ar_payload request) = (ret, answer)"
  shows "(proceed (outcome_of_option (AppendCall_handler appendBatched request)) addr q = Waiting_forever \<longleftrightarrow>
      ret = 0 \<and> (\<nexists>lsn. answer = Some (E_OK, lsn))) \<and>
    (answer = Some (E_OK, lsn) \<longrightarrow>
      (\<exists>r. AppendCall_handler appendBatched request = Some r \<and>
         ap_streamname r = ar_streamname request \<and> ap_shardid r = ar_shardid request \<and>
         length (ap_recordids r) = unat (ar_batchsize request) \<and>
         (\<forall>i < unat (ar_batchsize request). ap_recordids r ! i =
            \<lparr>ri_shardid = ar_shardid request, ri_batchid = Some lsn, ri_batchindex = i\<rparr>)))"
  using assms
  by (auto simp: proceed_def outcome_of_option_def AppendCall_handler_def AppendCall_callback_def Let_def
      split: option.splits prod.splits if_splits)

theorem append_served_witness:
  "map_of (calls HandleRpcs_start) 5 = Some \<lparr>rc_method = Append, status_' = PROCESS\<rparr> \<and>
   proceed (outcome_of_option (AppendCall_handler (\<lambda>logid payload. (0, Some (E_GAP, 0)))
     \<lparr>ar_streamname = ''s'', ar_shardid = 1, ar_batchsize = 2, ar_payload = ''p''\<rparr>)) 5 HandleRpcs_start =
   Waiting_forever"
proof -
  have "map_of (calls HandleRpcs_start) 5 = Some \<lparr>rc_method = Append, status_' = PROCESS\<rparr>"
    by (simp add: HandleRpcs_start_def)
  with append_served [OF this, where ret = 0 and answer = "Some (E_GAP, 0)"
      and appendBatched = "\<lambda>logid payload. (0, Some (E_GAP, 0))" and
      request = "\<lparr>ar_streamname = ''s'', ar_shardid = 1, ar_batchsize = 2, ar_payload = ''p''\<rparr>"]
  show ?thesis by simp
qed

section \<open>Starting without a store\<close>

text \<open>
  The client is not checked: a server whose configuration gives no client listens all the same, on the
  address of its options, and the first request that needs the store dereferences a null pointer.
\<close>

lemma starts_without_client:
  assumes "parse_command_line parsed = Inr opts" "create (cli_store_config opts) = None"
  shows "\<exists>ctx. fake_server_main create n parsed = Inr (ctx, None, ServerImpl_run n) \<and>
    server_address ctx = cli_host opts @ '':'' @ to_string (sint (cli_port opts)) \<and>
    ld_client None f = Inl null_pointer"
  using assms by (simp add: fake_server_main_def server_address_def ld_client_def Let_def)

end
