(* ===== verification/Bench_Store.thy ===== *)
theory Bench_Store
  imports Store_Logs Store_Config
begin

text \<open>
  The benchmarks of the log store (\<open>hstream-store/bench\<close>): writing checkpoints one by one, with retries, and
  creating log groups one by one. The checkpoint store and the client of LogDevice are parameters,
  with their state passed explicitly. Times and messages are left out.
\<close>

section \<open>Loops\<close>

text \<open>
  A \<open>for\<close> loop whose body may run for ever (\<^const>\<open>None\<close>), end the process, or go on with a new state.
\<close>

fun for_each :: "('x \<Rightarrow> 's \<Rightarrow> 's result option) \<Rightarrow> 'x list \<Rightarrow> 's \<Rightarrow> 's result option" where
  "for_each f [] s = Some (Inr s)"
| "for_each f (x # xs) s =
     (case f x s of
        None \<Rightarrow> None
      | Some (Inl e) \<Rightarrow> Some (Inl e)
      | Some (Inr s) \<Rightarrow> for_each f xs s)"

section \<open>Checkpoints\<close>

text \<open>
  The \<open>while (retry)\<close> loop around \<open>updateLSNSync\<close>. The counter starts at 1 and only grows, so that the
  condition holds in every round the counter can represent.
\<close>

partial_function (option) update_retry ::
    "('s \<Rightarrow> string \<Rightarrow> u64 \<Rightarrow> u64 \<Rightarrow> status \<times> 's) \<Rightarrow> u64 \<Rightarrow> 's \<Rightarrow> 's result option" where
  "update_retry updateLSNSync logid s =
     (case updateLSNSync s ''x'' logid 1 of
        (status, s) \<Rightarrow>
          if status = E_OK then Some (Inr s)
          else if status = E_AGAIN then update_retry updateLSNSync logid s
          else Some (Inl exit_1))"

text \<open>The log of a round, \<open>logid_t(i * 1000 + j)\<close>.\<close>

definition round_logid :: "nat \<Rightarrow> nat \<Rightarrow> u64" where
  "round_logid i j = of_nat (i * 1000 + j)"

definition bench_checkpoint_store ::
    "('s \<Rightarrow> string \<Rightarrow> u64 \<Rightarrow> u64 \<Rightarrow> status \<times> 's) \<Rightarrow> nat \<Rightarrow> nat \<Rightarrow> 's \<Rightarrow> 's result option" where
  "bench_checkpoint_store updateLSNSync x y =
     for_each (\<lambda>i. for_each (\<lambda>j. update_retry updateLSNSync (round_logid i j)) [1..<Suc y]) [1..<Suc x]"

definition rsm_based ::
    "('s \<Rightarrow> string \<Rightarrow> u64 \<Rightarrow> u64 \<Rightarrow> status \<times> 's) \<Rightarrow> ('c \<Rightarrow> u64 \<Rightarrow> u64 \<Rightarrow> 'c) \<Rightarrow> u64 \<Rightarrow> ('c \<Rightarrow> u64 \<Rightarrow> nat \<Rightarrow> 's)
       \<Rightarrow> 'c \<Rightarrow> u64 \<Rightarrow> 's result option" where
  "rsm_based updateLSNSync trimSync LSN_OLDEST createRSMBasedCheckpointStore client logid =
     (let client = trimSync client logid LSN_OLDEST
      in bench_checkpoint_store updateLSNSync 1000 1000 (createRSMBasedCheckpointStore client logid 5000))"

definition zk_based ::
    "('s \<Rightarrow> string \<Rightarrow> u64 \<Rightarrow> u64 \<Rightarrow> status \<times> 's) \<Rightarrow> ('c \<Rightarrow> 's) \<Rightarrow> 'c \<Rightarrow> 's result option" where
  "zk_based updateLSNSync createZookeeperBasedCheckpointStore client =
     bench_checkpoint_store updateLSNSync 1000 1000 (createZookeeperBasedCheckpointStore client)"

text \<open>\<open>std::stoi\<close>.\<close>

definition stoi :: "string \<Rightarrow> int result" where
  "stoi s =
     (case stoll s of
        Inl e \<Rightarrow> Inl e
      | Inr v \<Rightarrow> if - (2 ^ 31) \<le> v \<and> v < 2 ^ 31 then Inr v else Inl (StdException ''out_of_range''))"

text \<open>
  \<open>main\<close>. \<open>argv[argc]\<close> is the null pointer, which \<open>main\<close> passes to \<open>stoi\<close> if the log is missing.
\<close>

definition bench_main ::
    "('s \<Rightarrow> string \<Rightarrow> u64 \<Rightarrow> u64 \<Rightarrow> status \<times> 's) \<Rightarrow> ('c \<Rightarrow> u64 \<Rightarrow> u64 \<Rightarrow> 'c) \<Rightarrow> u64 \<Rightarrow> ('c \<Rightarrow> u64 \<Rightarrow> nat \<Rightarrow> 's)
       \<Rightarrow> ('c \<Rightarrow> 's) \<Rightarrow> (string \<Rightarrow> 'c option) \<Rightarrow> string list \<Rightarrow> 's result option" where
  "bench_main updateLSNSync trimSync LSN_OLDEST createRSM createZK create argv =
     (if length argv \<le> 2 then Some (Inl exit_1)
      else case create (argv ! 1) of
        None \<Rightarrow> Some (Inl exit_1)
      | Some client \<Rightarrow>
          if argv ! 2 = ''rsm''
          then (if length argv = 3 then Some (Inl null_pointer)
                else case stoi (argv ! 3) of
                  Inl e \<Rightarrow> Some (Inl e)
                | Inr logid \<Rightarrow> rsm_based updateLSNSync trimSync LSN_OLDEST createRSM client (word_of_int logid))
          else if argv ! 2 = ''zk'' then zk_based updateLSNSync createZK client
          else Some (Inl exit_1))"

section \<open>Log groups\<close>

text \<open>The path of a log group.\<close>

definition group_path :: "nat \<Rightarrow> nat \<Rightarrow> string" where
  "group_path i j = ''/tmp/cpp/'' @ decimal i @ ''_'' @ decimal j"

text \<open>The \<open>main\<close> of \<open>create_log_config_types.cpp\<close>; \<open>attrs\<close> is \<open>LogAttributes().with_replicationFactor(1)\<close>.\<close>

definition create_log_groups ::
    "('s \<Rightarrow> string \<Rightarrow> u64 \<times> u64 \<Rightarrow> 'a \<Rightarrow> bool \<Rightarrow> 'a log_group option \<times> 's) \<Rightarrow> 'a \<Rightarrow> 's option \<Rightarrow> 's result option" where
  "create_log_groups makeLogGroupSync attrs client =
     (case client of
        None \<Rightarrow> Some (Inl exit_1)
      | Some s \<Rightarrow>
          for_each (\<lambda>i. for_each (\<lambda>j s.
            case makeLogGroupSync s (group_path i j)
                (round_logid i j, round_logid i j) attrs True of
              (Some _, s) \<Rightarrow> Some (Inr s)
            | (None, s) \<Rightarrow> Some (Inl exit_1)) [1..<Suc 1000]) [1..<Suc 1000] s)"

section \<open>The loops visit every log once\<close>

lemma for_each_append:
  "for_each f (xs @ ys) s =
     (case for_each f xs s of None \<Rightarrow> None | Some (Inl e) \<Rightarrow> Some (Inl e) | Some (Inr s) \<Rightarrow> for_each f ys s)"
  by (induction xs arbitrary: s) (simp_all split: option.split sum.split)

lemma for_each_map: "for_each f (map g xs) = for_each (\<lambda>x. f (g x)) xs"
proof
  show "for_each f (map g xs) s = for_each (\<lambda>x. f (g x)) xs s" for s
    by (induction xs arbitrary: s) (simp_all split: option.split sum.split)
qed

text \<open>Two nested loops are one loop over the pairs.\<close>

lemma for_each_nested:
  "for_each (\<lambda>i. for_each (f i) ys) xs s = for_each (\<lambda>(i, j). f i j) (List.product xs ys) s"
  by (induction xs arbitrary: s)
    (simp_all add: for_each_append for_each_map split: option.split sum.split)

text \<open>A loop whose body always succeeds with a given effect.\<close>

lemma for_each_succeeds:
  assumes "\<And>x s. x \<in> set xs \<Longrightarrow> \<exists>s'. f x s = Some (Inr s') \<and> view s' = g x (view s)"
  shows "\<exists>s'. for_each f xs s = Some (Inr s') \<and> view s' = fold g xs (view s)"
  using assms
proof (induction xs arbitrary: s)
  case (Cons x xs)
  obtain s1 where s1: "f x s = Some (Inr s1)" "view s1 = g x (view s)" using Cons.prems [of x s] by auto
  show ?case using Cons.IH [of s1] Cons.prems s1 by simp
qed simp

definition logids :: "nat \<Rightarrow> nat \<Rightarrow> u64 set" where
  "logids x y = (\<lambda>(i, j). round_logid i j) ` ({1..x} \<times> {1..y})"

lemma logid_inj:
  assumes "x * 1000 + y < 2 ^ 31" "y \<le> 1000"
  shows "inj_on (\<lambda>(i, j). round_logid i j) ({1..x} \<times> {1..y})"
proof (rule inj_onI, clarify)
  fix i j i' j'
  assume in1: "i \<in> {1..x}" "j \<in> {1..y}" and in2: "i' \<in> {1..x}" "j' \<in> {1..y}"
    and eq: "round_logid i j = round_logid i' j'"
  have unat: "unat (round_logid k l) = k * 1000 + l" if "k \<in> {1..x}" "l \<in> {1..y}" for k l
  proof -
    have "k * 1000 + l \<le> x * 1000 + y" using that by (intro add_mono mult_right_mono) auto
    then have "k * 1000 + l < 2 ^ LENGTH(64)" using assms(1) by simp
    then show ?thesis unfolding round_logid_def unsigned_of_nat of_nat_id by (rule take_bit_nat_eq_self)
  qed
  have "i * 1000 + j = i' * 1000 + j'"
    using arg_cong [OF eq, of unat] unfolding unat [OF in1] unat [OF in2] .
  moreover from this have "i = i'"
    using in1 in2 assms(2) by (cases i i' rule: linorder_cases) auto
  ultimately show "i = i' \<and> j = j'" by simp
qed

lemma card_logids: "x * 1000 + y < 2 ^ 31 \<Longrightarrow> y \<le> 1000 \<Longrightarrow> card (logids x y) = x * y"
  unfolding logids_def by (subst card_image [OF logid_inj]) (simp_all add: card_cartesian_product)

text \<open>
  The store answers an update with \<open>AGAIN\<close> a number of times and then with \<open>OK\<close>.
\<close>

inductive eventually_ok :: "('s \<Rightarrow> string \<Rightarrow> u64 \<Rightarrow> u64 \<Rightarrow> status \<times> 's) \<Rightarrow> u64 \<Rightarrow> 's \<Rightarrow> bool"
  for upd :: "'s \<Rightarrow> string \<Rightarrow> u64 \<Rightarrow> u64 \<Rightarrow> status \<times> 's" and logid :: u64 where
  ok: "fst (upd s ''x'' logid 1) = E_OK \<Longrightarrow> eventually_ok upd logid s"
| again: "upd s ''x'' logid 1 = (E_AGAIN, s') \<Longrightarrow> eventually_ok upd logid s' \<Longrightarrow> eventually_ok upd logid s"

lemma update_retry_returns:
  assumes "eventually_ok upd logid s"
    and ok: "\<And>s s'. upd s ''x'' logid 1 = (E_OK, s') \<Longrightarrow> contents s' = (contents s)(logid \<mapsto> (1 :: u64))"
    and again: "\<And>s s'. upd s ''x'' logid 1 = (E_AGAIN, s') \<Longrightarrow> contents s' = contents s"
  shows "\<exists>s'. update_retry upd logid s = Some (Inr s') \<and> contents s' = (contents s)(logid \<mapsto> 1)"
  using assms(1)
proof induction
  case (ok s)
  then show ?case using assms(2) [of s] 
    by (cases "upd s ''x'' logid 1") (simp add: update_retry.simps fun_eq_iff)
next
  case (again s s')
  then show ?case using assms(3) [of s s'] update_retry.simps [of upd logid s] by simp
qed

lemma fold_upd_const: "fold (\<lambda>x m. m(h x \<mapsto> c)) xs m = (\<lambda>k. if k \<in> h ` set xs then Some c else m k)"
  by (induction xs arbitrary: m) (auto simp: fun_eq_iff)

text \<open>
  \<^bold>\<open>C40.\<close> The checkpoint benchmark returns if the store answers every update with \<open>OK\<close> after finitely many
  \<open>AGAIN\<close>s, however often it has to retry. Then it has set the checkpoints of \<open>x * y\<close> different logs to 1
  and no other.
\<close>

theorem bench_checkpoints_returns:
  assumes bounds: "x * 1000 + y < 2 ^ 31" "y \<le> 1000"
    and live: "\<And>logid s. eventually_ok upd logid s"
    and ok: "\<And>logid s s'. upd s ''x'' logid 1 = (E_OK, s') \<Longrightarrow> contents s' = (contents s)(logid \<mapsto> (1 :: u64))"
    and again: "\<And>logid s s'. upd s ''x'' logid 1 = (E_AGAIN, s') \<Longrightarrow> contents s' = contents s"
  shows "\<exists>s'. bench_checkpoint_store upd x y s = Some (Inr s') \<and> card (logids x y) = x * y \<and>
    contents s' = (\<lambda>k. if k \<in> logids x y then Some 1 else contents s k)"
proof -
  let ?f = "\<lambda>(i, j). update_retry upd (round_logid i j)"
  let ?k = "\<lambda>(i, j). round_logid i j"
  have "\<exists>s'. for_each ?f (List.product [1..<Suc x] [1..<Suc y]) s = Some (Inr s') \<and>
      contents s' = fold (\<lambda>p m. m(?k p \<mapsto> 1)) (List.product [1..<Suc x] [1..<Suc y]) (contents s)"
  proof (rule for_each_succeeds [where view = contents])
    fix p t
    show "\<exists>s'. ?f p t = Some (Inr s') \<and> contents s' = (contents t)(?k p \<mapsto> 1)"
      unfolding case_prod_unfold
      by (rule update_retry_returns [OF live]) (erule ok, erule again)
  qed
  then obtain s' where run: "for_each ?f (List.product [1..<Suc x] [1..<Suc y]) s = Some (Inr s')"
    and new: "contents s' = fold (\<lambda>p m. m(?k p \<mapsto> 1)) (List.product [1..<Suc x] [1..<Suc y]) (contents s)"
    by (elim exE conjE)
  have keys: "?k ` set (List.product [1..<Suc x] [1..<Suc y]) = logids x y"
    unfolding logids_def set_product set_upt atLeastLessThanSuc_atLeastAtMost by (rule refl)
  have "bench_checkpoint_store upd x y s = Some (Inr s')"
    using run unfolding bench_checkpoint_store_def for_each_nested .
  moreover have "contents s' = (\<lambda>k. if k \<in> logids x y then Some 1 else contents s k)"
    using new unfolding fold_upd_const keys .
  ultimately show ?thesis using card_logids [OF bounds] by (intro exI conjI)
qed

theorem bench_checkpoints_returns_witness:
  "\<exists>s'. bench_checkpoint_store
       (\<lambda>(m, busy) name logid lsn. if busy then (E_OK, (m(logid \<mapsto> lsn), False)) else (E_AGAIN, (m, True)))
       1 2 (Map.empty, False) = Some (Inr s') \<and>
     fst s' 1001 = Some 1 \<and> fst s' 1002 = Some 1 \<and> fst s' 1 = None"
proof -
  let ?upd = "\<lambda>(m :: u64 \<rightharpoonup> u64, busy) (name :: string) logid (lsn :: u64).
    if busy then (E_OK, (m(logid \<mapsto> lsn), False)) else (E_AGAIN, (m, True))"
  have live: "eventually_ok ?upd logid s" for logid s
  proof (cases s)
    case (Pair m busy)
    have "eventually_ok ?upd logid (m, True)" by (rule eventually_ok.ok) simp
    then show ?thesis unfolding Pair by (cases busy) (auto intro: eventually_ok.again)
  qed
  have "\<exists>s'. bench_checkpoint_store ?upd 1 2 (Map.empty, False) = Some (Inr s') \<and> card (logids 1 2) = 1 * 2 \<and>
      fst s' = (\<lambda>k. if k \<in> logids 1 2 then Some 1 else fst (Map.empty :: u64 \<rightharpoonup> u64, False) k)"
    by (rule bench_checkpoints_returns [where contents = fst, OF _ _ live])
      (auto split: if_splits)
  moreover have "1001 \<in> logids 1 2 \<and> 1002 \<in> logids 1 2 \<and> 1 \<notin> logids 1 2"
  proof -
    have "{1..1} = {1 :: nat}" "{1..2} = {1, 2 :: nat}" by auto
    then show ?thesis unfolding logids_def by (simp add: round_logid_def)
  qed
  ultimately show ?thesis by (elim exE conjE, intro exI conjI) (assumption, simp_all)
qed

section \<open>Every log group gets a path and a log of its own\<close>

lemma group_path_inj:
  assumes "group_path i j = group_path i' j'"
  shows "i = i' \<and> j = j'"
proof -
  have no: "CHR ''_'' \<notin> set (decimal n)" for n
    using decimal_digits [of n] by (auto simp: list_all_iff is_digit_def)
  have "decimal i @ CHR ''_'' # decimal j = decimal i' @ CHR ''_'' # decimal j'"
    using assms by (simp add: group_path_def)
  then have "decimal i = decimal i' \<and> decimal j = decimal j'"
    using append_Cons_eq_iff [OF no [of i] no [of j]] by simp
  then show ?thesis using decimal_value by metis
qed

text \<open>
  A loop that adds one entry per round, in which each round succeeds if neither the path nor the log
  of its entry is taken.
\<close>

lemma for_each_fresh:
  assumes "\<And>x s. x \<in> set xs \<Longrightarrow> fst (h x) \<notin> fst ` set (view s) \<Longrightarrow> snd (h x) \<notin> snd ` set (view s) \<Longrightarrow>
      \<exists>s'. f x s = Some (Inr s') \<and> view s' = h x # view s"
    and "distinct (map fst (rev (map h xs) @ view s))" "distinct (map snd (rev (map h xs) @ view s))"
  shows "\<exists>s'. for_each f xs s = Some (Inr s') \<and> view s' = rev (map h xs) @ view s"
  using assms
proof (induction xs arbitrary: s)
  case (Cons x xs)
  obtain s1 where s1: "f x s = Some (Inr s1)" "view s1 = h x # view s"
    using Cons.prems(1) [of x s] Cons.prems(2,3) by auto
  have "\<exists>s'. for_each f xs s1 = Some (Inr s') \<and> view s' = rev (map h xs) @ view s1"
    using Cons.prems s1(2) by (intro Cons.IH) auto
  then show ?case using s1 by simp
qed simp

text \<open>
  If the store creates every log group whose path and range are free, the second benchmark creates
  a million groups on an empty store, each for one log, and ends.
\<close>

theorem create_log_groups_returns:
  assumes free: "\<And>s path logid. path \<notin> fst ` set (groups s) \<Longrightarrow> logid \<notin> snd ` set (groups s) \<Longrightarrow>
      \<exists>g s'. makeLogGroupSync s path (logid, logid) attrs True = (Some g, s') \<and> groups s' = (path, logid) # groups s"
    and empty: "groups s = []"
  shows "\<exists>s'. create_log_groups makeLogGroupSync attrs (Some s) = Some (Inr s') \<and> length (groups s') = 1000000 \<and>
    set (groups s') = (\<lambda>(i, j). (group_path i j, round_logid i j)) ` ({1..1000} \<times> {1..1000})"
proof -
  let ?h = "\<lambda>(i, j). (group_path i j, round_logid i j)"
  let ?f = "\<lambda>(i, j) s. case makeLogGroupSync s (group_path i j) (round_logid i j, round_logid i j) attrs True of
      (Some _, s) \<Rightarrow> Some (Inr s) | (None, s) \<Rightarrow> Some (Inl exit_1)"
  let ?ps = "List.product [1..<Suc 1000] [1..<Suc 1000]"
  have ps: "set ?ps = {1..1000} \<times> {1..1000}" "distinct ?ps" "length ?ps = 1000000"
    unfolding set_product set_upt atLeastLessThanSuc_atLeastAtMost
    by (rule refl, rule distinct_product, rule distinct_upt, rule distinct_upt, simp only: length_product length_upt, simp)
  have "inj_on (fst \<circ> ?h) (set ?ps)" by (rule inj_onI) (auto dest: group_path_inj)
  then have d1: "distinct (map fst (rev (map ?h ?ps) @ groups s))"
    using ps(2) by (simp add: empty distinct_map rev_map del: upt_Suc)
  have "inj_on (snd \<circ> ?h) (set ?ps)"
    using logid_inj [of 1000 1000] unfolding ps(1) comp_def by (simp add: case_prod_unfold)
  then have d2: "distinct (map snd (rev (map ?h ?ps) @ groups s))"
    using ps(2) by (simp add: empty distinct_map rev_map del: upt_Suc)
  have "\<exists>s'. for_each ?f ?ps s = Some (Inr s') \<and> groups s' = rev (map ?h ?ps) @ groups s"
  proof (rule for_each_fresh [where view = groups and h = ?h and f = ?f, OF _ d1 d2])
    fix p t
    assume "fst (?h p) \<notin> fst ` set (groups t)" "snd (?h p) \<notin> snd ` set (groups t)"
    then show "\<exists>s'. ?f p t = Some (Inr s') \<and> groups s' = ?h p # groups t"
      using free [of "fst (?h p)" t "snd (?h p)"] by (auto simp: case_prod_unfold)
  qed
  then obtain s' where run: "for_each ?f ?ps s = Some (Inr s')" and new: "groups s' = rev (map ?h ?ps)"
    unfolding empty append_Nil2 by (elim exE conjE)
  have "create_log_groups makeLogGroupSync attrs (Some s) = Some (Inr s')"
    using run unfolding create_log_groups_def option.case for_each_nested .
  moreover have "length (groups s') = 1000000" unfolding new length_rev length_map by (rule ps(3))
  moreover have "set (groups s') = ?h ` ({1..1000} \<times> {1..1000})" unfolding new set_rev set_map ps(1) by (rule refl)
  ultimately show ?thesis by (intro exI conjI)
qed

end
