(* ===== verification/Spec2Isabelle.thy ===== *)
theory Spec2Isabelle
  imports Stats_Properties Admin_Typing Query_Ffi Query_Context Kafka_Session Kafka_Listener Kafka_Client Fatal_Signal Health_Checker
    Store_Checkpoint Store_Attributes Store_Config Store_Reader Store_Writer Store_Client Store_Query
    Store_Accessors Store_Handles Fake_Server Bench_Store
begin

text \<open>
  This development models the C++ part of HStream, the native code that the Haskell server, the
  command line tools and the store bindings call through the foreign function interface.

  \<^bold>\<open>The program and its theories.\<close>
  \<^item> Statistics (\<open>common/stats/cbits\<close>). Every thread counts in its own \<open>Stats\<close> object, a
    \<open>StatsHolder\<close> owns them and aggregates them, also for threads that have exited.
    \<open>Stats_Counter\<close> has the counters of one object and the tables generated from the \<open>.inc\<close> files,
    \<open>Stats_Params\<close> the time series tables and the resolution of names, \<open>Stats_Core\<close> the \<open>Stats\<close>
    objects, \<open>Stats_Holder\<close> the holder, \<open>Stats_Counters_Api\<close> and \<open>Stats_Series\<close> the macros and
    templates of \<open>Stats.h\<close>, \<open>Stats_Ffi\<close> the functions of \<open>hs_stats.cpp\<close>. \<open>Stats_Refinement\<close> relates
    the operations to an abstract machine of per-thread contributions, and \<open>Stats_Properties\<close> states
    what a reader observes after any interleaving of operations.
  \<^item> Admin queries (\<open>common/hstream/cbits/query\<close>, \<open>hstream-admin/server/cbits/query\<close>,
    \<open>clients/cpp\<close>). SQL over virtual tables, each filled by an admin command sent to the nodes.
    \<open>Query_Tables\<close> has the tables, \<open>Query_Context\<close> the query object and the client its tables share, \<open>Admin_Names\<close> the normalisation of headers, \<open>Admin_Table\<close> the
    merge of the nodes' tables, \<open>Admin_Json\<close> the parser of a response, \<open>Admin_Client\<close> the client and
    the parallel parsing, \<open>Admin_Query\<close> the selection of nodes, the cache and the index,
    \<open>Query_Ffi\<close> the C interface. \<open>Admin_Select\<close> and \<open>Admin_Cache\<close> prove the selection, the invariant
    of the cache over all reachable states, the answer of a query, that it returns, and how often it
    asks the cluster. \<open>Admin_Typing\<close> proves that answers are well typed.
  \<^item> Kafka server (\<open>hstream-kafka/cbits/hs_kafka_server.cpp\<close>). \<open>Kafka_Server\<close> has framing, the loop
    of a connection as a function, and the pool of event loops. \<open>Kafka_Session\<close> has the same loop as
    it runs: a coroutine that hands pointers to its locals to a Haskell thread and waits on a channel
    that the thread releases. Its step relation has every interleaving of coroutine, threads, completion
    handlers, stopping and deleting the server; each ends as the function of \<open>Kafka_Server\<close> does, and
    no thread reaches locals that are gone unless the server is deleted. \<open>Kafka_Listener\<close> has the
    accept loop with the errors that end it, the stable pointers of sessions, and when the server returns.
  \<^item> Kafka client (\<open>hstream-kafka/cbits/hs_kafka_client.cpp\<close>), in \<open>Kafka_Client\<close>: creating clients,
    producing with retries, the consumer loop and its callbacks.
  \<^item> Fatal signals (\<open>common/base/cbits/fatalsignal.cpp\<close>), in \<open>Fatal_Signal\<close>: unmapping the caches
    before a core dump.
  \<^item> Health check (\<open>hstream-store/cbits/logdevice/ld_health_checker.cpp\<close>), in \<open>Health_Checker\<close>.
  \<^item> Bindings of the log store (\<open>hstream-store/cbits/logdevice\<close>). \<open>Store_Ffi\<close> has what they share: arrays
    and C strings from Haskell, result pointers, copies of vectors (\<open>common/base/cbits/hs_struct.cpp\<close>),
    and the loop that fills a map from two arrays, proved for hash maps and ordered maps in the locale \<open>keyed_store\<close>. \<open>Store_Checkpoint\<close> models
    \<open>hs_checkpoint.cpp\<close>, \<open>Store_Attributes\<close> \<open>hs_log_attributes.cpp\<close> and the attribute functions of
    \<open>hs_logconfigtypes.cpp\<close>, \<open>Store_Config\<close> \<open>hs_versioned_config_store.cpp\<close>, \<open>Store_Reader\<close>
    \<open>hs_reader.cpp\<close> and \<open>Store_Writer\<close> \<open>hs_writer.cpp\<close>. They show what comes back after building
    attributes or writing checkpoints, what removing checkpoints removes, which version a value has,
    what a read delivers and what a batch contains. \<open>Store_Logs\<close> has the log groups, directories, head
    and tail attributes of \<open>hs_logconfigtypes.cpp\<close>, each function as the request it sends with the
    callback that answers it, and shows that a listing names every log group once and that an update
    of extra attributes keeps all others. \<open>Store_Client\<close> models the client (\<open>cbits/hs_logdevice.cpp\<close>), and
    \<open>Store_Query\<close> the query interface of LogDevice (\<open>hs_ldquery.cpp\<close>), proved to agree with \<open>Query_Ffi\<close>.
    \<open>Store_Accessors\<close> reads the objects the callbacks hand over. \<open>Store_Handles\<close> counts the owners of
    every object behind a handle, in the builds with and without shared checkpoint stores, and shows that
    programs that respect types and free handles once neither leak nor use what is gone.
  \<^item> Benchmarks. \<open>Fake_Server\<close> models the asynchronous gRPC server of \<open>bench/cpp/fake_server.cpp\<close>: call
    objects that delete themselves, the threads of the completion queues as an inductive relation,
    and the handlers; no object is used after its deletion, and each handler answers or fails
    exactly as stated. \<open>Bench_Store\<close> models the programs of \<open>hstream-store/bench\<close>, which visit every log
    once and end if the store eventually answers.

  \<^bold>\<open>How the code is represented.\<close> \<open>HS_Prelude\<close> fixes the conventions. A struct is a record, an
  \<open>enum\<close> a datatype, an integer a word of its width where wrap-around or conversion matters and a
  number otherwise. A \<open>std::unordered_map\<close> is an association list with distinct keys whose order
  stands for the unspecified iteration order. A function that can throw or abort returns a sum whose
  left part is a failed \<open>ld_check\<close>, a failed \<open>hs_check\<close> or another exception. State is passed
  explicitly; the state an exception leaves behind is not modelled, except where stated. Threads
  are sequences of steps in arbitrary order.

  Code from other projects is a parameter: LogDevice's counters, histograms, query library and
  cluster requests, folly, gason, gRPC, asio, librdkafka and RocksDB. What the code relies on is a
  locale, interpreted on a concrete instance: \<open>stats_counter\<close>, \<open>histogram_bundle\<close>, \<open>table_rows\<close>,
  \<open>constraint_lists\<close>, \<open>segment_sort\<close>, and \<open>coro_lock\<close> for the channel of asio. The locales \<open>counter_table\<close> and \<open>ts_table\<close> are contracts between
  parts of the statistics and are interpreted on the tables of the program. For the store bindings the
  documented behaviour of LogDevice is a named predicate (\<open>ckp_lib_ok\<close>, \<open>attrs_lib_ok\<close>), met by an
  implementation in memory.

  \<^bold>\<open>Loops and bounds.\<close> Loops over containers are structural recursion. The loop of a Kafka
  connection ends because every round consumes its length prefix; printing a number ends because it
  divides by ten. The consumer loop and the retry loop of the producer may run for ever: they take
  the list of events they will see and have no result if that list ends first. The retry loop of the
  checkpoint benchmark is a partial function without fuel, with a proof that it returns. Sizes are natural
  numbers; \<open>max_num_segs\<close> and \<open>MAX_FETCHES\<close> are the constants of the source.

  \<^bold>\<open>Not modelled.\<close> Log output, timing, deadlines and memory exhaustion. Functions whose body is one call
  of a library and whose result is that of the call: log levels, the table of internal logs, the
  ZooKeeper client and the hash function; the insides of LogDevice objects, asio and Boost; the
  shutdown of the fake server, which never stops; declarations in headers; and Haskell code, except
  for the steps of the thread that answers a Kafka request.
\<close>

section \<open>The tables ask for statistics that exist\<close>

text \<open>
  The statistic an admin command names, as the server resolves it: a time series of streams or
  subscriptions, a counter of streams, or a histogram of the server.
\<close>

definition statistic_known :: "admin_table \<Rightarrow> bool" where
  "statistic_known t =
     (case command_words t of
        _ # stats # category # name # _ \<Rightarrow>
          if stats \<noteq> ''stats'' then True
          else if category = ''stream'' then setPerStreamTimeSeriesMember name None \<noteq> None
          else if category = ''subscription'' then setPerSubscriptionTimeSeriesMember name None \<noteq> None
          else if category = ''stream_counter'' then setPerStreamStatsMember name None \<noteq> None
          else name \<in> set ServerHistograms_getMap
      | _ \<Rightarrow> True)"


end
